(* ===== verification/Prelude.thy ===== *)
theory Prelude
  imports Main "HOL-Library.Word"
begin

text \<open>
  Shared vocabulary of the development: the machine integer types of the C++ sources, the
  byte-buffer update that models a write through a span, big-endian splitting of a 16-bit
  value, and the generic facts on words, lists and options that the component theories use.

  \<^item> \<open>size_t\<close> values are \<open>nat\<close>: every size the library computes is bounded by a buffer
    capacity or by the MQTT maximum, and the bounds are proved where they matter. The
    fixed-width integers (\<open>uint8_t\<close>, \<open>uint16_t\<close>, \<open>uint32_t\<close>, \<open>uint64_t\<close>) are words.
  \<^item> \<open>etl::span\<close>, \<open>etl::string_view\<close>, \<open>etl::array\<close> and \<open>etl::vector\<close> values are lists; a
    view is the list of the bytes it shows.
\<close>

unbundle bit_operations_syntax

section \<open>Machine integers and byte strings\<close>

type_synonym u8 = "8 word"
type_synonym u16 = "16 word"
type_synonym u32 = "32 word"
type_synonym u64 = "64 word"
type_synonym bytes = "u8 list"

text \<open>The bytes of a C++ string literal.\<close>

definition lit :: "string \<Rightarrow> bytes" where
  "lit s = map of_char s"

text \<open>A write of \<open>xs\<close> into a buffer at offset \<open>i\<close>.\<close>

definition write_at :: "'a list \<Rightarrow> nat \<Rightarrow> 'a list \<Rightarrow> 'a list" where
  "write_at buf i xs = take i buf @ xs @ drop (i + length xs) buf"

text \<open>Network byte order of a 16-bit value.\<close>

definition be16 :: "u16 \<Rightarrow> bytes" where
  "be16 v = [ucast (drop_bit 8 v), ucast v]"

definition of_be16 :: "u8 \<Rightarrow> u8 \<Rightarrow> u16" where
  "of_be16 hi lo = push_bit 8 (ucast hi) OR ucast lo"

text \<open>The collections the component theories fill.\<close>

named_theorems word_facts \<open>bit-level tests and masks on bytes as arithmetic\<close>
named_theorems wire_simps \<open>wire format of the packets\<close>

section \<open>Lists\<close>

lemma length_write_at [simp]:
  "i + length xs \<le> length buf \<Longrightarrow> length (write_at buf i xs) = length buf"
  by (simp add: write_at_def)

lemma write_at_Nil [simp]: "write_at buf i [] = buf"
  by (simp add: write_at_def)

lemma write_at_prefix:
  "length pre + length xs \<le> length out \<Longrightarrow>
   write_at (pre @ drop (length pre) out) (length pre) xs
     = (pre @ xs) @ drop (length (pre @ xs)) out"
  by (simp add: write_at_def add.commute)

lemma take_write_at [simp]:
  "i \<le> length buf \<Longrightarrow> take i (write_at buf i xs) = take i buf"
  by (simp add: write_at_def)

lemma take_write_at_full:
  "i \<le> length buf \<Longrightarrow> take (i + length xs) (write_at buf i xs) = take i buf @ xs"
  by (simp add: write_at_def)

lemma drop_take_write_at:
  assumes "h \<le> i" "i + length xs \<le> length buf"
  shows "take (i + length xs - h) (drop h (write_at buf i xs))
    = take (i - h) (drop h buf) @ xs"
proof -
  have "take (i + length xs - h) (drop h (write_at buf i xs))
      = drop h (take (i + length xs) (write_at buf i xs))"
    by (simp add: drop_take)
  also have "\<dots> = drop h (take i buf @ xs)"
    using assms by (simp add: take_write_at_full)
  also have "\<dots> = take (i - h) (drop h buf) @ xs"
    using assms by (simp add: drop_take)
  finally show ?thesis .
qed

lemma distinct_filter_neq_length:
  "distinct (map f xs) \<Longrightarrow> x \<in> set xs \<Longrightarrow>
   length (filter (\<lambda>y. f y \<noteq> f x) xs) = length xs - 1"
proof (induction xs)
  case (Cons a xs)
  show ?case
  proof (cases "f a = f x")
    case True
    with Cons.prems have "filter (\<lambda>y. f y \<noteq> f x) xs = xs"
      by (intro filter_True) (force simp: image_iff)
    with True show ?thesis by simp
  next
    case False
    with Cons.prems have "x \<in> set xs" by auto
    with False Cons show ?thesis by (cases xs) auto
  qed
qed simp

section \<open>Words\<close>

lemma unat_and_mask: "unat (w AND mask n :: 'a::len word) = unat w mod 2 ^ n"
  by (metis take_bit_eq_mask unsigned_take_bit_eq take_bit_eq_mod)

lemma unat_u8_less: "unat (b::u8) < 256"
proof -
  have "unat b < 2 ^ LENGTH(8)" by (rule unsigned_less)
  then show ?thesis by simp
qed

lemma unat_u16_less: "unat (v::u16) < 65536"
proof -
  have "unat v < 2 ^ LENGTH(16)" by (rule unsigned_less)
  then show ?thesis by simp
qed

lemma unat_u32_less: "unat (v::u32) < 4294967296"
proof -
  have "unat v < 2 ^ LENGTH(32)" by (rule unsigned_less)
  then show ?thesis by simp
qed

lemma unat_ucast_u8 [simp]:
  "unat (ucast (b::u8) :: u32) = unat b" "unat (ucast (b::u8) :: u16) = unat b"
  using unat_u8_less [of b] by (simp_all add: unsigned_ucast_eq take_bit_eq_mod)

text \<open>A property of all small bytes is a finite check.\<close>

lemma u8_below_list:
  assumes "list_all (\<lambda>n. P (word_of_nat n)) [0..<m]" and "unat b < m"
  shows "P (b::u8)"
proof -
  have "P (word_of_nat (unat b))" using assms unfolding list_all_iff by (metis atLeastLessThan_iff le0 set_upt)
  then show ?thesis by simp
qed

lemma unat_and_0F [word_facts]: "unat (b AND 0x0F :: u8) < 16"
  using unat_and_mask [of b 4] by (simp add: mask_eq_exp_minus_1)

lemma u8_bits_cases: "n < 8 \<Longrightarrow> n \<in> {0, 1, 2, 3, 4, 5, 6, 7::nat}"
  by simp arith

lemma nibbles [word_facts]: "push_bit 4 (drop_bit 4 b AND 0x0F) OR (b AND 0x0F) = (b::u8)"
  by (rule bit_word_eqI, simp, drule u8_bits_cases) (auto simp: bit_simps)

lemma and_80 [word_facts]: "b AND 0x80 = 0 \<longleftrightarrow> b < (128::u8)"
proof -
  have "b AND 0x80 = 0 \<longleftrightarrow> \<not> bit b 7"
    using and_exp_eq_0_iff_not_bit [of b 7] by simp
  also have "\<dots> \<longleftrightarrow> \<not> bit (unat b) 7" by (simp add: bit_unsigned_iff)
  also have "\<dots> \<longleftrightarrow> \<not> odd (unat b div 2 ^ 7)" by (simp only: bit_iff_odd)
  also have "\<dots> \<longleftrightarrow> unat b < 128"
  proof (cases "unat b < 128")
    case False
    then have "unat b div 2 ^ 7 = 1"
      using unat_u8_less [of b] by (intro div_nat_eqI) simp_all
    with False show ?thesis by simp
  qed simp
  finally show ?thesis by (simp add: word_less_nat_alt)
qed

lemma unat_and_7F [word_facts]: "unat (b AND 0x7F :: u8) = unat b mod 128"
  using unat_and_mask [of b 7] by (simp add: mask_eq_exp_minus_1)

lemma and_7F [word_facts]:
  "b < 128 \<Longrightarrow> b AND 0x7F = b"
  "b AND 0x7F < (128::u8)"
  by (simp_all add: word_unat_eq_iff unat_and_7F word_less_nat_alt)

lemma or_80 [word_facts]: "(b OR 0x80) AND 0x7F = b AND 0x7F"
  "(b OR 0x80) AND 0x80 \<noteq> (0::u8)"
  "\<not> b < 128 \<Longrightarrow> (b AND 0x7F) OR 0x80 = b"
proof -
  show "(b OR 0x80) AND 0x7F = b AND 0x7F"
  by (rule bit_word_eqI, simp, drule u8_bits_cases) (auto simp: bit_simps)
  have "bit ((b OR 0x80) AND 0x80) 7" by (simp add: bit_simps)
  then show "(b OR 0x80) AND 0x80 \<noteq> 0" by auto
  assume "\<not> b < 128"
  then have "bit b 7" using and_80 and_exp_eq_0_iff_not_bit [of b 7] by simp
  then show "(b AND 0x7F) OR 0x80 = b"
  by - (rule bit_word_eqI, simp, drule u8_bits_cases, auto simp: bit_simps)
qed

lemma unat_of_be16: "unat (of_be16 hi lo) = 256 * unat hi + unat lo"
proof -
  have disj: "push_bit 8 (ucast hi :: u16) AND ucast lo = 0"
    by (rule bit_word_eqI) (auto simp: bit_simps dest: bit_imp_le_length)
  have "of_be16 hi lo = push_bit 8 (ucast hi) + ucast lo"
    unfolding of_be16_def by (rule disjunctive_add_eq_or [symmetric]) (rule disj)
  also have "\<dots> = word_of_nat (256 * unat hi + unat lo)"
    by (simp add: push_bit_eq_mult ac_simps)
  finally have "unat (of_be16 hi lo) = (256 * unat hi + unat lo) mod 2 ^ LENGTH(16)"
    by (simp only: unat_of_nat)
  then show ?thesis
    using unat_u8_less [of hi] unat_u8_less [of lo] by simp
qed

lemma of_be16_be16 [simp]: "of_be16 (ucast (drop_bit 8 v)) (ucast v) = v"
  unfolding of_be16_def
  by (rule bit_word_eqI) (auto simp: bit_simps)

lemma of_be16_eq_0 [simp]: "of_be16 hi lo = 0 \<longleftrightarrow> hi = 0 \<and> lo = 0"
proof -
  have "of_be16 hi lo = 0 \<longleftrightarrow> unat (of_be16 hi lo) = 0" by (simp add: unat_eq_zero)
  also have "\<dots> \<longleftrightarrow> hi = 0 \<and> lo = 0" by (simp add: unat_of_be16 unat_eq_zero)
  finally show ?thesis .
qed

lemma length_be16 [simp]: "length (be16 v) = 2"
  by (simp add: be16_def)

end
