(* ===== verification/Errors.thy ===== *)
theory Errors
  imports Prelude
begin

text \<open>
  \<^verbatim>\<open>include/mqtt/error.hpp\<close> and the error table of \<^verbatim>\<open>src/packet.cpp\<close>: the error enum with its
  pinned numeric values and names, the \<open>Result\<close> carrier, and the early-return idiom
  \<open>if (e != Error::Ok) return e\<close> over a state passed by reference.
\<close>

section \<open>Error codes\<close>

datatype Error =
    Ok
  | WouldBlock | Incomplete
  | InvalidArgument | NotConnected | AlreadyConnected | NotSupported
  | BufferTooSmall | TxQueueFull | NoInflightSlot | NoSubscriptionSlot | NoPendingAckSlot
  | PayloadTooLarge | TopicTooLong
  | MalformedPacket | ProtocolViolation | PacketTooLarge | ConnectionRefused
  | KeepAliveTimeout | ConnectTimeout
  | TransportFailure | TransportClosed
  | Reentrant

text \<open>The numeric value of each enumerator.\<close>

fun error_value :: "Error \<Rightarrow> u8" where
  "error_value Ok = 0"
| "error_value WouldBlock = 1"
| "error_value Incomplete = 2"
| "error_value InvalidArgument = 3"
| "error_value NotConnected = 4"
| "error_value AlreadyConnected = 5"
| "error_value NotSupported = 6"
| "error_value BufferTooSmall = 7"
| "error_value TxQueueFull = 8"
| "error_value NoInflightSlot = 9"
| "error_value NoSubscriptionSlot = 10"
| "error_value NoPendingAckSlot = 11"
| "error_value PayloadTooLarge = 12"
| "error_value TopicTooLong = 13"
| "error_value MalformedPacket = 14"
| "error_value ProtocolViolation = 15"
| "error_value PacketTooLarge = 16"
| "error_value ConnectionRefused = 17"
| "error_value KeepAliveTimeout = 18"
| "error_value ConnectTimeout = 19"
| "error_value TransportFailure = 20"
| "error_value TransportClosed = 21"
| "error_value Reentrant = 22"

fun error_to_string :: "Error \<Rightarrow> string" where
  "error_to_string Ok = ''Ok''"
| "error_to_string WouldBlock = ''WouldBlock''"
| "error_to_string Incomplete = ''Incomplete''"
| "error_to_string InvalidArgument = ''InvalidArgument''"
| "error_to_string NotConnected = ''NotConnected''"
| "error_to_string AlreadyConnected = ''AlreadyConnected''"
| "error_to_string NotSupported = ''NotSupported''"
| "error_to_string BufferTooSmall = ''BufferTooSmall''"
| "error_to_string TxQueueFull = ''TxQueueFull''"
| "error_to_string NoInflightSlot = ''NoInflightSlot''"
| "error_to_string NoSubscriptionSlot = ''NoSubscriptionSlot''"
| "error_to_string NoPendingAckSlot = ''NoPendingAckSlot''"
| "error_to_string PayloadTooLarge = ''PayloadTooLarge''"
| "error_to_string TopicTooLong = ''TopicTooLong''"
| "error_to_string MalformedPacket = ''MalformedPacket''"
| "error_to_string ProtocolViolation = ''ProtocolViolation''"
| "error_to_string PacketTooLarge = ''PacketTooLarge''"
| "error_to_string ConnectionRefused = ''ConnectionRefused''"
| "error_to_string KeepAliveTimeout = ''KeepAliveTimeout''"
| "error_to_string ConnectTimeout = ''ConnectTimeout''"
| "error_to_string TransportFailure = ''TransportFailure''"
| "error_to_string TransportClosed = ''TransportClosed''"
| "error_to_string Reentrant = ''Reentrant''"

definition is_retryable :: "Error \<Rightarrow> bool" where
  "is_retryable e \<longleftrightarrow> e = WouldBlock \<or> e = Incomplete"

section \<open>Result\<close>

text \<open>
  \<open>Result<T>\<close> holds a value or an error; \<open>Inl e\<close> is the constructor from an \<open>Error\<close> and
  \<open>Inr v\<close> the constructor from a \<open>T\<close>. \<open>value()\<close> of a failed result is the default of \<open>T\<close>,
  which the accessors take as an argument.
\<close>

type_synonym 'a Result = "Error + 'a"

definition result_error :: "'a Result \<Rightarrow> Error" where
  "result_error r = (case r of Inl e \<Rightarrow> e | Inr _ \<Rightarrow> Ok)"

definition result_ok :: "'a Result \<Rightarrow> bool" where
  "result_ok r \<longleftrightarrow> result_error r = Ok"

definition result_value_or :: "'a Result \<Rightarrow> 'a \<Rightarrow> 'a" where
  "result_value_or r fallback = (case r of Inl _ \<Rightarrow> fallback | Inr v \<Rightarrow> v)"

text \<open>
  A function that works on an object passed by reference and returns an \<open>Error\<close> is a function
  to \<open>Error \<times> 'w\<close>. \<open>then_do\<close> is the sequence \<open>e = f(w); if (e != Error::Ok) return e; ...\<close>.
\<close>

definition then_do :: "Error \<times> 'w \<Rightarrow> ('w \<Rightarrow> Error \<times> 'w) \<Rightarrow> Error \<times> 'w" where
  "then_do m f = (case m of (e, w) \<Rightarrow> if e \<noteq> Ok then (e, w) else f w)"

text \<open>The same early return for a \<open>Result\<close>: \<open>if (!r.ok()) return r.error()\<close>.\<close>

definition result_then :: "'a Result \<Rightarrow> ('a \<Rightarrow> 'b Result) \<Rightarrow> 'b Result" where
  "result_then r f = (case r of Inl e \<Rightarrow> Inl e | Inr v \<Rightarrow> f v)"

text \<open>The macro \<open>MQTT_WRITE\<close>: a stream write that reports \<open>false\<close> becomes \<open>BufferTooSmall\<close>.\<close>

definition mqtt_write :: "bool \<times> 'w \<Rightarrow> Error \<times> 'w" where
  "mqtt_write r = (case r of (ok, w) \<Rightarrow> if \<not> ok then (BufferTooSmall, w) else (Ok, w))"

section \<open>Lemmas\<close>

lemma result_simps [simp]:
  "result_error (Inl e) = e" "result_error (Inr v) = Ok"
  "result_ok (Inr v)" "result_ok (Inl e) = (e = Ok)"
  "result_value_or (Inr v) d = v" "result_value_or (Inl e) d = d"
  by (simp_all add: result_error_def result_ok_def result_value_or_def)

lemma then_do_simps [simp]:
  "then_do (Ok, w) f = f w"
  "e \<noteq> Ok \<Longrightarrow> then_do (e, w) f = (e, w)"
  by (simp_all add: then_do_def)

lemma result_then_simps [simp]:
  "result_then (Inr v) f = f v" "result_then (Inl e) f = Inl e"
  by (simp_all add: result_then_def)

lemma mqtt_write_simps [simp]:
  "mqtt_write (True, w) = (Ok, w)" "mqtt_write (False, w) = (BufferTooSmall, w)"
  by (simp_all add: mqtt_write_def)

text \<open>All enumerators, for the finite checks on the value and name tables.\<close>

definition all_errors :: "Error list" where
  "all_errors = [Ok, WouldBlock, Incomplete, InvalidArgument, NotConnected, AlreadyConnected,
     NotSupported, BufferTooSmall, TxQueueFull, NoInflightSlot, NoSubscriptionSlot,
     NoPendingAckSlot, PayloadTooLarge, TopicTooLong, MalformedPacket, ProtocolViolation,
     PacketTooLarge, ConnectionRefused, KeepAliveTimeout, ConnectTimeout, TransportFailure,
     TransportClosed, Reentrant]"

lemma set_all_errors: "set all_errors = UNIV"
proof -
  have "e \<in> set all_errors" for e by (cases e) (simp_all add: all_errors_def)
  then show ?thesis by blast
qed

lemma inj_by_distinct: "distinct (map f all_errors) \<Longrightarrow> inj f"
  by (simp add: distinct_map set_all_errors)

text \<open>The public error numbering. The 23 codes have pairwise different numeric values,
  all below 23, and pairwise different names; a code is retryable exactly when it is one of
  the two flow-control codes 1 and 2.\<close>

lemma error_table:
  "inj error_value \<and> inj error_to_string \<and> error_value e < 23
   \<and> (is_retryable e \<longleftrightarrow> error_value e = 1 \<or> error_value e = 2)"
proof (intro conjI)
  show "inj error_value" by (rule inj_by_distinct) (simp add: all_errors_def)
  show "inj error_to_string" by (rule inj_by_distinct) code_simp
  show "error_value e < 23" by (cases e) simp_all
  show "is_retryable e \<longleftrightarrow> error_value e = 1 \<or> error_value e = 2"
    by (cases e) (simp_all add: is_retryable_def)
qed

end
