(* ===== verification/Packet.thy ===== *)
theory Packet
  imports Errors
begin

text \<open>
  \<^verbatim>\<open>include/mqtt/packet.hpp\<close> and \<^verbatim>\<open>src/packet.cpp\<close>: packet types, quality of service,
  the one-byte fixed header and the variable byte integer, with the value types of messages
  and connection options. The lemmas show that the header byte and the variable byte integer
  are each decoded back to what was encoded, that nothing but a minimal encoding is accepted,
  and how many bytes an encoding takes.
\<close>

section \<open>Packet vocabulary\<close>

datatype PacketType =
    Reserved | Connect | Connack | Publish | Puback | Pubrec | Pubrel | Pubcomp
  | Subscribe | Suback | Unsubscribe | Unsuback | Pingreq | Pingresp | Disconnect

fun ptype_value :: "PacketType \<Rightarrow> u8" where
  "ptype_value Reserved = 0"
| "ptype_value Connect = 1"
| "ptype_value Connack = 2"
| "ptype_value Publish = 3"
| "ptype_value Puback = 4"
| "ptype_value Pubrec = 5"
| "ptype_value Pubrel = 6"
| "ptype_value Pubcomp = 7"
| "ptype_value Subscribe = 8"
| "ptype_value Suback = 9"
| "ptype_value Unsubscribe = 10"
| "ptype_value Unsuback = 11"
| "ptype_value Pingreq = 12"
| "ptype_value Pingresp = 13"
| "ptype_value Disconnect = 14"

text \<open>\<open>static_cast<PacketType>(n)\<close>; the code only casts values it has found to be at most 14.\<close>

definition ptype_of :: "u8 \<Rightarrow> PacketType" where
  "ptype_of n =
     (if n = 1 then Connect else if n = 2 then Connack else if n = 3 then Publish
      else if n = 4 then Puback else if n = 5 then Pubrec else if n = 6 then Pubrel
      else if n = 7 then Pubcomp else if n = 8 then Subscribe else if n = 9 then Suback
      else if n = 10 then Unsubscribe else if n = 11 then Unsuback else if n = 12 then Pingreq
      else if n = 13 then Pingresp else if n = 14 then Disconnect else Reserved)"

fun ptype_to_string :: "PacketType \<Rightarrow> string" where
  "ptype_to_string Reserved = ''RESERVED''"
| "ptype_to_string Connect = ''CONNECT''"
| "ptype_to_string Connack = ''CONNACK''"
| "ptype_to_string Publish = ''PUBLISH''"
| "ptype_to_string Puback = ''PUBACK''"
| "ptype_to_string Pubrec = ''PUBREC''"
| "ptype_to_string Pubrel = ''PUBREL''"
| "ptype_to_string Pubcomp = ''PUBCOMP''"
| "ptype_to_string Subscribe = ''SUBSCRIBE''"
| "ptype_to_string Suback = ''SUBACK''"
| "ptype_to_string Unsubscribe = ''UNSUBSCRIBE''"
| "ptype_to_string Unsuback = ''UNSUBACK''"
| "ptype_to_string Pingreq = ''PINGREQ''"
| "ptype_to_string Pingresp = ''PINGRESP''"
| "ptype_to_string Disconnect = ''DISCONNECT''"

text \<open>
  \<open>QoS\<close> is an enum over \<open>uint8_t\<close> whose value may be any byte (a cast from a config file or
  from the wire); the encoder checks it. So it is the byte, with names for the three levels.
\<close>

type_synonym QoS = u8

abbreviation (input) AtMostOnce :: QoS where "AtMostOnce \<equiv> 0"
abbreviation (input) AtLeastOnce :: QoS where "AtLeastOnce \<equiv> 1"
abbreviation (input) ExactlyOnce :: QoS where "ExactlyOnce \<equiv> 2"

datatype ConnackCode =
    Accepted | UnacceptableProtocolVersion | IdentifierRejected | ServerUnavailable
  | BadUsernameOrPassword | NotAuthorized

fun connack_value :: "ConnackCode \<Rightarrow> u8" where
  "connack_value Accepted = 0"
| "connack_value UnacceptableProtocolVersion = 1"
| "connack_value IdentifierRejected = 2"
| "connack_value ServerUnavailable = 3"
| "connack_value BadUsernameOrPassword = 4"
| "connack_value NotAuthorized = 5"

definition connack_of :: "u8 \<Rightarrow> ConnackCode" where
  "connack_of n =
     (if n = 0 then Accepted else if n = 1 then UnacceptableProtocolVersion
      else if n = 2 then IdentifierRejected else if n = 3 then ServerUnavailable
      else if n = 4 then BadUsernameOrPassword else NotAuthorized)"

fun connack_to_string :: "ConnackCode \<Rightarrow> string" where
  "connack_to_string Accepted = ''Accepted''"
| "connack_to_string UnacceptableProtocolVersion = ''Unacceptable protocol version''"
| "connack_to_string IdentifierRejected = ''Identifier rejected''"
| "connack_to_string ServerUnavailable = ''Server unavailable''"
| "connack_to_string BadUsernameOrPassword = ''Bad user name or password''"
| "connack_to_string NotAuthorized = ''Not authorized''"

definition kSubackFailure :: u8 where "kSubackFailure = 0x80"
definition kProtocolLevel_3_1_1 :: u8 where "kProtocolLevel_3_1_1 = 4"
definition kMaxRemainingLength :: u32 where "kMaxRemainingLength = 268435455"
definition kMaxVbiBytes :: nat where "kMaxVbiBytes = 4"

section \<open>Fixed header\<close>

record FixedHeader =
  h_type :: PacketType
  h_dup :: bool
  h_qos :: QoS
  h_retain :: bool
  h_remaining_length :: u32

definition default_header :: FixedHeader where
  "default_header = \<lparr>h_type = Reserved, h_dup = False, h_qos = AtMostOnce, h_retain = False,
     h_remaining_length = 0\<rparr>"

definition to_byte :: "FixedHeader \<Rightarrow> u8" where
  "to_byte h =
     (let b = push_bit 4 (ptype_value (h_type h)) in
      if h_type h = Publish then
        let b = (if h_dup h then b OR 0x08 else b);
            b = b OR push_bit 1 (h_qos h AND 0x03)
        in if h_retain h then b OR 0x01 else b
      else if h_type h = Pubrel \<or> h_type h = Subscribe \<or> h_type h = Unsubscribe then b OR 0x02
      else b)"

definition from_byte :: "u8 \<Rightarrow> FixedHeader Result" where
  "from_byte b =
     (let type_nibble = drop_bit 4 b AND 0x0F; flags = b AND 0x0F in
      if type_nibble = 0 \<or> type_nibble > ptype_value Disconnect then Inl MalformedPacket
      else
        let h = default_header\<lparr>h_type := ptype_of type_nibble\<rparr> in
        if h_type h = Publish then
          let q = drop_bit 1 flags AND 0x03 in
          if q > 2 then Inl MalformedPacket
          else Inr (h\<lparr>h_dup := (flags AND 0x08 \<noteq> 0), h_qos := q,
                      h_retain := (flags AND 0x01 \<noteq> 0)\<rparr>)
        else
          let expected = (if h_type h = Pubrel \<or> h_type h = Subscribe \<or> h_type h = Unsubscribe
                          then 0x02 else 0x00)
          in if flags \<noteq> expected then Inl MalformedPacket else Inr h)"

section \<open>Variable byte integer\<close>

definition vbi_size :: "u32 \<Rightarrow> nat" where
  "vbi_size v =
     (if v > kMaxRemainingLength then 0
      else if v < 128 then 1
      else if v < 16384 then 2
      else if v < 2097152 then 3
      else 4)"

definition header_size :: "FixedHeader \<Rightarrow> nat" where
  "header_size h = (let n = vbi_size (h_remaining_length h) in if n = 0 then 0 else 1 + n)"

definition total_size :: "FixedHeader \<Rightarrow> nat" where
  "total_size h = header_size h + unat (h_remaining_length h)"

text \<open>The bytes the \<open>do ... while\<close> loop of \<open>vbi_encode\<close> stores, from the first on.\<close>

lemma vbi_loop_decreases: "v div 128 > (0::u32) \<Longrightarrow> unat (v div 128) < unat v"
proof -
  assume "v div 128 > 0"
  then have "unat v div 128 > 0" by (simp add: word_less_nat_alt unat_div_distrib)
  then show ?thesis by (simp add: unat_div_distrib)
qed

function vbi_encode_loop :: "u32 \<Rightarrow> bytes" where
  "vbi_encode_loop v =
     (let byte = ucast (v mod 128); v' = v div 128 in
      if v' > 0 then (byte OR 0x80) # vbi_encode_loop v' else [byte])"
  by pat_completeness auto
termination
  by (relation "measure unat") (auto simp: vbi_loop_decreases)

declare vbi_encode_loop.simps [simp del]

text \<open>
  \<open>vbi_encode\<close> writes into the span \<open>out\<close>: the result and the span's bytes afterwards.
\<close>

definition vbi_encode :: "bytes \<Rightarrow> u32 \<Rightarrow> nat Result \<times> bytes" where
  "vbi_encode out v =
     (if v > kMaxRemainingLength then (Inl InvalidArgument, out)
      else if length out < vbi_size v then (Inl BufferTooSmall, out)
      else let bs = vbi_encode_loop v in (Inr (length bs), write_at out 0 bs))"

record VbiDecode =
  vd_value :: u32
  vd_bytes :: nat

function vbi_decode_loop :: "bytes \<Rightarrow> nat \<Rightarrow> u32 \<Rightarrow> u32 \<Rightarrow> VbiDecode Result" where
  "vbi_decode_loop ins i val multiplier =
     (if i < kMaxVbiBytes then
        if i \<ge> length ins then Inl Incomplete
        else
          let byte = ins ! i; val' = val + ucast (byte AND 0x7F) * multiplier in
          if byte AND 0x80 = 0 then
            if i + 1 \<noteq> vbi_size val' then Inl MalformedPacket
            else Inr \<lparr>vd_value = val', vd_bytes = i + 1\<rparr>
          else vbi_decode_loop ins (i + 1) val' (multiplier * 128)
      else Inl MalformedPacket)"
  by pat_completeness auto
termination
  by (relation "measure (\<lambda>(ins, i, v, m). kMaxVbiBytes - i)") auto

declare vbi_decode_loop.simps [simp del]

definition vbi_decode :: "bytes \<Rightarrow> VbiDecode Result" where
  "vbi_decode ins = vbi_decode_loop ins 0 0 1"

section \<open>Messages and options\<close>

record Message =
  m_topic :: bytes
  m_payload :: bytes
  m_qos :: QoS
  m_retain :: bool
  m_dup :: bool
  m_packet_id :: u16

record Will =
  w_topic :: bytes
  w_payload :: bytes
  w_qos :: QoS
  w_retain :: bool

definition will_valid :: "Will \<Rightarrow> bool" where
  "will_valid w \<longleftrightarrow> w_topic w \<noteq> []"

record ConnectOptions =
  o_client_id :: bytes
  o_username :: bytes
  o_password :: bytes
  o_will :: Will
  o_keep_alive_s :: u16
  o_clean_session :: bool

definition default_will :: Will where
  "default_will = \<lparr>w_topic = [], w_payload = [], w_qos = AtMostOnce, w_retain = False\<rparr>"

definition default_options :: ConnectOptions where
  "default_options = \<lparr>o_client_id = [], o_username = [], o_password = [], o_will = default_will,
     o_keep_alive_s = 60, o_clean_session = True\<rparr>"

record ConnackInfo =
  k_code :: ConnackCode
  k_session_present :: bool

definition default_connack :: ConnackInfo where
  "default_connack = \<lparr>k_code = Accepted, k_session_present = False\<rparr>"

record TopicSubscription =
  t_filter :: bytes
  t_qos :: QoS

section \<open>Specification vocabulary\<close>

text \<open>The headers the protocol allows: flags only where the packet type has them.\<close>

definition header_ok :: "FixedHeader \<Rightarrow> bool" where
  "header_ok h \<longleftrightarrow> h_type h \<noteq> Reserved \<and> h_qos h \<le> 2
     \<and> (h_type h \<noteq> Publish \<longrightarrow> \<not> h_dup h \<and> h_qos h = AtMostOnce \<and> \<not> h_retain h)"

text \<open>
  The value a run of seven-bit groups stands for, and a run that ends where the continuation
  bit is first clear.
\<close>

fun vbi_value :: "bytes \<Rightarrow> nat" where
  "vbi_value [] = 0"
| "vbi_value (b # bs) = unat b mod 128 + 128 * vbi_value bs"

definition vbi_groups :: "bytes \<Rightarrow> nat \<Rightarrow> bool" where
  "vbi_groups ins n \<longleftrightarrow> 0 < n \<and> n \<le> length ins \<and> n \<le> kMaxVbiBytes
     \<and> (\<forall>b \<in> set (take (n - 1) ins). \<not> b < 128) \<and> ins ! (n - 1) < 128"

section \<open>Lemmas\<close>

lemmas cont_byte_facts = and_80 and_7F or_80

lemma unat_low7: "unat (ucast (v mod 128 :: u32) :: u8) = unat v mod 128"
  by (simp add: unsigned_ucast_eq unat_mod_distrib take_bit_eq_mod mod_mod_cancel)

lemma low7_byte:
  "ucast (ucast (v mod 128 :: u32) :: u8) = v mod 128"
  "(ucast (v mod 128 :: u32) :: u8) < 128"
proof -
  show "ucast (ucast (v mod 128 :: u32) :: u8) = v mod 128"
    by (rule word_unat_eq_iff [THEN iffD2])
      (simp add: unsigned_ucast_eq unat_mod_distrib take_bit_eq_mod mod_mod_cancel)
  show "(ucast (v mod 128 :: u32) :: u8) < 128"
    by (simp add: word_less_nat_alt unat_low7)
qed

lemma word_mod_div_128: "(v mod 128) * m + (v div 128) * (m * 128) = v * (m :: u32)"
proof -
  have "(v mod 128) * m + (v div 128) * (m * 128) = (v div 128 * 128 + v mod 128) * m"
    by (simp add: algebra_simps)
  also have "v div 128 * 128 + v mod 128 = v" by (rule div_mult_mod_eq)
  finally show ?thesis .
qed

lemma nth_after_prefix: "(pre @ x # xs) ! length pre = x" by simp

lemma vbi_decode_loop_encode:
  "length pre + length (vbi_encode_loop v) \<le> kMaxVbiBytes \<Longrightarrow>
   vbi_decode_loop (pre @ vbi_encode_loop v @ rest) (length pre) acc m =
     (let w = acc + v * m; n = length pre + length (vbi_encode_loop v) in
      if n \<noteq> vbi_size w then Inl MalformedPacket else Inr \<lparr>vd_value = w, vd_bytes = n\<rparr>)"
proof (induction v arbitrary: pre acc m rule: vbi_encode_loop.induct)
  case (1 v)
  let ?b = "ucast (v mod 128) :: u8"
  show ?case
  proof (cases "v div 128 > 0")
    case True
    let ?c = "?b OR 0x80"
    have enc: "vbi_encode_loop v = ?c # vbi_encode_loop (v div 128)"
      using True by (subst vbi_encode_loop.simps) (simp add: Let_def)
    have low: "ucast (?c AND 0x7F) = v mod 128"
      by (simp add: cont_byte_facts low7_byte)
    have IH: "vbi_decode_loop ((pre @ [?c]) @ vbi_encode_loop (v div 128) @ rest)
        (length (pre @ [?c])) (acc + (v mod 128) * m) (m * 128) =
     (let w = acc + (v mod 128) * m + (v div 128) * (m * 128);
          n = length (pre @ [?c]) + length (vbi_encode_loop (v div 128)) in
      if n \<noteq> vbi_size w then Inl MalformedPacket else Inr \<lparr>vd_value = w, vd_bytes = n\<rparr>)"
      using True "1.prems" enc by (intro "1.IH") auto
    have "acc + (v mod 128) * m + (v div 128) * (m * 128) = acc + v * m"
      by (simp only: add.assoc word_mod_div_128)
    with IH True "1.prems" show ?thesis
      by (subst vbi_decode_loop.simps) (simp add: enc Let_def low or_80(2))
  next
    case False
    have enc: "vbi_encode_loop v = [?b]"
      using False by (subst vbi_encode_loop.simps) (simp add: Let_def)
    have "v mod 128 = v" using False
      by (metis div_mult_mod_eq add_0 mult_zero_left word_gt_0)
    then have "ucast (?b AND 0x7F) = v" "?b AND 0x80 = 0"
      using low7_byte [of v] by (auto simp: cont_byte_facts)
    with "1.prems" show ?thesis
      by (subst vbi_decode_loop.simps) (simp add: enc Let_def)
  qed
qed

lemma vbi_encode_loop_small: "v < 128 \<Longrightarrow> vbi_encode_loop v = [ucast v]"
  by (subst vbi_encode_loop.simps)
    (simp add: Let_def word_less_nat_alt unat_div_distrib word_unat_eq_iff unat_mod_distrib
      unsigned_ucast_eq)

lemma vbi_encode_loop_byte: "l < (128::u8) \<Longrightarrow> vbi_encode_loop (ucast l) = [l]"
proof -
  assume l: "l < 128"
  have "ucast (ucast l :: u32) = l"
    by (rule bit_word_eqI) (auto simp: bit_simps dest: bit_imp_le_length)
  then show ?thesis using l by (simp add: vbi_encode_loop_small word_less_nat_alt)
qed

lemma vbi_encode_loop_large:
  "\<not> v < 128 \<Longrightarrow> vbi_encode_loop v = (ucast (v mod 128) OR 0x80) # vbi_encode_loop (v div 128)"
  by (subst vbi_encode_loop.simps)
    (auto simp: Let_def word_less_nat_alt unat_div_distrib word_unat_eq_iff)

lemma length_vbi_encode_loop:
  assumes "v \<le> kMaxRemainingLength"
  shows "length (vbi_encode_loop v) = vbi_size v"
proof -
  have n: "unat v < 268435456" using assms
    by (simp add: kMaxRemainingLength_def word_le_nat_alt)
  have len: "length (vbi_encode_loop w) = (if unat w < 128 then 1 else Suc (length (vbi_encode_loop (w div 128))))" for w
    by (simp add: vbi_encode_loop_small vbi_encode_loop_large word_less_nat_alt)
  have d: "unat (w div 128) = unat w div 128" for w :: u32 by (simp add: unat_div_distrib)
  show ?thesis
    using n assms
    by (simp add: vbi_size_def word_less_nat_alt word_le_nat_alt len [of v] len [of "v div 128"]
        len [of "v div 128 div 128"] len [of "v div 128 div 128 div 128"] d div_mult2_eq [symmetric]
        div_less_iff_less_mult)
qed


lemma vbi_value_bound: "vbi_value bs < 128 ^ length bs"
proof (induction bs)
  case (Cons b bs)
  have "unat b mod 128 \<le> 127" by simp
  with Cons show ?case by simp
qed simp

lemma vbi_encode_loop_cons:
  assumes "\<not> b < (128::u8)" and "0 < w" and "unat w < 2 ^ 21"
  shows "vbi_encode_loop (ucast (b AND 0x7F) + 128 * w) = b # vbi_encode_loop w"
proof -
  let ?v = "ucast (b AND 0x7F) + 128 * w :: u32"
  have u: "unat ?v = unat b mod 128 + 128 * unat w"
  proof -
    have "?v = word_of_nat (unat b mod 128 + 128 * unat w)"
      by (simp flip: unat_and_7F)
    then have "unat ?v = (unat b mod 128 + 128 * unat w) mod 2 ^ LENGTH(32)"
      by (simp only: unat_of_nat)
    moreover have "unat b mod 128 < 128" by simp
    ultimately show ?thesis using assms(3) by simp
  qed
  have pos: "0 < unat w" using assms(2) by (simp add: word_less_nat_alt)
  have d: "?v div 128 = w" "\<not> ?v < 128"
    using pos by (auto simp: word_unat_eq_iff unat_div_distrib word_less_nat_alt u)
  have "ucast (?v mod 128) = b AND 0x7F"
    by (rule word_unat_eq_iff [THEN iffD2]) (simp add: unat_low7 u unat_and_7F)
  then show ?thesis
    using assms(1) by (simp add: vbi_encode_loop_large d cont_byte_facts)
qed


lemma vbi_value_snoc: "vbi_value (bs @ [b]) = vbi_value bs + (unat b mod 128) * 128 ^ length bs"
  by (induction bs) (simp_all add: algebra_simps)

lemma vbi_decode_loop_sound:
  "vbi_decode_loop ins i acc m = Inr d \<Longrightarrow> i \<le> length ins \<Longrightarrow> (\<forall>b \<in> set (take i ins). \<not> b < 128) \<Longrightarrow>
   acc = word_of_nat (vbi_value (take i ins)) \<Longrightarrow> m = 128 ^ i \<Longrightarrow>
   vbi_groups ins (vd_bytes d) \<and> vd_value d = word_of_nat (vbi_value (take (vd_bytes d) ins))
     \<and> vbi_size (vd_value d) = vd_bytes d"
proof (induction ins i acc m rule: vbi_decode_loop.induct)
  case (1 ins i acc m)
  let ?b = "ins ! i"
  let ?acc = "acc + ucast (?b AND 0x7F) * m"
  from "1.prems"(1) have i: "i < kMaxVbiBytes" "i < length ins"
    by (subst (asm) vbi_decode_loop.simps, simp split: if_splits)+
  have snoc: "take (i + 1) ins = take i ins @ [?b]"
    using i by (simp add: take_Suc_conv_app_nth)
  have acc': "?acc = word_of_nat (vbi_value (take (i + 1) ins))"
    unfolding snoc vbi_value_snoc using "1.prems"(4,5) i by (simp flip: unat_and_7F)
  show ?case
  proof (cases "?b < 128")
    case True
    with "1.prems"(1) i have "d = \<lparr>vd_value = ?acc, vd_bytes = i + 1\<rparr>" "vbi_size ?acc = i + 1"
      by (subst (asm) vbi_decode_loop.simps, simp add: Let_def cont_byte_facts split: if_splits)+
    with i True "1.prems"(3) acc' show ?thesis by (simp add: vbi_groups_def)
  next
    case False
    with "1.prems"(1) i have "vbi_decode_loop ins (i + 1) ?acc (m * 128) = Inr d"
      by (subst (asm) vbi_decode_loop.simps, simp add: Let_def cont_byte_facts)
    then show ?thesis
      using i False "1.prems"(3,5) acc' snoc
      by (intro "1.IH" [OF _ _ refl refl]) (auto simp: cont_byte_facts)
  qed
qed

lemma vbi_encode_loop_groups:
  "\<forall>b \<in> set cs. \<not> b < 128 \<Longrightarrow> l < 128 \<Longrightarrow> l \<noteq> 0 \<Longrightarrow> length cs \<le> 3 \<Longrightarrow>
   vbi_encode_loop (word_of_nat (vbi_value (cs @ [l]))) = cs @ [l]"
proof (induction cs)
  case Nil
  then have "unat l < 128" by (simp add: word_less_nat_alt)
  with Nil show ?case by (simp add: vbi_encode_loop_byte)
next
  case (Cons c cs)
  let ?n = "vbi_value (cs @ [l])"
  have "?n < 128 ^ length (cs @ [l])" by (rule vbi_value_bound)
  also have "\<dots> \<le> 128 ^ 3" using Cons.prems(4) by (intro power_increasing) auto
  finally have b: "?n < 2 ^ 21" by simp
  then have u: "unat (word_of_nat ?n :: u32) = ?n" by (simp add: unat_of_nat)
  have l: "0 < unat l mod 128"
    using Cons.prems(2,3) by (simp add: word_less_nat_alt word_unat_eq_iff)
  have pos: "0 < ?n"
    unfolding vbi_value_snoc using l by (metis add_gr_0 nat_0_less_mult_iff zero_less_numeral zero_less_power)
  have "word_of_nat (vbi_value ((c # cs) @ [l])) = ucast (c AND 0x7F) + 128 * (word_of_nat ?n :: u32)"
    by (simp flip: unat_and_7F)
  then show ?case
    using Cons b u pos by (simp add: vbi_encode_loop_cons word_less_nat_alt)
qed

lemma vbi_size_le: "unat v < 128 ^ k \<Longrightarrow> 0 < k \<Longrightarrow> k \<le> 3 \<Longrightarrow> vbi_size v \<le> k"
proof -
  assume a: "unat v < 128 ^ k" "0 < k" "k \<le> 3"
  then have "k = 1 \<or> k = 2 \<or> k = 3" by auto
  with a show ?thesis by (auto simp: vbi_size_def word_less_nat_alt)
qed

lemma vbi_decode_sound:
  assumes "vbi_decode ins = Inr d"
  shows "vd_bytes d \<le> length ins \<and> take (vd_bytes d) ins = vbi_encode_loop (vd_value d)
    \<and> vbi_size (vd_value d) = vd_bytes d \<and> vd_value d \<le> kMaxRemainingLength"
proof -
  have s: "vbi_groups ins (vd_bytes d)" "vd_value d = word_of_nat (vbi_value (take (vd_bytes d) ins))"
    "vbi_size (vd_value d) = vd_bytes d"
    using vbi_decode_loop_sound [OF assms [unfolded vbi_decode_def]] by auto
  define cs l where "cs = take (vd_bytes d - 1) ins" and "l = ins ! (vd_bytes d - 1)"
  have tk: "take (vd_bytes d) ins = cs @ [l]"
    using s(1) unfolding cs_def l_def vbi_groups_def
    by (cases "vd_bytes d") (simp_all add: take_Suc_conv_app_nth)
  have g: "\<forall>b \<in> set cs. \<not> b < 128" "l < 128" "length cs \<le> 3" "vd_bytes d = Suc (length cs)"
    using s(1) by (auto simp: cs_def l_def vbi_groups_def kMaxVbiBytes_def)
  have "take (vd_bytes d) ins = vbi_encode_loop (vd_value d)"
  proof (cases "cs = []")
    case True
    moreover have "unat l < 128" using g(2) by (simp add: word_less_nat_alt)
    ultimately show ?thesis using s(2) tk g(2) by (simp add: vbi_encode_loop_byte)
  next
    case False
    have "l \<noteq> 0"
    proof
      assume "l = 0"
      have b: "vbi_value cs < 128 ^ length cs" by (rule vbi_value_bound)
      moreover have "(128::nat) ^ length cs \<le> 128 ^ 3" using g(3) by (intro power_increasing) auto
      ultimately have "vbi_value cs < 128 ^ 3" by linarith
      then have "unat (vd_value d) < 128 ^ length cs"
        using b s(2) tk \<open>l = 0\<close> by (simp add: vbi_value_snoc unat_of_nat)
      then have "vbi_size (vd_value d) \<le> length cs" using False g(3) by (intro vbi_size_le) auto
      with s(3) g(4) show False by simp
    qed
    with g s(2) tk show ?thesis by (simp add: vbi_encode_loop_groups)
  qed
  moreover have "vd_value d \<le> kMaxRemainingLength"
    using s(3) g(4) by (auto simp: vbi_size_def split: if_splits)
  ultimately show ?thesis using s by (auto simp: vbi_groups_def)
qed

lemma vbi_decode_loop_incomplete:
  "i \<le> kMaxVbiBytes \<Longrightarrow> i \<le> length ins \<Longrightarrow>
   vbi_decode_loop ins i acc m = Inl Incomplete \<longleftrightarrow>
     length ins < kMaxVbiBytes \<and> (\<forall>b \<in> set (drop i ins). \<not> b < 128)"
proof (induction ins i acc m rule: vbi_decode_loop.induct)
  case (1 ins i acc m)
  show ?case
  proof (cases "i < kMaxVbiBytes \<and> i < length ins")
    case True
    then have dr: "drop i ins = ins ! i # drop (i + 1) ins" by (simp add: Cons_nth_drop_Suc)
    show ?thesis
    proof (cases "ins ! i < 128")
      case small: True
      with True dr show ?thesis
        by (subst vbi_decode_loop.simps) (simp add: Let_def cont_byte_facts)
    next
      case False
      with True have "vbi_decode_loop ins i acc m
          = vbi_decode_loop ins (i + 1) (acc + ucast (ins ! i AND 0x7F) * m) (m * 128)"
        by (subst vbi_decode_loop.simps) (simp add: Let_def cont_byte_facts)
      with "1.IH" [OF _ _ refl refl] True False dr show ?thesis
        by (simp add: cont_byte_facts)
    qed
  next
    case False
    with "1.prems" show ?thesis by (subst vbi_decode_loop.simps) auto
  qed
qed

lemma ptype_value_of:
  assumes "n \<noteq> 0" "n \<le> 14"
  shows "ptype_value (ptype_of n) = n \<and> ptype_of n \<noteq> Reserved"
proof -
  have "unat n < 15" using assms by (simp add: word_le_nat_alt)
  moreover have "list_all (\<lambda>k. (word_of_nat k :: u8) \<noteq> 0 \<longrightarrow>
      ptype_value (ptype_of (word_of_nat k)) = word_of_nat k \<and> ptype_of (word_of_nat k) \<noteq> Reserved) [0..<15]"
    by (simp add: upt_rec ptype_of_def)
  ultimately show ?thesis using assms(1) u8_below_list
      [of "\<lambda>n. n \<noteq> 0 \<longrightarrow> ptype_value (ptype_of n) = n \<and> ptype_of n \<noteq> Reserved" 15 n] by blast
qed

lemma flag_bits:
  "unat f < 16 \<Longrightarrow> f = (if f AND 0x08 \<noteq> 0 then 0x08 else 0)
           OR push_bit 1 ((drop_bit 1 f AND 0x03) AND 0x03)
           OR (if f AND 0x01 \<noteq> 0 then 0x01 else (0::u8))"
  by (rule u8_below_list [where m = 16]) code_simp

lemma from_byte_Inr:
  assumes "from_byte b = Inr h"
  shows "to_byte h = b \<and> header_ok h \<and> h_remaining_length h = 0"
proof -
  define n f where "n = drop_bit 4 b AND 0x0F" and "f = b AND 0x0F"
  from assms have n: "n \<noteq> 0" "n \<le> 14"
    by (auto simp: from_byte_def Let_def n_def split: if_splits)
  note v = ptype_value_of [OF n]
  have b: "push_bit 4 n OR f = b" unfolding n_def f_def by (rule nibbles)
  show ?thesis
  proof (cases "ptype_of n = Publish")
    case True
    with v have n3: "n = 3" by (metis ptype_value.simps(4))
    from assms True n have h: "h = default_header\<lparr>h_type := Publish, h_dup := (f AND 0x08 \<noteq> 0),
        h_qos := drop_bit 1 f AND 0x03, h_retain := (f AND 0x01 \<noteq> 0)\<rparr>"
      "drop_bit 1 f AND 0x03 \<le> 2"
      by (auto simp: from_byte_def Let_def n_def [symmetric] f_def [symmetric] default_header_def split: if_splits)
    have "to_byte h = push_bit 4 n OR ((if f AND 0x08 \<noteq> 0 then 0x08 else 0)
           OR push_bit 1 ((drop_bit 1 f AND 0x03) AND 0x03) OR (if f AND 0x01 \<noteq> 0 then 0x01 else 0))"
      by (simp add: h(1) n3 to_byte_def Let_def default_header_def ac_simps del: push_bit_numeral)
    also have "\<dots> = push_bit 4 n OR f"
      by (rule arg_cong [where f = "\<lambda>x. push_bit 4 n OR x"], rule flag_bits [symmetric])
        (simp add: f_def unat_and_0F)
    also note b
    finally show ?thesis using h by (simp add: header_ok_def default_header_def)
  next
    case False
    from assms False n have h: "h = default_header\<lparr>h_type := ptype_of n\<rparr>"
      "f = (if ptype_of n = Pubrel \<or> ptype_of n = Subscribe \<or> ptype_of n = Unsubscribe then 0x02 else 0x00)"
      by (auto simp: from_byte_def Let_def n_def [symmetric] f_def [symmetric] default_header_def split: if_splits)
    with b False v show ?thesis
      by (auto simp: to_byte_def header_ok_def default_header_def split: if_splits)
  qed
qed

lemma from_byte_Inl: "from_byte b = Inl e \<Longrightarrow> e = MalformedPacket"
  by (auto simp: from_byte_def Let_def split: if_splits)

lemma from_byte_to_byte:
  assumes "header_ok h"
  shows "from_byte (to_byte h) = Inr (h\<lparr>h_remaining_length := 0\<rparr>)"
proof -
  obtain t d q r n where h: "h = \<lparr>h_type = t, h_dup = d, h_qos = q, h_retain = r, h_remaining_length = n\<rparr>"
    by (cases h)
  have q: "q = 0 \<or> q = 1 \<or> q = 2"
  proof -
    have "unat q \<le> 2" using assms by (simp add: h header_ok_def word_le_nat_alt)
    then have "unat q = 0 \<or> unat q = 1 \<or> unat q = 2" by arith
    then show ?thesis by (auto simp: word_unat_eq_iff)
  qed
  show ?thesis
  proof (cases "t = Publish")
    case True
    with q show ?thesis
      by (cases d; cases r) (auto simp: h to_byte_def from_byte_def default_header_def ptype_of_def)
  next
    case False
    with assms have "\<not> d" "q = 0" "\<not> r" "t \<noteq> Reserved" by (auto simp: h header_ok_def)
    with False show ?thesis
      by (cases t) (auto simp: h to_byte_def from_byte_def default_header_def ptype_of_def)
  qed
qed


lemma vbi_decode_encode_loop:
  assumes "v \<le> kMaxRemainingLength"
  shows "vbi_decode (vbi_encode_loop v @ rest) = Inr \<lparr>vd_value = v, vd_bytes = vbi_size v\<rparr>"
proof -
  have "length (vbi_encode_loop v) = vbi_size v" using assms by (rule length_vbi_encode_loop)
  moreover have "vbi_size v \<le> kMaxVbiBytes" by (simp add: vbi_size_def kMaxVbiBytes_def)
  ultimately show ?thesis
    using vbi_decode_loop_encode [of "[]" v rest 0 1] by (simp add: vbi_decode_def Let_def)
qed

section \<open>Properties\<close>

text \<open>C38: Variable byte integer round trip. For every value up to the MQTT maximum and every
  target span with room for it, \<open>vbi_encode\<close> succeeds, stores exactly \<open>vbi_size\<close> bytes at the
  front of the span, and \<open>vbi_decode\<close> of those bytes, whatever follows them on the stream,
  returns the value and that number of bytes.\<close>

theorem vbi_roundtrip:
  assumes "v \<le> kMaxRemainingLength" and "vbi_size v \<le> length out"
  shows "\<exists>bs. vbi_encode out v = (Inr (vbi_size v), bs @ drop (vbi_size v) out)
    \<and> length bs = vbi_size v
    \<and> vbi_decode (bs @ rest) = Inr \<lparr>vd_value = v, vd_bytes = vbi_size v\<rparr>"
  using assms
  by (intro exI [where x = "vbi_encode_loop v"])
    (simp add: vbi_encode_def length_vbi_encode_loop vbi_decode_encode_loop write_at_def Let_def)

theorem vbi_roundtrip_witness:
  "vbi_encode [0, 0, 0] 321 = (Inr 2, [0xC1, 0x02, 0])
   \<and> vbi_decode [0xC1, 0x02, 9] = Inr \<lparr>vd_value = 321, vd_bytes = 2\<rparr>"
proof -
  have h: "(321::u32) \<le> kMaxRemainingLength" "vbi_size 321 \<le> length [0, 0, 0 :: u8]"
    by (simp_all add: kMaxRemainingLength_def vbi_size_def)
  have e: "vbi_encode [0, 0, 0] 321 = (Inr 2, [0xC1, 0x02, 0])" by code_simp
  have "vbi_size 321 = 2" by code_simp
  with vbi_roundtrip [OF h, of "[9]"] e show ?thesis
    by (auto simp: length_Suc_conv numeral_2_eq_2)
qed

text \<open>Only the shortest spelling of a remaining length is accepted. When \<open>vbi_decode\<close>
  returns a value, the bytes it consumed are exactly the bytes \<open>vbi_encode\<close> produces for that
  value, so two different byte strings never decode to the same length.\<close>

theorem vbi_decode_canonical:
  assumes "vbi_decode ins = Inr d"
  shows "vd_bytes d \<le> length ins
    \<and> vd_value d \<le> kMaxRemainingLength
    \<and> vbi_encode (take (vd_bytes d) ins) (vd_value d) = (Inr (vd_bytes d), take (vd_bytes d) ins)"
  using vbi_decode_sound [OF assms]
  by (auto simp: vbi_encode_def write_at_def Let_def length_vbi_encode_loop)

theorem vbi_decode_canonical_witness:
  "vbi_decode [0x80, 0x01, 7] = Inr \<lparr>vd_value = 128, vd_bytes = 2\<rparr>
   \<and> vbi_encode [0x80, 0x01] 128 = (Inr 2, [0x80, 0x01])
   \<and> vbi_decode [0x80, 0x00] = Inl MalformedPacket"
proof -
  have d: "vbi_decode [0x80, 0x01, 7] = Inr \<lparr>vd_value = 128, vd_bytes = 2\<rparr>" by code_simp
  have "vbi_decode [0x80, 0x00] = Inl MalformedPacket" by code_simp
  with vbi_decode_canonical [OF d] d show ?thesis by simp
qed

text \<open>\<open>vbi_decode\<close> asks for more input exactly when the input is a strict prefix of some
  encoding as far as its length goes: fewer than four bytes, all with the continuation bit.
  Every other input is decoded or refused at once, so a peer cannot stall the parser.\<close>

lemma vbi_decode_incomplete_iff:
  "vbi_decode ins = Inl Incomplete
   \<longleftrightarrow> length ins < kMaxVbiBytes \<and> list_all (\<lambda>b. b AND 0x80 \<noteq> 0) ins"
  using vbi_decode_loop_incomplete [of 0 ins 0 1]
  by (auto simp: vbi_decode_def list_all_iff cont_byte_facts)

text \<open>The fixed header byte. Every header the protocol allows is recovered from its byte
  (the remaining length is carried separately), and every byte that \<open>from_byte\<close> accepts is
  the byte of the header it returns; every other byte is \<open>MalformedPacket\<close>.\<close>

theorem fixed_header_byte:
  "(header_ok h \<longrightarrow> from_byte (to_byte h) = Inr (h\<lparr>h_remaining_length := 0\<rparr>))
   \<and> (case from_byte b of
        Inl e \<Rightarrow> e = MalformedPacket
      | Inr g \<Rightarrow> to_byte g = b \<and> header_ok g)"
proof (rule conjI)
  show "header_ok h \<longrightarrow> from_byte (to_byte h) = Inr (h\<lparr>h_remaining_length := 0\<rparr>)"
    by (simp add: from_byte_to_byte)
  show "case from_byte b of Inl e \<Rightarrow> e = MalformedPacket | Inr g \<Rightarrow> to_byte g = b \<and> header_ok g"
    using from_byte_Inr from_byte_Inl by (auto split: sum.splits)
qed

theorem fixed_header_byte_witness:
  "header_ok (default_header\<lparr>h_type := Publish, h_qos := 2, h_dup := True\<rparr>)
   \<and> from_byte 0x3C = Inr (default_header\<lparr>h_type := Publish, h_qos := 2, h_dup := True\<rparr>)"
proof -
  let ?h = "default_header\<lparr>h_type := Publish, h_qos := 2, h_dup := True\<rparr>"
  have h: "header_ok ?h" by (simp add: header_ok_def default_header_def)
  have "to_byte ?h = 0x3C" by (simp add: to_byte_def default_header_def)
  with h fixed_header_byte [of ?h 0] show ?thesis by (simp add: default_header_def)
qed

end
