(* ===== verification/Streams.thy ===== *)
theory Streams
  imports Packet
begin

text \<open>
  The byte streams of the Embedded Template Library that the codec is written against
  (\<open>etl::byte_stream_writer\<close> and \<open>etl::byte_stream_reader\<close>). The library is not part of this
  repository, so its operations are a parameter of the codec: a record of functions on a
  writer type \<open>'w\<close> and a reader type \<open>'r\<close>. The locale \<open>byte_streams\<close> states the documented
  behaviour the codec relies on, and is interpreted on a list implementation.

  The second half is the client side of that interface: \<open>emits\<close> describes a writing function by
  the bytes it appends, and composes along \<open>then_do\<close>.
\<close>

section \<open>The operations\<close>

datatype endian = little_endian | big_endian

text \<open>
  \<open>wr_span\<close> is the caller's memory the writer was constructed on; \<open>wr_size\<close> is \<open>size_bytes()\<close>.
  \<open>rd_free\<close> is \<open>free_data()\<close>, the bytes not yet read; \<open>rd_available\<close> is \<open>available_bytes()\<close>.
\<close>

record ('w, 'r) etl_ops =
  wr_open :: "bytes \<Rightarrow> endian \<Rightarrow> 'w"
  wr_u8 :: "'w \<Rightarrow> u8 \<Rightarrow> bool \<times> 'w"
  wr_u16 :: "'w \<Rightarrow> u16 \<Rightarrow> bool \<times> 'w"
  wr_bytes :: "'w \<Rightarrow> bytes \<Rightarrow> bool \<times> 'w"
  wr_size :: "'w \<Rightarrow> nat"
  wr_span :: "'w \<Rightarrow> bytes"
  wr_endian :: "'w \<Rightarrow> endian"
  rd_open :: "bytes \<Rightarrow> endian \<Rightarrow> 'r"
  rd_u16 :: "'r \<Rightarrow> u16 option \<times> 'r"
  rd_chars :: "'r \<Rightarrow> nat \<Rightarrow> bytes option \<times> 'r"
  rd_available :: "'r \<Rightarrow> nat"
  rd_free :: "'r \<Rightarrow> bytes"
  rd_endian :: "'r \<Rightarrow> endian"

definition in_order :: "endian \<Rightarrow> u16 \<Rightarrow> bytes" where
  "in_order en v = (case en of big_endian \<Rightarrow> be16 v | little_endian \<Rightarrow> rev (be16 v))"

text \<open>What a write of \<open>xs\<close> does to a writer: all of it, or nothing when there is no room.\<close>

definition write_law :: "('w, 'r) etl_ops \<Rightarrow> 'w \<Rightarrow> bool \<times> 'w \<Rightarrow> bytes \<Rightarrow> bool" where
  "write_law etl w r xs \<longleftrightarrow>
     (if wr_size etl w + length xs \<le> length (wr_span etl w)
      then fst r \<and> wr_size etl (snd r) = wr_size etl w + length xs
           \<and> wr_span etl (snd r) = write_at (wr_span etl w) (wr_size etl w) xs
           \<and> wr_endian etl (snd r) = wr_endian etl w
      else r = (False, w))"

locale byte_streams =
  fixes etl :: "('w, 'r) etl_ops"
  assumes wr_open: "wr_size etl (wr_open etl out en) = 0"
      "wr_span etl (wr_open etl out en) = out" "wr_endian etl (wr_open etl out en) = en"
    and wr_u8: "write_law etl w (wr_u8 etl w b) [b]"
    and wr_u16: "write_law etl w (wr_u16 etl w v) (in_order (wr_endian etl w) v)"
    and wr_bytes: "write_law etl w (wr_bytes etl w xs) xs"
    and rd_open: "rd_free etl (rd_open etl body en) = body" "rd_endian etl (rd_open etl body en) = en"
    and rd_u16_short: "length (rd_free etl r) < 2 \<Longrightarrow> rd_u16 etl r = (None, r)"
    and rd_u16: "rd_free etl r = in_order (rd_endian etl r) v @ rest \<Longrightarrow>
      \<exists>r'. rd_u16 etl r = (Some v, r') \<and> rd_free etl r' = rest \<and> rd_endian etl r' = rd_endian etl r"
    and rd_chars_short: "length (rd_free etl r) < n \<Longrightarrow> rd_chars etl r n = (None, r)"
    and rd_chars: "n \<le> length (rd_free etl r) \<Longrightarrow>
      \<exists>r'. rd_chars etl r n = (Some (take n (rd_free etl r)), r')
         \<and> rd_free etl r' = drop n (rd_free etl r) \<and> rd_endian etl r' = rd_endian etl r"
    and rd_available: "rd_available etl r = length (rd_free etl r)"

section \<open>Writing functions\<close>

text \<open>The writer has appended \<open>bs\<close> to the front of \<open>out\<close>, in network order.\<close>

definition written :: "('w, 'r) etl_ops \<Rightarrow> bytes \<Rightarrow> bytes \<Rightarrow> 'w \<Rightarrow> bool" where
  "written etl out bs w \<longleftrightarrow> length bs \<le> length out \<and> wr_endian etl w = big_endian
     \<and> wr_size etl w = length bs \<and> wr_span etl w = bs @ drop (length bs) out"

text \<open>A writing function appends \<open>bs\<close> when they fit and reports \<open>BufferTooSmall\<close> otherwise.\<close>

definition emits :: "('w, 'r) etl_ops \<Rightarrow> ('w \<Rightarrow> Error \<times> 'w) \<Rightarrow> bytes \<Rightarrow> bool" where
  "emits etl f bs \<longleftrightarrow> (\<forall>out pre w. written etl out pre w \<longrightarrow>
     (\<exists>w'. if length pre + length bs \<le> length out
           then f w = (Ok, w') \<and> written etl out (pre @ bs) w'
           else f w = (BufferTooSmall, w') \<and> (\<exists>pre'. written etl out pre' w')))"

text \<open>The last line of every encoder: the size, or the error, and the caller's memory.\<close>

definition finish :: "('w, 'r) etl_ops \<Rightarrow> Error \<times> 'w \<Rightarrow> nat Result \<times> bytes" where
  "finish etl r = (case r of (e, w) \<Rightarrow>
     (if e \<noteq> Ok then Inl e else Inr (wr_size etl w), wr_span etl w))"

lemma emitsI:
  assumes "\<And>out pre w. written etl out pre w \<Longrightarrow> length pre + length bs \<le> length out \<Longrightarrow>
      \<exists>w'. f w = (Ok, w') \<and> written etl out (pre @ bs) w'"
    and "\<And>out pre w. written etl out pre w \<Longrightarrow> \<not> length pre + length bs \<le> length out \<Longrightarrow>
      \<exists>w' pre'. f w = (BufferTooSmall, w') \<and> written etl out pre' w'"
  shows "emits etl f bs"
  unfolding emits_def using assms by (metis (full_types))

lemma emits_room:
  "emits etl f bs \<Longrightarrow> written etl out pre w \<Longrightarrow> length pre + length bs \<le> length out \<Longrightarrow>
     \<exists>w'. f w = (Ok, w') \<and> written etl out (pre @ bs) w'"
  unfolding emits_def by (metis (full_types))

lemma emits_full:
  "emits etl f bs \<Longrightarrow> written etl out pre w \<Longrightarrow> \<not> length pre + length bs \<le> length out \<Longrightarrow>
     \<exists>w' pre'. f w = (BufferTooSmall, w') \<and> written etl out pre' w'"
  unfolding emits_def by (metis (full_types))

lemma emits_skip: "emits etl (Pair Ok) []"
  by (rule emitsI) (auto simp: written_def)

lemma emits_seq:
  assumes f: "emits etl f xs" and g: "emits etl g ys"
  shows "emits etl (\<lambda>w. then_do (f w) g) (xs @ ys)"
proof (rule emitsI)
  fix out pre w
  assume w: "written etl out pre w" and "length pre + length (xs @ ys) \<le> length out"
  then have l: "length pre + length xs \<le> length out" "length (pre @ xs) + length ys \<le> length out"
    by simp_all
  from emits_room [OF f w l(1)] obtain w' where "f w = (Ok, w')" "written etl out (pre @ xs) w'"
    by blast
  with emits_room [OF g this(2) l(2)]
  show "\<exists>w'. then_do (f w) g = (Ok, w') \<and> written etl out (pre @ xs @ ys) w'" by auto
next
  fix out pre w
  assume w: "written etl out pre w" and no: "\<not> length pre + length (xs @ ys) \<le> length out"
  show "\<exists>w' pre'. then_do (f w) g = (BufferTooSmall, w') \<and> written etl out pre' w'"
  proof (cases "length pre + length xs \<le> length out")
    case True
    from emits_room [OF f w True] obtain w' where "f w = (Ok, w')" "written etl out (pre @ xs) w'"
      by blast
    moreover have "\<not> length (pre @ xs) + length ys \<le> length out" using no by simp
    ultimately show ?thesis using emits_full [OF g] by fastforce
  next
    case False
    then show ?thesis using emits_full [OF f w] by fastforce
  qed
qed

lemma emits_if:
  "(b \<Longrightarrow> emits etl f xs) \<Longrightarrow> (\<not> b \<Longrightarrow> emits etl g ys) \<Longrightarrow>
     emits etl (\<lambda>w. if b then f w else g w) (if b then xs else ys)"
  by simp

text \<open>A write that obeys its law emits its bytes.\<close>

lemma emits_law:
  assumes "\<And>w. wr_endian etl w = big_endian \<Longrightarrow> write_law etl w (f w) xs"
  shows "emits etl (\<lambda>w. mqtt_write (f w)) xs"
proof (rule emitsI)
  fix out pre w
  assume w: "written etl out pre w" and l: "length pre + length xs \<le> length out"
  have "length (wr_span etl w) = length out" using w by (simp add: written_def)
  then have "fst (f w) \<and> written etl out (pre @ xs) (snd (f w))"
    using assms [of w] w l by (auto simp: written_def write_law_def write_at_def add.commute)
  then show "\<exists>w'. mqtt_write (f w) = (Ok, w') \<and> written etl out (pre @ xs) w'"
    by (cases "f w") (auto simp: mqtt_write_def)
next
  fix out pre w
  assume w: "written etl out pre w" and l: "\<not> length pre + length xs \<le> length out"
  have "length (wr_span etl w) = length out" using w by (simp add: written_def)
  then have "f w = (False, w)" using assms [of w] w l by (auto simp: written_def write_law_def)
  then show "\<exists>w' pre'. mqtt_write (f w) = (BufferTooSmall, w') \<and> written etl out pre' w'"
    using w by auto
qed

context byte_streams
begin

lemma written_open: "written etl out [] (wr_open etl out big_endian)"
  by (simp add: written_def wr_open)

lemma emits_u8: "emits etl (\<lambda>w. mqtt_write (wr_u8 etl w b)) [b]"
  by (rule emits_law) (rule wr_u8)

lemma emits_u16: "emits etl (\<lambda>w. mqtt_write (wr_u16 etl w v)) (be16 v)"
  by (rule emits_law) (metis wr_u16 in_order_def endian.simps(4))

lemma emits_bytes: "emits etl (\<lambda>w. mqtt_write (wr_bytes etl w xs)) xs"
  by (rule emits_law) (rule wr_bytes)

text \<open>An encoder built from a writing function stores exactly its bytes at the front of the
  target, or reports that they do not fit.\<close>

lemma finish_emits:
  assumes "emits etl f bs"
  shows "length bs \<le> length out \<Longrightarrow>
      finish etl (f (wr_open etl out big_endian)) = (Inr (length bs), write_at out 0 bs)"
    and "\<not> length bs \<le> length out \<Longrightarrow>
      \<exists>out'. finish etl (f (wr_open etl out big_endian)) = (Inl BufferTooSmall, out')
        \<and> length out' = length out"
proof -
  note op = written_open [of out]
  show "finish etl (f (wr_open etl out big_endian)) = (Inr (length bs), write_at out 0 bs)"
    if "length bs \<le> length out"
    using emits_room [OF assms op] that by (auto simp: finish_def written_def write_at_def)
  show "\<exists>out'. finish etl (f (wr_open etl out big_endian)) = (Inl BufferTooSmall, out')
        \<and> length out' = length out" if "\<not> length bs \<le> length out"
    using emits_full [OF assms op] that by (auto simp: finish_def written_def)
qed

end

section \<open>A list implementation\<close>

record list_writer =
  lw_span :: bytes
  lw_size :: nat
  lw_endian :: endian

record list_reader =
  lr_free :: bytes
  lr_endian :: endian

definition lw_write :: "list_writer \<Rightarrow> bytes \<Rightarrow> bool \<times> list_writer" where
  "lw_write w xs =
     (if lw_size w + length xs \<le> length (lw_span w)
      then (True, w\<lparr>lw_span := write_at (lw_span w) (lw_size w) xs, lw_size := lw_size w + length xs\<rparr>)
      else (False, w))"

definition lr_u16 :: "list_reader \<Rightarrow> u16 option \<times> list_reader" where
  "lr_u16 r = (case lr_free r of
       a # b # rest \<Rightarrow>
         (Some (case lr_endian r of big_endian \<Rightarrow> of_be16 a b | little_endian \<Rightarrow> of_be16 b a),
          r\<lparr>lr_free := rest\<rparr>)
     | _ \<Rightarrow> (None, r))"

definition lr_chars :: "list_reader \<Rightarrow> nat \<Rightarrow> bytes option \<times> list_reader" where
  "lr_chars r n =
     (if n \<le> length (lr_free r)
      then (Some (take n (lr_free r)), r\<lparr>lr_free := drop n (lr_free r)\<rparr>) else (None, r))"

definition list_streams :: "(list_writer, list_reader) etl_ops" where
  "list_streams =
     \<lparr>wr_open = (\<lambda>out en. \<lparr>lw_span = out, lw_size = 0, lw_endian = en\<rparr>),
      wr_u8 = (\<lambda>w b. lw_write w [b]),
      wr_u16 = (\<lambda>w v. lw_write w (in_order (lw_endian w) v)),
      wr_bytes = lw_write, wr_size = lw_size, wr_span = lw_span, wr_endian = lw_endian,
      rd_open = (\<lambda>body en. \<lparr>lr_free = body, lr_endian = en\<rparr>),
      rd_u16 = lr_u16, rd_chars = lr_chars, rd_available = (\<lambda>r. length (lr_free r)),
      rd_free = lr_free, rd_endian = lr_endian\<rparr>"

lemma list_streams_simps [simp]:
  "wr_open list_streams out en = \<lparr>lw_span = out, lw_size = 0, lw_endian = en\<rparr>"
  "wr_u8 list_streams w b = lw_write w [b]"
  "wr_u16 list_streams w v = lw_write w (in_order (lw_endian w) v)"
  "wr_bytes list_streams = lw_write" "wr_size list_streams = lw_size"
  "wr_span list_streams = lw_span" "wr_endian list_streams = lw_endian"
  "rd_open list_streams body en = \<lparr>lr_free = body, lr_endian = en\<rparr>"
  "rd_u16 list_streams = lr_u16" "rd_chars list_streams = lr_chars"
  "rd_available list_streams r = length (lr_free r)"
  "rd_free list_streams = lr_free" "rd_endian list_streams = lr_endian"
  by (simp_all add: list_streams_def)

lemma lw_write_law: "write_law list_streams w (lw_write w xs) xs"
  by (simp add: write_law_def lw_write_def)

interpretation lists: byte_streams list_streams
proof (unfold_locales, goal_cases)
  case (9 r)
  then show ?case by (auto simp: lr_u16_def split: list.splits)
next
  case (10 r v rest)
  then show ?case by (cases "lr_endian r") (auto simp: lr_u16_def in_order_def be16_def)
qed (auto simp: lw_write_law lr_chars_def)

end
