(* ===== verification/Utf8.thy ===== *)
theory Utf8
  imports Packet
begin

text \<open>
  \<^verbatim>\<open>include/mqtt/utf8.hpp\<close> and \<^verbatim>\<open>src/utf8.cpp\<close>: the validator for MQTT UTF-8 strings. The
  specification is the encoding itself: a string is valid exactly when it is the concatenation
  of the RFC 3629 encodings of some code points, none of them U+0000 or a surrogate half and
  none above U+10FFFF.
\<close>

section \<open>The validator\<close>

definition byte_at :: "bytes \<Rightarrow> nat \<Rightarrow> u8" where
  "byte_at s i = s ! i"

definition kSmallestFor :: "u32 list" where
  "kSmallestFor = [0x00000000, 0x00000080, 0x00000800, 0x00010000]"

definition kMaxCodePoint :: u32 where "kMaxCodePoint = 0x0010FFFF"
definition kSurrogateFirst :: u32 where "kSurrogateFirst = 0x0000D800"
definition kSurrogateLast :: u32 where "kSurrogateLast = 0x0000DFFF"

text \<open>The classification of the lead byte: continuation count and the bits it contributes.\<close>

definition utf8_lead :: "u8 \<Rightarrow> (nat \<times> u32) option" where
  "utf8_lead lead =
     (if lead < 0x80 then Some (0, ucast lead)
      else if lead AND 0xE0 = 0xC0 then Some (1, ucast (lead AND 0x1F))
      else if lead AND 0xF0 = 0xE0 then Some (2, ucast (lead AND 0x0F))
      else if lead AND 0xF8 = 0xF0 then Some (3, ucast (lead AND 0x07))
      else None)"

text \<open>The inner loop over the continuation bytes, from \<open>k\<close> on; \<open>None\<close> is the early return.\<close>

function utf8_continue :: "bytes \<Rightarrow> nat \<Rightarrow> nat \<Rightarrow> nat \<Rightarrow> u32 \<Rightarrow> u32 option" where
  "utf8_continue s i k continuations code_point =
     (if k \<le> continuations then
        let cont = byte_at s (i + k) in
        if cont AND 0xC0 \<noteq> 0x80 then None
        else utf8_continue s i (k + 1) continuations
               (push_bit 6 code_point OR ucast (cont AND 0x3F))
      else Some code_point)"
  by pat_completeness auto
termination
  by (relation "measure (\<lambda>(s, i, k, n, c). Suc n - k)") auto

declare utf8_continue.simps [simp del]

function utf8_loop :: "bytes \<Rightarrow> nat \<Rightarrow> bool" where
  "utf8_loop s i =
     (if i < length s then
        let lead = byte_at s i in
        if lead = 0x00 then False
        else (case utf8_lead lead of
            None \<Rightarrow> False
          | Some (continuations, code_point) \<Rightarrow>
              if length s - i \<le> continuations then False
              else (case utf8_continue s i 1 continuations code_point of
                  None \<Rightarrow> False
                | Some code_point \<Rightarrow>
                    if code_point < kSmallestFor ! continuations then False
                    else if kSurrogateFirst \<le> code_point \<and> code_point \<le> kSurrogateLast then False
                    else if code_point > kMaxCodePoint then False
                    else utf8_loop s (i + (continuations + 1))))
      else True)"
  by pat_completeness auto
termination
  by (relation "measure (\<lambda>(s, i). length s - i)") auto

declare utf8_loop.simps [simp del]

definition is_valid_mqtt_string :: "bytes \<Rightarrow> bool" where
  "is_valid_mqtt_string s = utf8_loop s 0"

section \<open>Specification\<close>

definition utf8_encode :: "nat \<Rightarrow> bytes" where
  "utf8_encode c = map word_of_nat
     (if c < 0x80 then [c]
      else if c < 0x800 then [0xC0 + c div 64, 0x80 + c mod 64]
      else if c < 0x10000 then [0xE0 + c div 4096, 0x80 + c div 64 mod 64, 0x80 + c mod 64]
      else [0xF0 + c div 262144, 0x80 + c div 4096 mod 64, 0x80 + c div 64 mod 64,
            0x80 + c mod 64])"

definition mqtt_char :: "nat \<Rightarrow> bool" where
  "mqtt_char c \<longleftrightarrow> 0 < c \<and> c \<le> 0x10FFFF \<and> \<not> (0xD800 \<le> c \<and> c \<le> 0xDFFF)"

definition mqtt_utf8 :: "bytes \<Rightarrow> bool" where
  "mqtt_utf8 s \<longleftrightarrow> (\<exists>cs. list_all mqtt_char cs \<and> s = concat (map utf8_encode cs))"

section \<open>Bit tests as arithmetic\<close>

lemma unat_and_not_mask: "unat (w AND NOT (mask n) :: u8) = unat w div 2 ^ n * 2 ^ n"
proof -
  have e: "w AND NOT (mask n) = push_bit n (drop_bit n w)"
    by (rule bit_word_eqI) (auto simp: bit_simps)
  have "unat w div 2 ^ n * 2 ^ n \<le> unat w" by simp
  also note unat_u8_less [of w]
  finally have "unat w div 2 ^ n * 2 ^ n < 2 ^ 8" by simp
  moreover have "unat (w AND NOT (mask n)) = take_bit 8 (push_bit n (drop_bit n (unat w)))"
    by (simp only: e unsigned_push_bit_eq unat_drop_bit_eq) simp
  ultimately show ?thesis
    by (simp add: drop_bit_eq_div push_bit_eq_mult take_bit_eq_mod)
qed

lemma lead_tests:
  fixes b :: u8
  shows "b AND 0xE0 = 0xC0 \<longleftrightarrow> 192 \<le> unat b \<and> unat b < 224"
    and "b AND 0xF0 = 0xE0 \<longleftrightarrow> 224 \<le> unat b \<and> unat b < 240"
    and "b AND 0xF8 = 0xF0 \<longleftrightarrow> 240 \<le> unat b \<and> unat b < 248"
    and "b AND 0xC0 = 0x80 \<longleftrightarrow> 128 \<le> unat b \<and> unat b < 192"
proof -
  have m: "NOT (mask 5) = (0xE0::u8)" "NOT (mask 4) = (0xF0::u8)" "NOT (mask 3) = (0xF8::u8)"
    "NOT (mask 6) = (0xC0::u8)" by (code_simp, code_simp, code_simp, code_simp)
  have "unat (b AND 0xE0) = unat b div 32 * 32" "unat (b AND 0xF0) = unat b div 16 * 16"
    "unat (b AND 0xF8) = unat b div 8 * 8" "unat (b AND 0xC0) = unat b div 64 * 64"
    using unat_and_not_mask [of b 5, unfolded m] unat_and_not_mask [of b 4, unfolded m]
      unat_and_not_mask [of b 3, unfolded m] unat_and_not_mask [of b 6, unfolded m] by simp_all
  then show "b AND 0xE0 = 0xC0 \<longleftrightarrow> 192 \<le> unat b \<and> unat b < 224"
    "b AND 0xF0 = 0xE0 \<longleftrightarrow> 224 \<le> unat b \<and> unat b < 240"
    "b AND 0xF8 = 0xF0 \<longleftrightarrow> 240 \<le> unat b \<and> unat b < 248"
    "b AND 0xC0 = 0x80 \<longleftrightarrow> 128 \<le> unat b \<and> unat b < 192"
    by (simp_all add: word_unat_eq_iff) arith+
qed

lemma unat_and_low:
  fixes b :: u8
  shows "unat (b AND 0x1F) = unat b mod 32" "unat (b AND 0x0F) = unat b mod 16"
    "unat (b AND 0x07) = unat b mod 8" "unat (b AND 0x3F) = unat b mod 64"
  using unat_and_mask [of b 5] unat_and_mask [of b 4] unat_and_mask [of b 3] unat_and_mask [of b 6]
  by (simp_all add: mask_eq_exp_minus_1)

lemma unat_append6:
  fixes c :: u32 and b :: u8
  assumes "unat c < 2 ^ 26"
  shows "unat (push_bit 6 c OR ucast (b AND 0x3F)) = unat c * 64 + unat b mod 64"
proof -
  have disj: "push_bit 6 c AND ucast (b AND 0x3F) = 0"
  proof (rule bit_word_eqI)
    fix n assume "n < LENGTH(32)"
    have "b AND 0x3F = b AND mask 6" by (simp add: mask_eq_exp_minus_1)
    then show "bit (push_bit 6 c AND ucast (b AND 0x3F)) n = bit 0 n"
      by (auto simp: bit_simps simp del: mask_numeral)
  qed
  have "push_bit 6 c OR ucast (b AND 0x3F) = push_bit 6 c + ucast (b AND 0x3F)"
    by (rule disjunctive_add_eq_or [symmetric]) (rule disj)
  also have "\<dots> = word_of_nat (unat c * 64 + unat b mod 64)"
    by (simp add: push_bit_eq_mult ac_simps flip: unat_and_low(4))
  finally have "unat (push_bit 6 c OR ucast (b AND 0x3F)) = (unat c * 64 + unat b mod 64) mod 2 ^ LENGTH(32)"
    by (simp only: unat_of_nat)
  moreover have "unat b mod 64 < 64" by simp
  ultimately show ?thesis using assms by simp
qed


section \<open>One step of the validator\<close>

definition utf8_cont :: "u8 \<Rightarrow> bool" where
  "utf8_cont b \<longleftrightarrow> 128 \<le> unat b \<and> unat b < 192"

lemma utf8_lead_cases:
  "unat b < 128 \<Longrightarrow> utf8_lead b = Some (0, ucast b)"
  "192 \<le> unat b \<Longrightarrow> unat b < 224 \<Longrightarrow> utf8_lead b = Some (1, ucast (b AND 0x1F))"
  "224 \<le> unat b \<Longrightarrow> unat b < 240 \<Longrightarrow> utf8_lead b = Some (2, ucast (b AND 0x0F))"
  "240 \<le> unat b \<Longrightarrow> unat b < 248 \<Longrightarrow> utf8_lead b = Some (3, ucast (b AND 0x07))"
  "utf8_cont b \<or> 248 \<le> unat b \<Longrightarrow> utf8_lead b = None"
  by (auto simp: utf8_lead_def lead_tests word_less_nat_alt utf8_cont_def)

lemma utf8_continue_unfold:
  "k \<le> n \<Longrightarrow> utf8_continue s i k n c =
     (if utf8_cont (s ! (i + k))
      then utf8_continue s i (k + 1) n (push_bit 6 c OR ucast (s ! (i + k) AND 0x3F)) else None)"
  "n < k \<Longrightarrow> utf8_continue s i k n c = Some c"
  by (subst utf8_continue.simps, simp add: lead_tests byte_at_def Let_def utf8_cont_def)+

definition append6 :: "u32 \<Rightarrow> u8 \<Rightarrow> u32" where
  "append6 c b = push_bit 6 c OR ucast (b AND 0x3F)"

lemma utf8_continue_n:
  "utf8_continue s i 1 0 c = Some c"
  "utf8_continue s i 1 1 c = (if utf8_cont (s ! (i + 1)) then Some (append6 c (s ! (i + 1))) else None)"
  "utf8_continue s i 1 2 c = (if utf8_cont (s ! (i + 1)) \<and> utf8_cont (s ! (i + 2))
     then Some (append6 (append6 c (s ! (i + 1))) (s ! (i + 2))) else None)"
  "utf8_continue s i 1 3 c =
     (if utf8_cont (s ! (i + 1)) \<and> utf8_cont (s ! (i + 2)) \<and> utf8_cont (s ! (i + 3))
      then Some (append6 (append6 (append6 c (s ! (i + 1))) (s ! (i + 2))) (s ! (i + 3))) else None)"
  by (simp_all add: utf8_continue_unfold append6_def eval_nat_numeral)

lemmas utf8_continue_simps = utf8_continue_n utf8_continue_n [unfolded One_nat_def]

lemma unat_append6_bound:
  assumes "unat c < 2 ^ 26"
  shows "unat (append6 c b) = unat c * 64 + unat b mod 64"
  unfolding append6_def using assms by (rule unat_append6)

lemma unat_append6_chain:
  assumes "unat c < 32"
  shows "unat (append6 c b) = unat c * 64 + unat b mod 64"
    "unat (append6 (append6 c b) d) = (unat c * 64 + unat b mod 64) * 64 + unat d mod 64"
    "unat (append6 (append6 (append6 c b) d) e)
       = ((unat c * 64 + unat b mod 64) * 64 + unat d mod 64) * 64 + unat e mod 64"
proof -
  have m: "unat x mod 64 < 64" for x :: u8 by simp
  show 1: "unat (append6 c b) = unat c * 64 + unat b mod 64"
    using assms by (intro unat_append6_bound) simp
  show 2: "unat (append6 (append6 c b) d) = (unat c * 64 + unat b mod 64) * 64 + unat d mod 64"
    using assms m [of b] by (subst unat_append6_bound) (simp_all add: 1)
  show "unat (append6 (append6 (append6 c b) d) e)
       = ((unat c * 64 + unat b mod 64) * 64 + unat d mod 64) * 64 + unat e mod 64"
    using assms m [of b] m [of d] by (subst unat_append6_bound) (simp_all add: 2)
qed

text \<open>The checks on the decoded code point, and the loop body with its lead byte classified.\<close>

definition code_point_ok :: "nat \<Rightarrow> u32 \<Rightarrow> bool" where
  "code_point_ok k c \<longleftrightarrow> [0, 0x80, 0x800, 0x10000] ! k \<le> unat c \<and> mqtt_char (unat c)"

lemma utf8_loop_body:
  assumes "i < length s" "s ! i \<noteq> 0" "utf8_lead (s ! i) = Some (k, c0)" "k \<le> 3"
  shows "utf8_loop s i \<longleftrightarrow> i + k < length s
    \<and> (\<exists>c. utf8_continue s i 1 k c0 = Some c
         \<and> (if k = 0 then c \<le> kMaxCodePoint \<and> \<not> (kSurrogateFirst \<le> c \<and> c \<le> kSurrogateLast)
            else code_point_ok k c))
    \<and> utf8_loop s (i + (k + 1))"
proof -
  have k: "k = 0 \<or> k = 1 \<or> k = 2 \<or> k = 3" using assms(4) by arith
  show ?thesis
    using assms(1,2,3) k
    by (subst utf8_loop.simps)
      (auto simp: Let_def byte_at_def kSmallestFor_def code_point_ok_def word_less_nat_alt
        word_le_nat_alt kSurrogateFirst_def kSurrogateLast_def kMaxCodePoint_def mqtt_char_def
        split: option.splits)
qed

lemma utf8_step_bad:
  "i < length s \<Longrightarrow> utf8_cont (s ! i) \<or> 248 \<le> unat (s ! i) \<or> s ! i = 0 \<Longrightarrow> \<not> utf8_loop s i"
  by (subst utf8_loop.simps) (auto simp: Let_def byte_at_def utf8_lead_cases)

lemma drop_nth_cons: "i < length s \<Longrightarrow> drop i s = s ! i # drop (i + 1) s"
  by (simp add: Cons_nth_drop_Suc)

lemma utf8_encode_digits:
  assumes "b < 64" "d < 64" "e < 64"
  shows "a < 32 \<Longrightarrow> 0x80 \<le> a * 64 + b \<Longrightarrow> utf8_encode (a * 64 + b) = map word_of_nat [192 + a, 128 + b]"
    "a < 16 \<Longrightarrow> 0x800 \<le> (a * 64 + b) * 64 + d \<Longrightarrow>
       utf8_encode ((a * 64 + b) * 64 + d) = map word_of_nat [224 + a, 128 + b, 128 + d]"
    "0x10000 \<le> ((a * 64 + b) * 64 + d) * 64 + e \<Longrightarrow>
       utf8_encode (((a * 64 + b) * 64 + d) * 64 + e)
         = map word_of_nat [240 + a, 128 + b, 128 + d, 128 + e]"
proof -
  have d: "(x * 64 + y) div 64 = x" "(x * 64 + y) mod 64 = y" if "y < 64" for x y :: nat
    using that by simp_all
  have q: "x div 4096 = x div 64 div 64" "x div 262144 = x div 64 div 64 div 64" for x :: nat
    by (simp_all add: div_mult2_eq [symmetric])
  show "a < 32 \<Longrightarrow> 0x80 \<le> a * 64 + b \<Longrightarrow> utf8_encode (a * 64 + b) = map word_of_nat [192 + a, 128 + b]"
    using assms by (simp add: utf8_encode_def d)
  define x y where "x = (a * 64 + b) * 64 + d" and "y = ((a * 64 + b) * 64 + d) * 64 + e"
  have x: "x div 64 div 64 = a" "x div 64 mod 64 = b" "x mod 64 = d"
    using assms unfolding x_def by (simp_all only: d)
  have y: "y div 64 div 64 div 64 = a" "y div 64 div 64 mod 64 = b" "y div 64 mod 64 = d" "y mod 64 = e"
    using assms unfolding y_def by (simp_all only: d)
  have "x < 0x10000" if "a < 16"
  proof -
    from that assms have "a \<le> 15" "b \<le> 63" "d \<le> 63" by simp_all
    then show ?thesis by (simp add: x_def algebra_simps)
  qed
  with x have "a < 16 \<Longrightarrow> 0x800 \<le> x \<Longrightarrow> utf8_encode x = map word_of_nat [224 + a, 128 + b, 128 + d]"
    by (simp add: utf8_encode_def q)
  then show "a < 16 \<Longrightarrow> 0x800 \<le> (a * 64 + b) * 64 + d \<Longrightarrow>
       utf8_encode ((a * 64 + b) * 64 + d) = map word_of_nat [224 + a, 128 + b, 128 + d]"
    unfolding x_def .
  have "0x10000 \<le> y \<Longrightarrow> utf8_encode y = map word_of_nat [240 + a, 128 + b, 128 + d, 128 + e]"
    using y by (simp add: utf8_encode_def q)
  then show "0x10000 \<le> ((a * 64 + b) * 64 + d) * 64 + e \<Longrightarrow>
       utf8_encode (((a * 64 + b) * 64 + d) * 64 + e)
         = map word_of_nat [240 + a, 128 + b, 128 + d, 128 + e]"
    unfolding y_def .
qed

lemma offset_mods:
  "x < 64 \<Longrightarrow> (128 + x) mod 64 = (x::nat)" "x < 32 \<Longrightarrow> (192 + x) mod 32 = (x::nat)"
  "x < 16 \<Longrightarrow> (224 + x) mod 16 = (x::nat)" "x < 8 \<Longrightarrow> (240 + x) mod 8 = (x::nat)"
  using mod_mult_self3 [of 2 64 x] mod_mult_self3 [of 6 32 x] mod_mult_self3 [of 14 16 x]
    mod_mult_self3 [of 30 8 x] by simp_all

lemma offsetE:
  assumes "k \<le> n" "n < k + (m::nat)"
  obtains x where "n = k + x" "x < m"
  using assms by (metis le_iff_add nat_add_left_cancel_less)

lemma utf8_contE:
  assumes "utf8_cont b"
  obtains x where "unat b = 128 + x" "x < 64"
  using assms by (auto simp: utf8_cont_def elim: offsetE [of 128 _ 64])

lemma byte_eq: "unat (b::u8) = n \<Longrightarrow> word_of_nat n = b"
  by auto

definition utf8_first :: "bytes \<Rightarrow> nat \<Rightarrow> bool" where
  "utf8_first s i \<longleftrightarrow> (\<exists>c. mqtt_char c \<and> drop i s = utf8_encode c @ drop (i + length (utf8_encode c)) s
    \<and> utf8_loop s (i + length (utf8_encode c)))"

lemma utf8_firstI:
  "mqtt_char c \<Longrightarrow> utf8_encode c = bs \<Longrightarrow> drop i s = bs @ drop (i + length bs) s \<Longrightarrow>
   utf8_loop s (i + length bs) \<Longrightarrow> utf8_first s i"
  by (auto simp: utf8_first_def)

lemma utf8_sound_1:
  assumes i: "i < length s" and nz: "s ! i \<noteq> 0" and L: "unat (s ! i) < 128" and l: "utf8_loop s i"
  shows "utf8_first s i"
proof -
  let ?L = "unat (s ! i)"
  have "mqtt_char ?L" using nz L by (simp add: mqtt_char_def unat_gt_0)
  moreover have "utf8_encode ?L = [s ! i]" using L by (simp add: utf8_encode_def)
  moreover have "utf8_loop s (i + 1)" using utf8_loop_body [OF i nz utf8_lead_cases(1) [OF L]] l by simp
  ultimately show ?thesis unfolding utf8_first_def using drop_nth_cons [OF i] by (intro exI [of _ ?L]) simp
qed

lemma utf8_sound_2:
  assumes i: "i < length s" and nz: "s ! i \<noteq> 0"
    and L: "192 \<le> unat (s ! i)" "unat (s ! i) < 224" and l: "utf8_loop s i"
  shows "utf8_first s i"
proof -
  from L obtain a where a: "unat (s ! i) = 192 + a" "a < 32" by (auto elim: offsetE [of 192 _ 32])
  note body = utf8_loop_body [OF i nz utf8_lead_cases(2) [OF L]]
  from body l have b0: "i + 1 < length s" "utf8_cont (s ! (i + 1))" "utf8_loop s (i + 2)"
    by (auto simp: utf8_continue_simps split: if_splits)
  from b0(2) obtain b where b: "unat (s ! (i + 1)) = 128 + b" "b < 64" by (rule utf8_contE)
  let ?c = "a * 64 + b"
  let ?lead = "ucast (s ! i AND 0x1F) :: u32" and ?w = "append6 (ucast (s ! i AND 0x1F) :: u32) (s ! (i + 1))"
  have u: "unat ?lead = a" using a by (simp add: unat_and_low offset_mods)
  have "utf8_continue s i 1 1 ?lead = Some ?w" using b0 by (simp only: utf8_continue_n if_True simp_thms)
  with body l have "code_point_ok 1 ?w" by auto
  moreover have "unat ?w = ?c"
    using a(2) b by (simp only: unat_append6_chain u offset_mods)
  ultimately have c: "0x80 \<le> ?c" "mqtt_char ?c" by (simp_all add: code_point_ok_def)
  have enc: "utf8_encode ?c = [s ! i, s ! (i + 1)]"
    unfolding utf8_encode_digits(1) [OF b(2) b(2) b(2) a(2) c(1)]
    by (simp only: list.map byte_eq [OF a(1)] byte_eq [OF b(1)])
  show ?thesis
    by (rule utf8_firstI [OF c(2) enc])
      (use b0 drop_nth_cons [OF i] drop_nth_cons [OF b0(1)] in \<open>simp_all add: numeral_2_eq_2\<close>)
qed


lemma utf8_sound_3:
  assumes i: "i < length s" and nz: "s ! i \<noteq> 0"
    and L: "224 \<le> unat (s ! i)" "unat (s ! i) < 240" and l: "utf8_loop s i"
  shows "utf8_first s i"
proof -
  from L obtain a where a: "unat (s ! i) = 224 + a" "a < 16" by (auto elim: offsetE [of 224 _ 16])
  note body = utf8_loop_body [OF i nz utf8_lead_cases(3) [OF L]]
  from body l have b0: "i + 2 < length s" "utf8_cont (s ! (i + 1))" "utf8_cont (s ! (i + 2))"
      "utf8_loop s (i + 3)"
    by (auto simp: utf8_continue_simps split: if_splits)
  from b0(2) obtain b where b: "unat (s ! (i + 1)) = 128 + b" "b < 64" by (rule utf8_contE)
  from b0(3) obtain d where d: "unat (s ! (i + 2)) = 128 + d" "d < 64" by (rule utf8_contE)
  let ?c = "(a * 64 + b) * 64 + d"
  let ?lead = "ucast (s ! i AND 0x0F) :: u32" and ?w = "append6 (append6 (ucast (s ! i AND 0x0F) :: u32) (s ! (i + 1))) (s ! (i + 2))"
  have u: "unat ?lead = a" using a by (simp add: unat_and_low offset_mods)
  have "utf8_continue s i 1 2 ?lead = Some ?w" using b0 by (simp only: utf8_continue_n if_True simp_thms)
  with body l have "code_point_ok 2 ?w" by auto
  moreover have "unat ?w = ?c"
    using a(2) b d by (simp only: unat_append6_chain u offset_mods)
  ultimately have c: "0x800 \<le> ?c" "mqtt_char ?c" by (simp_all add: code_point_ok_def)
  have enc: "utf8_encode ?c = [s ! i, s ! (i + 1), s ! (i + 2)]"
    unfolding utf8_encode_digits(2) [OF b(2) d(2) d(2) a(2) c(1)]
    by (simp only: list.map byte_eq [OF a(1)] byte_eq [OF b(1)] byte_eq [OF d(1)])
  have "drop i s = s ! i # s ! (i + 1) # s ! (i + 2) # drop (i + 3) s"
    using drop_nth_cons [OF i] drop_nth_cons [of "i + 1" s] drop_nth_cons [OF b0(1)] b0(1)
    by (simp add: numeral_3_eq_3 numeral_2_eq_2)
  with b0(4) show ?thesis by (intro utf8_firstI [OF c(2) enc]) (simp_all add: numeral_3_eq_3)
qed

lemma utf8_sound_4:
  assumes i: "i < length s" and nz: "s ! i \<noteq> 0"
    and L: "240 \<le> unat (s ! i)" "unat (s ! i) < 248" and l: "utf8_loop s i"
  shows "utf8_first s i"
proof -
  from L obtain a where a: "unat (s ! i) = 240 + a" "a < 8" by (auto elim: offsetE [of 240 _ 8])
  note body = utf8_loop_body [OF i nz utf8_lead_cases(4) [OF L]]
  from body l have b0: "i + 3 < length s" "utf8_cont (s ! (i + 1))" "utf8_cont (s ! (i + 2))"
      "utf8_cont (s ! (i + 3))" "utf8_loop s (i + 4)"
    by (auto simp: utf8_continue_simps split: if_splits)
  from b0(2) obtain b where b: "unat (s ! (i + 1)) = 128 + b" "b < 64" by (rule utf8_contE)
  from b0(3) obtain d where d: "unat (s ! (i + 2)) = 128 + d" "d < 64" by (rule utf8_contE)
  from b0(4) obtain e where e: "unat (s ! (i + 3)) = 128 + e" "e < 64" by (rule utf8_contE)
  let ?c = "((a * 64 + b) * 64 + d) * 64 + e"
  let ?lead = "ucast (s ! i AND 0x07) :: u32" and ?w = "append6 (append6 (append6 (ucast (s ! i AND 0x07) :: u32) (s ! (i + 1))) (s ! (i + 2))) (s ! (i + 3))"
  have u: "unat ?lead = a" using a by (simp add: unat_and_low offset_mods)
  have "utf8_continue s i 1 3 ?lead = Some ?w" using b0 by (simp only: utf8_continue_n if_True simp_thms)
  with body l have "code_point_ok 3 ?w" by auto
  moreover have "unat ?w = ?c"
    using a(2) b d e by (simp only: unat_append6_chain u offset_mods)
  ultimately have c: "0x10000 \<le> ?c" "mqtt_char ?c" by (simp_all add: code_point_ok_def)
  have enc: "utf8_encode ?c = [s ! i, s ! (i + 1), s ! (i + 2), s ! (i + 3)]"
    unfolding utf8_encode_digits(3) [OF b(2) d(2) e(2) c(1)]
    by (simp only: list.map byte_eq [OF a(1)] byte_eq [OF b(1)] byte_eq [OF d(1)] byte_eq [OF e(1)])
  have "drop i s = s ! i # s ! (i + 1) # s ! (i + 2) # s ! (i + 3) # drop (i + 4) s"
    using drop_nth_cons [OF i] drop_nth_cons [of "i + 1" s] drop_nth_cons [of "i + 2" s]
      drop_nth_cons [OF b0(1)] b0(1)
    by (simp add: eval_nat_numeral)
  with b0(5) show ?thesis by (intro utf8_firstI [OF c(2) enc]) (simp_all add: eval_nat_numeral)
qed

lemma utf8_step_sound:
  assumes i: "i < length s" and l: "utf8_loop s i"
  shows "utf8_first s i"
proof -
  let ?L = "unat (s ! i)"
  have "\<not> (utf8_cont (s ! i) \<or> 248 \<le> ?L \<or> s ! i = 0)" using utf8_step_bad [OF i] l by blast
  then have nz: "s ! i \<noteq> 0" and nb: "\<not> utf8_cont (s ! i)" "?L < 248" by auto
  have "?L < 128 \<or> (192 \<le> ?L \<and> ?L < 224) \<or> (224 \<le> ?L \<and> ?L < 240) \<or> (240 \<le> ?L \<and> ?L < 248)"
    using nb unfolding utf8_cont_def by arith
  then show ?thesis
    using utf8_sound_1 [OF i nz _ l] utf8_sound_2 [OF i nz _ _ l] utf8_sound_3 [OF i nz _ _ l]
      utf8_sound_4 [OF i nz _ _ l] by blast
qed


lemma drop_consD:
  assumes "drop i s = x # r"
  shows "i < length s" "s ! i = x" "drop (i + 1) s = r"
proof -
  show "i < length s" using assms by (metis drop_all leI list.distinct(1))
  then show "s ! i = x" "drop (i + 1) s = r" using assms drop_nth_cons by fastforce+
qed

lemma unat_byte: "n < 256 \<Longrightarrow> unat (word_of_nat n :: u8) = n"
  by (simp add: unat_of_nat)

lemma utf8_contI: "b = word_of_nat (128 + x) \<Longrightarrow> x < 64 \<Longrightarrow> utf8_cont b"
  by (simp add: utf8_cont_def unat_byte del: of_nat_add)

lemma utf8_complete_2:
  assumes d: "drop i s = map word_of_nat [192 + a, 128 + b] @ r" and "a < 32" "b < 64"
    and c: "0x80 \<le> a * 64 + b" "mqtt_char (a * 64 + b)"
  shows "utf8_loop s i = utf8_loop s (i + 2)"
proof -
  let ?x = "word_of_nat (192 + a) :: u8" and ?y = "word_of_nat (128 + b) :: u8"
  have dr: "drop i s = ?x # ?y # r" using d by simp
  note s0 = drop_consD [OF dr] and s1 = drop_consD [OF drop_consD(3) [OF dr]]
  have u: "unat ?x = 192 + a" "unat ?y = 128 + b" using assms(2,3) by (simp_all only: unat_byte)
  have nz: "s ! i \<noteq> 0" using s0(2) u(1) by auto
  have cont: "utf8_cont (s ! (i + 1))" using s1(2) assms(3) by (intro utf8_contI) simp_all
  have L: "192 \<le> unat (s ! i)" "unat (s ! i) < 224" using s0(2) u(1) assms(2) by simp_all
  have lead: "unat (ucast (s ! i AND 0x1F) :: u32) = a"
    using s0(2) u(1) assms(2) by (simp add: unat_and_low offset_mods)
  have "code_point_ok 1 (append6 (ucast (s ! i AND 0x1F)) (s ! (i + 1)))"
    using c s1(2) u(2) lead assms(2,3)
    by (simp add: code_point_ok_def unat_append6_chain offset_mods)
  then show ?thesis
    using utf8_loop_body [OF s0(1) nz utf8_lead_cases(2) [OF L]] cont s1(1)
    by (simp add: utf8_continue_simps)
qed

lemma utf8_complete_1:
  assumes d: "drop i s = word_of_nat c # r" and "0 < c" "c < 128"
  shows "utf8_loop s i = utf8_loop s (i + 1)"
proof -
  note s0 = drop_consD [OF d]
  have u: "unat (s ! i) = c" using assms(3) s0(2) by (simp add: unat_byte)
  then have nz: "s ! i \<noteq> 0" and L: "unat (s ! i) < 128" using assms by auto
  have "unat (ucast (s ! i) :: u32) = c" using u by simp
  then have ok: "(ucast (s ! i) :: u32) \<le> kMaxCodePoint" "\<not> kSurrogateFirst \<le> (ucast (s ! i) :: u32)"
    using assms(3) by (simp_all add: kMaxCodePoint_def kSurrogateFirst_def word_le_nat_alt)
  show ?thesis
    using utf8_loop_body [OF s0(1) nz utf8_lead_cases(1) [OF L]] s0(1) ok
    by (auto simp: utf8_continue_simps)
qed

lemma utf8_complete_3:
  assumes d: "drop i s = map word_of_nat [224 + a, 128 + b, 128 + d] @ r"
    and "a < 16" "b < 64" "d < 64"
    and c: "0x800 \<le> (a * 64 + b) * 64 + d" "mqtt_char ((a * 64 + b) * 64 + d)"
  shows "utf8_loop s i = utf8_loop s (i + 3)"
proof -
  let ?x = "word_of_nat (224 + a) :: u8" and ?y = "word_of_nat (128 + b) :: u8"
    and ?z = "word_of_nat (128 + d) :: u8"
  have dr: "drop i s = ?x # ?y # ?z # r" using d by simp
  note s0 = drop_consD [OF dr] and s1 = drop_consD [OF drop_consD(3) [OF dr]]
    and s2 = drop_consD [OF drop_consD(3) [OF drop_consD(3) [OF dr]], unfolded add.assoc one_add_one]
  have u: "unat ?x = 224 + a" "unat ?y = 128 + b" "unat ?z = 128 + d"
    using assms(2-4) by (simp_all only: unat_byte)
  have nz: "s ! i \<noteq> 0" using s0(2) u(1) by auto
  have cont: "utf8_cont (s ! (i + 1))" "utf8_cont (s ! (i + 2))"
    using s1(2) s2(2) assms(3,4) utf8_contI by metis+
  have L: "224 \<le> unat (s ! i)" "unat (s ! i) < 240" using s0(2) u(1) assms(2) by simp_all
  have lead: "unat (ucast (s ! i AND 0x0F) :: u32) = a"
    using s0(2) u(1) assms(2) by (simp add: unat_and_low offset_mods)
  have "unat (append6 (append6 (ucast (s ! i AND 0x0F)) (s ! (i + 1))) (s ! (i + 2)))
      = (a * 64 + b) * 64 + d"
    using lead assms(2) by (simp only: unat_append6_chain s1(2) s2(2) u offset_mods(1) [OF assms(3)]
        offset_mods(1) [OF assms(4)])
  then have "code_point_ok 2 (append6 (append6 (ucast (s ! i AND 0x0F)) (s ! (i + 1))) (s ! (i + 2)))"
    using c by (simp only: code_point_ok_def) simp
  then show ?thesis
    using utf8_loop_body [OF s0(1) nz utf8_lead_cases(3) [OF L]] cont s2(1)
    by (simp add: utf8_continue_simps)
qed

lemma utf8_complete_4:
  assumes d: "drop i s = map word_of_nat [240 + a, 128 + b, 128 + d, 128 + e] @ r"
    and "a < 8" "b < 64" "d < 64" "e < 64"
    and c: "0x10000 \<le> ((a * 64 + b) * 64 + d) * 64 + e"
      "mqtt_char (((a * 64 + b) * 64 + d) * 64 + e)"
  shows "utf8_loop s i = utf8_loop s (i + 4)"
proof -
  let ?x = "word_of_nat (240 + a) :: u8" and ?y = "word_of_nat (128 + b) :: u8"
    and ?z = "word_of_nat (128 + d) :: u8" and ?v = "word_of_nat (128 + e) :: u8"
  have dr: "drop i s = ?x # ?y # ?z # ?v # r" using d by simp
  have n: "i + 1 + 1 = i + 2" "i + 2 + 1 = i + 3" by simp_all
  note s0 = drop_consD [OF dr] and s1 = drop_consD [OF drop_consD(3) [OF dr]]
    and s2 = drop_consD [OF drop_consD(3) [OF drop_consD(3) [OF dr]], unfolded n]
    and s3 = drop_consD [OF drop_consD(3) [OF drop_consD(3) [OF drop_consD(3) [OF dr]]], unfolded n]
  have u: "unat ?x = 240 + a" "unat ?y = 128 + b" "unat ?z = 128 + d" "unat ?v = 128 + e"
    using assms(2-5) by (simp_all only: unat_byte)
  have nz: "s ! i \<noteq> 0" using s0(2) u(1) by auto
  have cont: "utf8_cont (s ! (i + 1))" "utf8_cont (s ! (i + 2))" "utf8_cont (s ! (i + 3))"
    using s1(2) s2(2) s3(2) assms(3-5) utf8_contI by metis+
  have L: "240 \<le> unat (s ! i)" "unat (s ! i) < 248" using s0(2) u(1) assms(2) by simp_all
  have lead: "unat (ucast (s ! i AND 0x07) :: u32) = a"
    using s0(2) u(1) assms(2) by (simp add: unat_and_low offset_mods)
  let ?w = "append6 (append6 (append6 (ucast (s ! i AND 0x07)) (s ! (i + 1))) (s ! (i + 2))) (s ! (i + 3))"
  have "unat ?w = ((a * 64 + b) * 64 + d) * 64 + e"
    using lead assms(2) by (simp only: unat_append6_chain s1(2) s2(2) s3(2) u offset_mods(1) [OF assms(3)]
        offset_mods(1) [OF assms(4)] offset_mods(1) [OF assms(5)])
  then have "code_point_ok 3 ?w"
    using c by (simp only: code_point_ok_def) simp
  then show ?thesis
    using utf8_loop_body [OF s0(1) nz utf8_lead_cases(4) [OF L]] cont s3(1)
    by (simp add: utf8_continue_simps)
qed


lemma utf8_step_complete:
  assumes c: "mqtt_char c" and d: "drop i s = utf8_encode c @ r"
  shows "utf8_loop s i = utf8_loop s (i + length (utf8_encode c))"
proof -
  have m: "c mod 64 < 64" "c div 64 mod 64 < 64" "c div 4096 mod 64 < 64" by simp_all
  have q: "c div 4096 = c div 64 div 64" "c div 262144 = c div 64 div 64 div 64"
    by (simp_all add: div_mult2_eq [symmetric])
  have d2: "(c div 4096 * 64 + c div 64 mod 64) * 64 + c mod 64 = c"
    and d3: "((c div 262144 * 64 + c div 4096 mod 64) * 64 + c div 64 mod 64) * 64 + c mod 64 = c"
    unfolding q by (simp_all only: div_mult_mod_eq)
  have n: "i + 3 = Suc (Suc (Suc i))" "i + 4 = Suc (Suc (Suc (Suc i)))" by simp_all
  consider "c < 0x80" | "0x80 \<le> c" "c < 0x800" | "0x800 \<le> c" "c < 0x10000" | "0x10000 \<le> c"
    by linarith
  then show ?thesis
  proof cases
    case 1
    then show ?thesis using d c utf8_complete_1 [of i s c r] by (simp add: utf8_encode_def mqtt_char_def)
  next
    case 2
    then show ?thesis using d c m utf8_complete_2 [of i s "c div 64" "c mod 64" r]
      by (simp add: utf8_encode_def div_less_iff_less_mult)
  next
    case 3
    then show ?thesis using d c m d2 utf8_complete_3 [of i s "c div 4096" "c div 64 mod 64" "c mod 64" r]
      by (simp add: utf8_encode_def div_less_iff_less_mult n)
  next
    case 4
    then show ?thesis using d c m d3
        utf8_complete_4 [of i s "c div 262144" "c div 4096 mod 64" "c div 64 mod 64" "c mod 64" r]
      by (simp add: utf8_encode_def div_less_iff_less_mult mqtt_char_def n)
  qed
qed

lemma utf8_encode_nonempty: "0 < length (utf8_encode c)"
  by (simp add: utf8_encode_def)

lemma utf8_loop_end: "length s \<le> i \<Longrightarrow> utf8_loop s i"
  by (subst utf8_loop.simps) simp

lemma utf8_loop_spec: "i \<le> length s \<Longrightarrow> utf8_loop s i \<longleftrightarrow> mqtt_utf8 (drop i s)"
proof (induction "length s - i" arbitrary: i rule: less_induct)
  case less
  show ?case
  proof (cases "i < length s")
    case False
    then show ?thesis by (auto simp: utf8_loop_end mqtt_utf8_def intro: exI [of _ "[]"])
  next
    case True
    show ?thesis
    proof
      assume "utf8_loop s i"
      from utf8_step_sound [OF True this] obtain c where c: "mqtt_char c"
        "drop i s = utf8_encode c @ drop (i + length (utf8_encode c)) s"
        "utf8_loop s (i + length (utf8_encode c))" by (auto simp: utf8_first_def)
      have len: "i + length (utf8_encode c) \<le> length s"
        using arg_cong [OF c(2), of length] True by simp
      moreover have "length s - (i + length (utf8_encode c)) < length s - i"
        using utf8_encode_nonempty [of c] True by linarith
      ultimately have "mqtt_utf8 (drop (i + length (utf8_encode c)) s)" using less.hyps c(3) by blast
      then obtain cs where "list_all mqtt_char cs"
        "drop (i + length (utf8_encode c)) s = concat (map utf8_encode cs)"
        by (auto simp: mqtt_utf8_def)
      with c(1,2) show "mqtt_utf8 (drop i s)"
        by (auto simp: mqtt_utf8_def intro!: exI [of _ "c # cs"])
    next
      assume "mqtt_utf8 (drop i s)"
      then obtain cs where cs: "list_all mqtt_char cs" "drop i s = concat (map utf8_encode cs)"
        by (auto simp: mqtt_utf8_def)
      with True obtain c cs' where c: "cs = c # cs'" by (cases cs) auto
      let ?j = "i + length (utf8_encode c)"
      have d: "drop i s = utf8_encode c @ concat (map utf8_encode cs')" using cs c by simp
      have dj: "drop ?j s = concat (map utf8_encode cs')"
        using arg_cong [OF d, of "drop (length (utf8_encode c))"] by (simp add: add.commute)
      have len: "?j \<le> length s" using arg_cong [OF d, of length] True by simp
      have "length s - ?j < length s - i" using utf8_encode_nonempty [of c] True by linarith
      then have "utf8_loop s ?j \<longleftrightarrow> mqtt_utf8 (drop ?j s)" using less.hyps len by blast
      moreover have "mqtt_utf8 (drop ?j s)" using cs(1) c dj by (auto simp: mqtt_utf8_def)
      ultimately show "utf8_loop s i" using utf8_step_complete [OF _ d] cs(1) c by simp
    qed
  qed
qed


lemma utf8_encode_no_nul:
  assumes "mqtt_char c"
  shows "0 \<notin> set (utf8_encode c)"
proof -
  have nz: "word_of_nat n \<noteq> (0::u8)" if "0 < n" "n < 256" for n
    using that unat_byte [of n] by auto
  have "c div 262144 < 8" using assms by (simp add: mqtt_char_def div_less_iff_less_mult)
  moreover have "c < 0x800 \<Longrightarrow> c div 64 < 32" "c < 0x10000 \<Longrightarrow> c div 4096 < 16"
    by (simp_all add: div_less_iff_less_mult)
  ultimately show ?thesis
    using assms mod_less_divisor [of 64 c] mod_less_divisor [of 64 "c div 64"]
      mod_less_divisor [of 64 "c div 4096"]
    by (auto simp: utf8_encode_def mqtt_char_def nz [THEN not_sym] simp del: of_nat_add)
qed

lemma mqtt_utf8_no_nul: "mqtt_utf8 s \<Longrightarrow> 0 \<notin> set s"
  using utf8_encode_no_nul by (fastforce simp: mqtt_utf8_def list_all_iff)

lemma mqtt_utf8_ascii: "list_all (\<lambda>b. 0 < b \<and> b < 0x80) s \<Longrightarrow> mqtt_utf8 s"
  unfolding mqtt_utf8_def
  by (rule exI [of _ "map unat s"])
    (induction s, auto simp: utf8_encode_def mqtt_char_def word_less_nat_alt)

lemma is_valid_mqtt_string_spec: "is_valid_mqtt_string s \<longleftrightarrow> mqtt_utf8 s"
  unfolding is_valid_mqtt_string_def using utf8_loop_spec [of 0 s] by simp

section \<open>Properties\<close>

text \<open>C35: The UTF-8 validator decides exactly the MQTT strings of section 1.5.3: a byte string
  is accepted if and only if it is the concatenation of the shortest UTF-8 encodings of code
  points between U+0001 and U+10FFFF outside the surrogate range. So overlong forms, stray or
  missing continuation bytes, surrogates, U+0000 and the five- and six-byte forms are all
  refused, and nothing else is.\<close>

theorem mqtt_string_valid_iff:
  "is_valid_mqtt_string s \<longleftrightarrow> (\<exists>cs. list_all mqtt_char cs \<and> s = concat (map utf8_encode cs))"
  using is_valid_mqtt_string_spec [of s] by (simp add: mqtt_utf8_def)

end
