(* ===== verification/Topic.thy ===== *)
theory Topic
  imports Utf8
begin

text \<open>
  \<^verbatim>\<open>include/mqtt/topic.hpp\<close> and \<^verbatim>\<open>src/topic.cpp\<close>: topic names, topic filters and the matching
  of MQTT 3.1.1 section 4.7. The routines scan the strings by index without building the list
  of levels; the specifications are stated over that list (\<open>levels\<close>).
\<close>

section \<open>The routines\<close>

abbreviation (input) slash :: u8 where "slash \<equiv> 0x2F"
abbreviation (input) plus_wild :: u8 where "plus_wild \<equiv> 0x2B"
abbreviation (input) hash_wild :: u8 where "hash_wild \<equiv> 0x23"
abbreviation (input) dollar :: u8 where "dollar \<equiv> 0x24"

definition is_valid_topic_name :: "bytes \<Rightarrow> bool" where
  "is_valid_topic_name name =
     (if name = [] \<or> 65535 < length name then False
      else if \<not> is_valid_mqtt_string name then False
      else list_all (\<lambda>c. \<not> (c = plus_wild \<or> c = hash_wild \<or> c = 0)) name)"

text \<open>The inner loop of the filter check: no wildcard among the characters \<open>[j, i)\<close>.\<close>

function level_no_wildcard :: "bytes \<Rightarrow> nat \<Rightarrow> nat \<Rightarrow> bool" where
  "level_no_wildcard filt j i =
     (if j < i then
        (if filt ! j = plus_wild \<or> filt ! j = hash_wild then False
         else level_no_wildcard filt (Suc j) i)
      else True)"
  by pat_completeness auto
termination by (relation "measure (\<lambda>(filt, j, i). i - j)") auto

declare level_no_wildcard.simps [simp del]

function filter_loop :: "bytes \<Rightarrow> nat \<Rightarrow> nat \<Rightarrow> bool" where
  "filter_loop filt i level_start =
     (if i \<le> length filt then
        let at_end = (i = length filt) in
        if \<not> at_end \<and> filt ! i \<noteq> slash then
          (if filt ! i = 0 then False else filter_loop filt (Suc i) level_start)
        else
          let level_len = i - level_start in
          if 1 < level_len \<and> \<not> level_no_wildcard filt level_start i then False
          else if \<not> 1 < level_len \<and> level_len = 1 \<and> filt ! level_start = hash_wild \<and> \<not> at_end
          then False
          else filter_loop filt (Suc i) (Suc i)
      else True)"
  by pat_completeness auto
termination by (relation "measure (\<lambda>(filt, i, level_start). Suc (length filt) - i)") auto

declare filter_loop.simps [simp del]

definition is_valid_filter :: "bytes \<Rightarrow> bool" where
  "is_valid_filter filt =
     (if filt = [] \<or> 65535 < length filt then False
      else if \<not> is_valid_mqtt_string filt then False
      else filter_loop filt 0 0)"

text \<open>The scan to the end of a level, shared by the two strings of the matcher.\<close>

function level_end :: "bytes \<Rightarrow> nat \<Rightarrow> nat" where
  "level_end s i = (if i < length s \<and> s ! i \<noteq> slash then level_end s (Suc i) else i)"
  by pat_completeness auto
termination by (relation "measure (\<lambda>(s, i). length s - i)") auto

declare level_end.simps [simp del]

lemma level_end_ge: "i \<le> level_end s i"
  by (induction s i rule: level_end.induct) (subst level_end.simps, auto)

definition substr :: "bytes \<Rightarrow> nat \<Rightarrow> nat \<Rightarrow> bytes" where
  "substr s pos n = take n (drop pos s)"

function match_loop :: "bytes \<Rightarrow> bytes \<Rightarrow> nat \<Rightarrow> nat \<Rightarrow> bool" where
  "match_loop filt topic f t =
     (let f_end = level_end filt f;
          f_level = substr filt f (f_end - f) in
      if length f_level = 1 \<and> f_level ! 0 = hash_wild then True
      else
        let t_end = level_end topic t;
            t_level = substr topic t (t_end - t) in
        if \<not> (length f_level = 1 \<and> f_level ! 0 = plus_wild) \<and> f_level \<noteq> t_level then False
        else
          let f_more = (f_end < length filt);
              t_more = (t_end < length topic) in
          if \<not> f_more \<and> \<not> t_more then True
          else if \<not> f_more \<and> t_more then False
          else if f_more \<and> \<not> t_more then
            (let rest = drop (f_end + 1) filt in length rest = 1 \<and> rest ! 0 = hash_wild)
          else match_loop filt topic (f_end + 1) (t_end + 1))"
  by pat_completeness auto
termination
proof (relation "measure (\<lambda>(filt, topic, f, t). length filt - f)", goal_cases)
  case (2 filt topic f t f_end)
  then have "f_end < length filt" by blast
  moreover have "f \<le> f_end" using 2 level_end_ge by blast
  ultimately show ?case by simp
qed simp

declare match_loop.simps [simp del]

definition topic_matches :: "bytes \<Rightarrow> bytes \<Rightarrow> bool" where
  "topic_matches filt topic =
     (if filt = [] \<or> topic = [] then False
      else if topic ! 0 = dollar \<and> (filt ! 0 = plus_wild \<or> filt ! 0 = hash_wild) then False
      else match_loop filt topic 0 0)"

section \<open>Levels\<close>

text \<open>The levels of a string: what lies between its separators (section 4.7.1.1). A string with
  no separator is one level, and levels may be empty.\<close>

fun levels :: "bytes \<Rightarrow> bytes list" where
  "levels [] = [[]]"
| "levels (c # cs) =
     (if c = slash then [] # levels cs
      else case levels cs of l # ls \<Rightarrow> (c # l) # ls | [] \<Rightarrow> [[c]])"

lemma levels_nonempty [simp]: "levels s \<noteq> []"
  by (induction s) (auto split: list.splits)

lemma levels_no_slash: "l \<in> set (levels s) \<Longrightarrow> slash \<notin> set l"
  by (induction s arbitrary: l) (fastforce split: list.splits if_splits)+

lemma level_end_le: "i \<le> length s \<Longrightarrow> level_end s i \<le> length s"
  by (induction s i rule: level_end.induct) (subst level_end.simps, auto)

lemma levels_drop:
  "i \<le> length s \<Longrightarrow> levels (drop i s) = substr s i (level_end s i - i) #
     (if level_end s i < length s then levels (drop (Suc (level_end s i)) s) else [])"
proof (induction s i rule: level_end.induct)
  case (1 s i)
  show ?case
  proof (cases "i < length s \<and> s ! i \<noteq> slash")
    case True
    then have e: "level_end s i = level_end s (Suc i)" by (subst level_end.simps) simp
    have ge: "Suc i \<le> level_end s (Suc i)" by (rule level_end_ge)
    have d: "drop i s = s ! i # drop (Suc i) s" using True by (simp add: Cons_nth_drop_Suc)
    have "level_end s i - i = Suc (level_end s (Suc i) - Suc i)" using e ge by simp
    then show ?thesis using True 1 e by (simp add: d substr_def)
  next
    case False
    then have e: "level_end s i = i" by (auto simp: level_end.simps [of s i])
    show ?thesis
    proof (cases "i < length s")
      case True
      then have "drop i s = slash # drop (Suc i) s" using False Cons_nth_drop_Suc by metis
      then show ?thesis using True by (simp add: e substr_def)
    qed (use 1 e in \<open>simp add: substr_def\<close>)
  qed
qed

section \<open>Topic filters\<close>

text \<open>What section 4.7.1 asks of the levels of a filter: a wildcard fills its level, and the
  multi-level wildcard is the last level.\<close>

abbreviation wildcards :: "u8 set" where "wildcards \<equiv> {plus_wild, hash_wild}"

definition level_ok :: "bytes \<Rightarrow> bool" where
  "level_ok l \<longleftrightarrow> set l \<inter> wildcards = {} \<or> length l = 1"

fun filter_levels_ok :: "bytes list \<Rightarrow> bool" where
  "filter_levels_ok [] = True"
| "filter_levels_ok (l # ls) = (level_ok l \<and> (l = [hash_wild] \<longrightarrow> ls = []) \<and> filter_levels_ok ls)"

lemma filter_levels_ok_iff:
  "filter_levels_ok ls \<longleftrightarrow>
     (\<forall>k < length ls. level_ok (ls ! k) \<and> (ls ! k = [hash_wild] \<longrightarrow> Suc k = length ls))"
proof (induction ls)
  case (Cons l ls)
  show ?case unfolding filter_levels_ok.simps Cons.IH
    by (auto simp: All_less_Suc2 length_Suc_conv)
qed simp

lemma level_no_wildcard_iff:
  "i \<le> length filt \<Longrightarrow>
     level_no_wildcard filt j i \<longleftrightarrow> set (substr filt j (i - j)) \<inter> wildcards = {}"
proof (induction filt j i rule: level_no_wildcard.induct)
  case (1 filt j i)
  show ?case
  proof (cases "j < i")
    case True
    then have "i - j = Suc (i - Suc j)" "drop j filt = filt ! j # drop (Suc j) filt"
      using 1 by (simp_all add: Cons_nth_drop_Suc)
    then show ?thesis using True 1 by (simp add: level_no_wildcard.simps [of filt j i] substr_def)
  qed (simp add: level_no_wildcard.simps [of filt j i] substr_def)
qed

lemma filter_loop_scan:
  assumes "0 \<notin> set filt" and "i \<le> length filt"
  shows "filter_loop filt i ls = filter_loop filt (level_end filt i) ls"
  using assms
proof (induction filt i rule: level_end.induct)
  case (1 filt i)
  show ?case
  proof (cases "i < length filt \<and> filt ! i \<noteq> slash")
    case True
    then have "filt ! i \<noteq> 0" using 1 by (metis nth_mem)
    then show ?thesis using True 1
      by (simp add: level_end.simps [of filt i] filter_loop.simps [of filt i])
  qed (auto simp: level_end.simps [of filt i])
qed

lemma substr_single_iff:
  "i < length s \<Longrightarrow> substr s i 1 = [c] \<longleftrightarrow> s ! i = c"
  by (simp add: substr_def take_Suc_conv_app_nth flip: Cons_nth_drop_Suc)

lemma length_substr: "pos + n \<le> length s \<Longrightarrow> length (substr s pos n) = n"
  by (simp add: substr_def)

lemma level_end_stop: "level_end s i < length s \<Longrightarrow> s ! level_end s i = slash"
proof (induction s i rule: level_end.induct)
  case (1 s i)
  then show ?case using level_end.simps [of s i] by (cases "i < length s \<and> s ! i \<noteq> slash") auto
qed

lemma filter_loop_step:
  assumes "0 \<notin> set filt" and "i \<le> length filt" and e: "e = level_end filt i"
  shows "filter_loop filt i i \<longleftrightarrow> level_ok (substr filt i (e - i)) \<and>
     (substr filt i (e - i) = [hash_wild] \<longrightarrow> e = length filt) \<and> filter_loop filt (Suc e) (Suc e)"
proof -
  have le: "e \<le> length filt" "i \<le> e" using assms level_end_le level_end_ge by auto
  have stop: "e = length filt \<or> filt ! e = slash" using le(1) level_end_stop [of filt i] e by force
  have one: "substr filt i (e - i) = [hash_wild] \<longleftrightarrow> e - i = 1 \<and> filt ! i = hash_wild"
  proof
    assume h: "substr filt i (e - i) = [hash_wild]"
    then have "e - i = 1" using le length_substr [of i "e - i" filt] by simp
    then show "e - i = 1 \<and> filt ! i = hash_wild" using h le substr_single_iff [of i filt] by simp
  qed (use le substr_single_iff [of i filt] in auto)
  have "filter_loop filt i i = filter_loop filt e i" using filter_loop_scan assms by simp
  also have "\<dots> \<longleftrightarrow> (1 < e - i \<longrightarrow> level_no_wildcard filt i e) \<and>
      (e - i = 1 \<and> filt ! i = hash_wild \<longrightarrow> e = length filt) \<and> filter_loop filt (Suc e) (Suc e)"
    using le stop by (auto simp: filter_loop.simps [of filt e] Let_def)
  also have "(1 < e - i \<longrightarrow> level_no_wildcard filt i e) \<longleftrightarrow> level_ok (substr filt i (e - i))"
  proof (cases "e - i = 0")
    case False
    then show ?thesis
      using le level_no_wildcard_iff [of e filt i] length_substr [of i "e - i" filt]
      by (auto simp: level_ok_def)
  qed (simp add: level_ok_def substr_def)
  finally show ?thesis unfolding one .
qed

lemma filter_loop_levels:
  assumes "0 \<notin> set filt"
  shows "i \<le> length filt \<Longrightarrow> filter_loop filt i i \<longleftrightarrow> filter_levels_ok (levels (drop i filt))"
proof (induction "length filt - i" arbitrary: i rule: less_induct)
  case less
  let ?e = "level_end filt i"
  have le: "?e \<le> length filt" "i \<le> ?e" using less level_end_le level_end_ge by auto
  note step = filter_loop_step [OF assms less.prems refl] levels_drop [OF less.prems]
  show ?case
  proof (cases "?e < length filt")
    case True
    then show ?thesis unfolding step using le by (simp add: less.hyps)
  next
    case False
    then have "filter_loop filt (Suc ?e) (Suc ?e)" by (subst filter_loop.simps) simp
    then show ?thesis unfolding step using False le by simp
  qed
qed

lemma is_valid_filter_spec:
  "is_valid_filter filt \<longleftrightarrow>
     filt \<noteq> [] \<and> length filt \<le> 65535 \<and> mqtt_utf8 filt \<and> filter_levels_ok (levels filt)"
  using filter_loop_levels [of filt 0] mqtt_utf8_no_nul [of filt]
  by (auto simp: is_valid_filter_def is_valid_mqtt_string_spec)

lemma is_valid_topic_name_spec:
  "is_valid_topic_name name \<longleftrightarrow>
     name \<noteq> [] \<and> length name \<le> 65535 \<and> mqtt_utf8 name \<and> set name \<inter> wildcards = {}"
  using mqtt_utf8_no_nul [of name]
  by (auto simp: is_valid_topic_name_def is_valid_mqtt_string_spec list_all_iff)

section \<open>Matching\<close>

text \<open>The matching of section 4.7.1 on the levels, by recursion.\<close>

fun match_levels :: "bytes list \<Rightarrow> bytes list \<Rightarrow> bool" where
  "match_levels (f # fs) ts =
     (f = [hash_wild] \<or>
      (case ts of [] \<Rightarrow> False
       | t # ts' \<Rightarrow> (f = [plus_wild] \<or> f = t) \<and> match_levels fs ts'))"
| "match_levels [] ts = (ts = [])"

lemma levels_join:
  "levels s = [l] \<Longrightarrow> s = l"
  by (induction s arbitrary: l) (auto split: list.splits if_splits)

lemma levels_hash_iff: "levels s = [[hash_wild]] \<longleftrightarrow> s = [hash_wild]"
  using levels_join by fastforce

lemma length_one_iff:
  "length l = 1 \<and> l ! 0 = c \<longleftrightarrow> l = [c]" "length l = Suc 0 \<and> l ! 0 = c \<longleftrightarrow> l = [c]"
  by (auto simp: length_Suc_conv)

lemma match_loop_levels:
  assumes "filter_levels_ok (levels (drop f filt))" and "f \<le> length filt" and "t \<le> length topic"
  shows "match_loop filt topic f t \<longleftrightarrow> match_levels (levels (drop f filt)) (levels (drop t topic))"
  using assms
proof (induction filt topic f t rule: match_loop.induct)
  case (1 filt topic f t)
  let ?e = "level_end filt f" and ?u = "level_end topic t"
  let ?fl = "substr filt f (?e - f)" and ?tl = "substr topic t (?u - t)"
  have le: "?e \<le> length filt" "?u \<le> length topic" using 1 level_end_le by auto
  note lv = levels_drop [OF "1.prems"(2)] levels_drop [OF "1.prems"(3)]
  have hash: "match_levels (levels s) [] \<longleftrightarrow> s = [hash_wild]" if "filter_levels_ok (levels s)" for s
    using that levels_hash_iff [of s] by (cases "levels s") auto
  have IH: "match_loop filt topic (Suc ?e) (Suc ?u) \<longleftrightarrow>
      match_levels (levels (drop (Suc ?e) filt)) (levels (drop (Suc ?u) topic))"
    if "?fl \<noteq> [hash_wild]" "?fl = [plus_wild] \<or> ?fl = ?tl" "?e < length filt" "?u < length topic"
  proof -
    have "filter_levels_ok (levels (drop (Suc ?e) filt))" using "1.prems" lv that by simp
    then show ?thesis
      using "1.IH" [of ?e ?fl ?u ?tl True True, simplified length_one_iff] that le by simp
  qed
  show ?case
    unfolding match_loop.simps [of filt topic f t] Let_def length_one_iff lv
    using "1.prems" le lv hash [of "drop (Suc ?e) filt"] IH by (simp split: if_splits)
qed

lemma match_levels_iff:
  "filter_levels_ok fs \<Longrightarrow> fs \<noteq> [] \<Longrightarrow> match_levels fs ts \<longleftrightarrow>
     (if last fs = [hash_wild]
      then length fs \<le> Suc (length ts) \<and>
           (\<forall>k < length fs - 1. fs ! k = [plus_wild] \<or> fs ! k = ts ! k)
      else length fs = length ts \<and> (\<forall>k < length fs. fs ! k = [plus_wild] \<or> fs ! k = ts ! k))"
proof (induction fs ts rule: match_levels.induct)
  case (1 f fs ts)
  show ?case
  proof (cases "fs = [] \<or> ts = []")
    case True
    then show ?thesis using "1.prems" by (cases ts) (auto simp: Suc_le_eq)
  next
    case False
    then obtain t ts' where ts: "ts = t # ts'" by (cases ts) auto
    have "f \<noteq> [hash_wild]" "filter_levels_ok fs" using "1.prems" False by auto
    moreover from False obtain n where "length fs = Suc n" by (cases fs) auto
    ultimately show ?thesis using 1 False by (auto simp: ts All_less_Suc2)
  qed
qed simp

lemma levels_concat: "levels s = l # ls \<Longrightarrow> s = l @ concat (map (Cons slash) ls)"
  by (induction s arbitrary: l ls) (auto split: list.splits if_splits)

lemma levels_inject: "levels s = levels t \<Longrightarrow> s = t"
  using levels_concat by (metis list.exhaust levels_nonempty)

lemma levels_subset: "l \<in> set (levels s) \<Longrightarrow> set l \<subseteq> set s"
  by (induction s arbitrary: l) (fastforce split: list.splits if_splits)+

lemma no_wildcard_levels:
  assumes "set s \<inter> wildcards = {}"
  shows "filter_levels_ok (levels s)" and "last (levels s) \<noteq> [hash_wild]"
    and "k < length (levels s) \<Longrightarrow> levels s ! k \<noteq> [plus_wild]"
proof -
  have n: "set l \<inter> wildcards = {}" if "l \<in> set (levels s)" for l
    using that levels_subset assms by blast
  then have w: "l \<noteq> [plus_wild]" "l \<noteq> [hash_wild]" if "l \<in> set (levels s)" for l
    using that by fastforce+
  show "filter_levels_ok (levels s)" using n w nth_mem
    by (fastforce simp: filter_levels_ok_iff level_ok_def)
  show "last (levels s) \<noteq> [hash_wild]" using w by simp
  show "k < length (levels s) \<Longrightarrow> levels s ! k \<noteq> [plus_wild]" using w by simp
qed

lemma topic_matches_levels:
  assumes "filter_levels_ok (levels filt)"
  shows "topic_matches filt topic \<longleftrightarrow> filt \<noteq> [] \<and> topic \<noteq> [] \<and>
     \<not> (hd topic = dollar \<and> hd filt \<in> wildcards) \<and> match_levels (levels filt) (levels topic)"
  using match_loop_levels [of 0 filt 0 topic] assms
  by (auto simp: topic_matches_def hd_conv_nth)

section \<open>Properties\<close>

text \<open>C37: A subscription filter is accepted exactly when it is a non-empty MQTT UTF-8 string of
  at most 65535 bytes in which every level that contains a wildcard consists of that one
  character and \<open>#\<close> occurs only as the last level.\<close>

theorem valid_filter_iff:
  "is_valid_filter filt \<longleftrightarrow>
     filt \<noteq> [] \<and> length filt \<le> 65535 \<and> mqtt_utf8 filt \<and>
     (\<forall>k < length (levels filt).
        (plus_wild \<in> set (levels filt ! k) \<longrightarrow> levels filt ! k = [plus_wild]) \<and>
        (hash_wild \<in> set (levels filt ! k) \<longrightarrow>
           levels filt ! k = [hash_wild] \<and> Suc k = length (levels filt)))"
proof -
  have "level_ok l \<and> (l = [hash_wild] \<longrightarrow> P) \<longleftrightarrow>
      (plus_wild \<in> set l \<longrightarrow> l = [plus_wild]) \<and> (hash_wild \<in> set l \<longrightarrow> l = [hash_wild] \<and> P)" for l P
    by (auto simp: level_ok_def length_Suc_conv)
  then show ?thesis unfolding is_valid_filter_spec filter_levels_ok_iff by simp
qed

theorem valid_filter_iff_witness:
  "hash_wild \<in> set (levels [0x23, 0x2F, 0x61] ! 0) \<and> \<not> is_valid_filter [0x23, 0x2F, 0x61]"
proof -
  have "levels [0x23, 0x2F, 0x61] = [[0x23], [0x61]]" by code_simp
  then show ?thesis using valid_filter_iff [of "[0x23, 0x2F, 0x61]"] by auto
qed

text \<open>C36: For a valid filter and any topic, \<open>topic_matches\<close> computes the matching of section 4.7
  on the lists of levels: level by level, \<open>+\<close> stands for exactly one level, a final \<open>#\<close> for any
  number of further levels including none (so the parent level matches too), every other level
  must be equal, and a topic that starts with \<open>$\<close> is not matched by a filter that starts with a
  wildcard.\<close>

theorem topic_matches_iff:
  assumes "is_valid_filter filt" and "topic \<noteq> []"
  shows "topic_matches filt topic \<longleftrightarrow>
     \<not> (hd topic = dollar \<and> hd filt \<in> {plus_wild, hash_wild}) \<and>
     (let fs = levels filt; ts = levels topic;
          agree = (\<lambda>k. fs ! k = [plus_wild] \<or> fs ! k = ts ! k) in
      if last fs = [hash_wild]
      then length fs - 1 \<le> length ts \<and> (\<forall>k < length fs - 1. agree k)
      else length fs = length ts \<and> (\<forall>k < length fs. agree k))"
proof -
  have ok: "filter_levels_ok (levels filt)" "filt \<noteq> []" using assms by (auto simp: is_valid_filter_spec)
  then show ?thesis using assms(2) match_levels_iff [OF ok(1), of "levels topic"]
    by (auto simp: topic_matches_levels Let_def)
qed

theorem topic_matches_iff_witness:
  "is_valid_filter [0x61, 0x2F, 0x23] \<and> topic_matches [0x61, 0x2F, 0x23] [0x61]"
proof -
  have "is_valid_mqtt_string [0x61, 0x2F, 0x23]" "filter_loop [0x61, 0x2F, 0x23] 0 0" by code_simp+
  then have f: "is_valid_filter [0x61, 0x2F, 0x23]" by (simp add: is_valid_filter_def)
  have "levels [0x61, 0x2F, 0x23] = [[0x61], [0x23]]" "levels [0x61] = [[0x61]]" by code_simp+
  then show ?thesis using f topic_matches_iff [of "[0x61, 0x2F, 0x23]" "[0x61]"] by simp
qed

text \<open>A valid topic name used as a filter is a valid filter and matches that one topic and
  no other, names with empty levels, trailing separators and a leading \<open>$\<close> included.\<close>

lemma topic_name_matches_itself_only:
  assumes "is_valid_topic_name name"
  shows "is_valid_filter name \<and> (topic_matches name topic \<longleftrightarrow> topic = name)"
proof -
  note n = assms [unfolded is_valid_topic_name_spec]
  note lv = no_wildcard_levels [of name]
  have v: "is_valid_filter name" using n lv by (auto simp: is_valid_filter_spec)
  have "match_levels (levels name) (levels topic) \<longleftrightarrow> levels name = levels topic"
    using n lv match_levels_iff [of "levels name" "levels topic"] by (auto intro: nth_equalityI)
  moreover have "hd name \<notin> wildcards" using n by (metis disjoint_iff hd_in_set)
  ultimately show ?thesis
    using v n lv levels_inject [of name topic] by (auto simp: topic_matches_levels)
qed

lemma topic_name_matches_itself_only_example:
  "is_valid_topic_name [0x24, 0x53, 0x2F] \<and> topic_matches [0x24, 0x53, 0x2F] [0x24, 0x53, 0x2F]"
proof -
  have "is_valid_mqtt_string [0x24, 0x53, 0x2F]" by code_simp
  then have "is_valid_topic_name [0x24, 0x53, 0x2F]" by (simp add: is_valid_topic_name_def)
  then show ?thesis using topic_name_matches_itself_only [of "[0x24, 0x53, 0x2F]"] by simp
qed

end
