(* ===== verification/Codec.thy ===== *)
theory Codec
  imports Streams Topic
begin

text \<open>
  \<^verbatim>\<open>include/mqtt/codec.hpp\<close> and \<^verbatim>\<open>src/codec.cpp\<close>: the definitions of the packet encoders and
  decoders. An encoder returns its result with the bytes of the target span afterwards; a
  function on a stream passed by reference returns its error with the stream. Lengths are
  added on 64-bit words with the check the code makes.
\<close>

section \<open>Length arithmetic\<close>

definition kNetworkOrder :: endian where "kNetworkOrder = big_endian"

definition kMaxStringLen :: nat where "kMaxStringLen = 65535"

definition checked_add :: "u32 \<Rightarrow> u64 \<Rightarrow> u32 option" where
  "checked_add tot add =
     (let sum = ucast tot + add in
      if sum > ucast kMaxRemainingLength then None else Some (ucast sum))"

text \<open>\<open>if (!checked_add(tot, n)) return e\<close>.\<close>

definition add_or :: "Error \<Rightarrow> u32 \<Rightarrow> u64 \<Rightarrow> u32 Result" where
  "add_or e tot n = (case checked_add tot n of None \<Rightarrow> Inl e | Some t \<Rightarrow> Inr t)"

definition valid_qos :: "QoS \<Rightarrow> bool" where "valid_qos q \<longleftrightarrow> q \<le> 2"

definition utf8_size :: "nat \<Rightarrow> u64" where "utf8_size len = 2 + word_of_nat len"

section \<open>Field helpers\<close>

definition write_fixed_header ::
  "('w, 'r) etl_ops \<Rightarrow> 'w \<Rightarrow> PacketType \<Rightarrow> u32 \<Rightarrow> bool \<Rightarrow> QoS \<Rightarrow> bool \<Rightarrow> Error \<times> 'w" where
  "write_fixed_header etl w ty remaining_length dup qos retain =
     (let h = \<lparr>h_type = ty, h_dup = dup, h_qos = qos, h_retain = retain,
               h_remaining_length = remaining_length\<rparr> in
      then_do (mqtt_write (wr_u8 etl w (to_byte h))) (\<lambda>w.
        case vbi_encode (replicate kMaxVbiBytes 0) remaining_length of (n, vbi) \<Rightarrow>
          (case n of Inl e \<Rightarrow> (e, w)
           | Inr n \<Rightarrow> mqtt_write (wr_bytes etl w (take n vbi)))))"

definition write_string :: "('w, 'r) etl_ops \<Rightarrow> 'w \<Rightarrow> bytes \<Rightarrow> Error \<times> 'w" where
  "write_string etl w s =
     (if length s > kMaxStringLen then (InvalidArgument, w)
      else then_do (mqtt_write (wr_u16 etl w (word_of_nat (length s)))) (\<lambda>w.
        if s \<noteq> [] then mqtt_write (wr_bytes etl w s) else (Ok, w)))"

definition write_binary :: "('w, 'r) etl_ops \<Rightarrow> 'w \<Rightarrow> bytes \<Rightarrow> Error \<times> 'w" where
  "write_binary etl w d =
     (if length d > kMaxStringLen then (InvalidArgument, w)
      else then_do (mqtt_write (wr_u16 etl w (word_of_nat (length d)))) (\<lambda>w.
        if d \<noteq> [] then mqtt_write (wr_bytes etl w d) else (Ok, w)))"

definition read_string :: "('w, 'r) etl_ops \<Rightarrow> 'r \<Rightarrow> bytes Result \<times> 'r" where
  "read_string etl r =
     (case rd_u16 etl r of
        (None, r) \<Rightarrow> (Inl MalformedPacket, r)
      | (Some len, r) \<Rightarrow>
          if len = 0 then (Inr [], r)
          else
            (case rd_chars etl r (unat len) of
               (None, r) \<Rightarrow> (Inl MalformedPacket, r)
             | (Some s, r) \<Rightarrow>
                 if \<not> is_valid_mqtt_string s then (Inl MalformedPacket, r) else (Inr s, r)))"

section \<open>Size computation\<close>

definition connect_remaining_length :: "ConnectOptions \<Rightarrow> u32 Result" where
  "connect_remaining_length opts =
     (if length (o_client_id opts) > kMaxStringLen then Inl InvalidArgument
      else if \<not> is_valid_mqtt_string (o_client_id opts) then Inl InvalidArgument
      else
        result_then (add_or InvalidArgument 0 (utf8_size 4 + 1 + 1 + 2)) (\<lambda>tot.
        result_then (add_or InvalidArgument tot (utf8_size (length (o_client_id opts)))) (\<lambda>tot.
        result_then
          (if will_valid (o_will opts) then
             (if \<not> valid_qos (w_qos (o_will opts)) then Inl InvalidArgument
              else if length (w_topic (o_will opts)) > kMaxStringLen
                      \<or> length (w_payload (o_will opts)) > kMaxStringLen
              then Inl InvalidArgument
              else if \<not> is_valid_mqtt_string (w_topic (o_will opts)) then Inl InvalidArgument
              else
                result_then (add_or InvalidArgument tot (utf8_size (length (w_topic (o_will opts)))))
                  (\<lambda>tot. add_or InvalidArgument tot (utf8_size (length (w_payload (o_will opts))))))
           else Inr tot) (\<lambda>tot.
        result_then
          (if o_username opts \<noteq> [] then
             (if length (o_username opts) > kMaxStringLen then Inl InvalidArgument
              else if \<not> is_valid_mqtt_string (o_username opts) then Inl InvalidArgument
              else add_or InvalidArgument tot (utf8_size (length (o_username opts))))
           else Inr tot) (\<lambda>tot.
        if o_password opts \<noteq> [] then
          (if o_username opts = [] then Inl InvalidArgument
           else if length (o_password opts) > kMaxStringLen then Inl InvalidArgument
           else add_or InvalidArgument tot (utf8_size (length (o_password opts))))
        else Inr tot)))))"

definition publish_remaining_length :: "bytes \<Rightarrow> nat \<Rightarrow> QoS \<Rightarrow> u32 Result" where
  "publish_remaining_length topic payload_len qos =
     (if topic = [] \<or> length topic > kMaxStringLen then Inl InvalidArgument
      else if \<not> valid_qos qos then Inl InvalidArgument
      else if \<not> is_valid_mqtt_string topic then Inl InvalidArgument
      else
        result_then (add_or InvalidArgument 0 (utf8_size (length topic))) (\<lambda>tot.
        result_then (if qos \<noteq> AtMostOnce then add_or InvalidArgument tot 2 else Inr tot) (\<lambda>tot.
        add_or PayloadTooLarge tot (word_of_nat payload_len))))"

text \<open>The loops over the requested filters, with the total so far.\<close>

fun subscribe_length_loop :: "u32 \<Rightarrow> TopicSubscription list \<Rightarrow> u32 Result" where
  "subscribe_length_loop tot [] = Inr tot"
| "subscribe_length_loop tot (s # subs) =
     (if t_filter s = [] \<or> length (t_filter s) > kMaxStringLen then Inl InvalidArgument
      else if \<not> is_valid_mqtt_string (t_filter s) then Inl InvalidArgument
      else if \<not> valid_qos (t_qos s) then Inl InvalidArgument
      else result_then (add_or InvalidArgument tot (utf8_size (length (t_filter s)) + 1))
        (\<lambda>tot. subscribe_length_loop tot subs))"

definition subscribe_remaining_length :: "TopicSubscription list \<Rightarrow> u32 Result" where
  "subscribe_remaining_length subs =
     (if subs = [] then Inl InvalidArgument else subscribe_length_loop 2 subs)"

fun unsubscribe_length_loop :: "u32 \<Rightarrow> bytes list \<Rightarrow> u32 Result" where
  "unsubscribe_length_loop tot [] = Inr tot"
| "unsubscribe_length_loop tot (f # filters) =
     (if f = [] \<or> length f > kMaxStringLen then Inl InvalidArgument
      else if \<not> is_valid_mqtt_string f then Inl InvalidArgument
      else result_then (add_or InvalidArgument tot (utf8_size (length f)))
        (\<lambda>tot. unsubscribe_length_loop tot filters))"

definition unsubscribe_remaining_length :: "bytes list \<Rightarrow> u32 Result" where
  "unsubscribe_remaining_length filters =
     (if filters = [] then Inl InvalidArgument else unsubscribe_length_loop 2 filters)"

section \<open>Encoding\<close>

definition connect_flags :: "ConnectOptions \<Rightarrow> u8" where
  "connect_flags opts =
     (let flags = 0;
          flags = (if o_clean_session opts then flags OR 0x02 else flags);
          flags = (if will_valid (o_will opts) then
                     (let flags = flags OR 0x04;
                          flags = flags OR push_bit 3 (w_qos (o_will opts) AND 0x03)
                      in if w_retain (o_will opts) then flags OR 0x20 else flags)
                   else flags);
          flags = (if o_password opts \<noteq> [] then flags OR 0x40 else flags)
      in if o_username opts \<noteq> [] then flags OR 0x80 else flags)"

definition encode_connect ::
  "('w, 'r) etl_ops \<Rightarrow> bytes \<Rightarrow> ConnectOptions \<Rightarrow> nat Result \<times> bytes" where
  "encode_connect etl out opts =
     (case connect_remaining_length opts of
        Inl e \<Rightarrow> (Inl e, out)
      | Inr rl \<Rightarrow>
          let w = wr_open etl out kNetworkOrder in
          finish etl
            (then_do (write_fixed_header etl w Connect rl False AtMostOnce False) (\<lambda>w.
             then_do (write_string etl w (lit ''MQTT'')) (\<lambda>w.
             then_do (mqtt_write (wr_u8 etl w kProtocolLevel_3_1_1)) (\<lambda>w.
             then_do (mqtt_write (wr_u8 etl w (connect_flags opts))) (\<lambda>w.
             then_do (mqtt_write (wr_u16 etl w (o_keep_alive_s opts))) (\<lambda>w.
             then_do (write_string etl w (o_client_id opts)) (\<lambda>w.
             then_do (if will_valid (o_will opts) then
                        then_do (write_string etl w (w_topic (o_will opts)))
                          (\<lambda>w. write_binary etl w (w_payload (o_will opts)))
                      else (Ok, w)) (\<lambda>w.
             then_do (if o_username opts \<noteq> [] then write_string etl w (o_username opts)
                      else (Ok, w)) (\<lambda>w.
             if o_password opts \<noteq> [] then write_binary etl w (o_password opts)
             else (Ok, w)))))))))))"

definition encode_publish ::
  "('w, 'r) etl_ops \<Rightarrow> bytes \<Rightarrow> bytes \<Rightarrow> bytes \<Rightarrow> QoS \<Rightarrow> bool \<Rightarrow> bool \<Rightarrow> u16 \<Rightarrow> nat Result \<times> bytes"
where
  "encode_publish etl out topic payload qos retain dup packet_id =
     (if qos \<noteq> AtMostOnce \<and> packet_id = 0 then (Inl InvalidArgument, out)
      else if qos = AtMostOnce \<and> dup then (Inl InvalidArgument, out)
      else
        (case publish_remaining_length topic (length payload) qos of
           Inl e \<Rightarrow> (Inl e, out)
         | Inr rl \<Rightarrow>
             let w = wr_open etl out kNetworkOrder in
             finish etl
               (then_do (write_fixed_header etl w Publish rl dup qos retain) (\<lambda>w.
                then_do (write_string etl w topic) (\<lambda>w.
                then_do (if qos \<noteq> AtMostOnce then mqtt_write (wr_u16 etl w packet_id)
                         else (Ok, w)) (\<lambda>w.
                if payload \<noteq> [] then mqtt_write (wr_bytes etl w payload) else (Ok, w)))))))"

definition encode_ack ::
  "('w, 'r) etl_ops \<Rightarrow> bytes \<Rightarrow> PacketType \<Rightarrow> u16 \<Rightarrow> nat Result \<times> bytes" where
  "encode_ack etl out ty packet_id =
     (if ty \<notin> {Puback, Pubrec, Pubrel, Pubcomp} then (Inl InvalidArgument, out)
      else if packet_id = 0 then (Inl InvalidArgument, out)
      else
        let w = wr_open etl out kNetworkOrder in
        finish etl
          (then_do (write_fixed_header etl w ty 2 False AtMostOnce False) (\<lambda>w.
           mqtt_write (wr_u16 etl w packet_id))))"

fun write_subscriptions ::
  "('w, 'r) etl_ops \<Rightarrow> TopicSubscription list \<Rightarrow> 'w \<Rightarrow> Error \<times> 'w" where
  "write_subscriptions etl [] w = (Ok, w)"
| "write_subscriptions etl (s # subs) w =
     then_do (then_do (write_string etl w (t_filter s)) (\<lambda>w. mqtt_write (wr_u8 etl w (t_qos s))))
       (write_subscriptions etl subs)"

definition encode_subscribe ::
  "('w, 'r) etl_ops \<Rightarrow> bytes \<Rightarrow> u16 \<Rightarrow> TopicSubscription list \<Rightarrow> nat Result \<times> bytes" where
  "encode_subscribe etl out packet_id subs =
     (if packet_id = 0 then (Inl InvalidArgument, out)
      else
        (case subscribe_remaining_length subs of
           Inl e \<Rightarrow> (Inl e, out)
         | Inr rl \<Rightarrow>
             let w = wr_open etl out kNetworkOrder in
             finish etl
               (then_do (write_fixed_header etl w Subscribe rl False AtMostOnce False) (\<lambda>w.
                then_do (mqtt_write (wr_u16 etl w packet_id)) (\<lambda>w.
                write_subscriptions etl subs w)))))"

fun write_filters :: "('w, 'r) etl_ops \<Rightarrow> bytes list \<Rightarrow> 'w \<Rightarrow> Error \<times> 'w" where
  "write_filters etl [] w = (Ok, w)"
| "write_filters etl (f # filters) w = then_do (write_string etl w f) (write_filters etl filters)"

definition encode_unsubscribe ::
  "('w, 'r) etl_ops \<Rightarrow> bytes \<Rightarrow> u16 \<Rightarrow> bytes list \<Rightarrow> nat Result \<times> bytes" where
  "encode_unsubscribe etl out packet_id filters =
     (if packet_id = 0 then (Inl InvalidArgument, out)
      else
        (case unsubscribe_remaining_length filters of
           Inl e \<Rightarrow> (Inl e, out)
         | Inr rl \<Rightarrow>
             let w = wr_open etl out kNetworkOrder in
             finish etl
               (then_do (write_fixed_header etl w Unsubscribe rl False AtMostOnce False) (\<lambda>w.
                then_do (mqtt_write (wr_u16 etl w packet_id)) (\<lambda>w.
                write_filters etl filters w)))))"

definition encode_empty :: "('w, 'r) etl_ops \<Rightarrow> bytes \<Rightarrow> PacketType \<Rightarrow> nat Result \<times> bytes" where
  "encode_empty etl out ty =
     (if ty \<noteq> Pingreq \<and> ty \<noteq> Disconnect then (Inl InvalidArgument, out)
      else
        let w = wr_open etl out kNetworkOrder in
        finish etl (write_fixed_header etl w ty 0 False AtMostOnce False))"

section \<open>Decoding\<close>

record PacketPeek =
  p_header :: FixedHeader
  p_header_bytes :: nat
  p_total_bytes :: nat

definition peek_header :: "bytes \<Rightarrow> PacketPeek Result" where
  "peek_header ins =
     (if ins = [] then Inl Incomplete
      else
        result_then (from_byte (ins ! 0)) (\<lambda>h.
        result_then (vbi_decode (drop 1 ins)) (\<lambda>vbi.
        Inr \<lparr>p_header = h\<lparr>h_remaining_length := vd_value vbi\<rparr>,
             p_header_bytes = 1 + vd_bytes vbi,
             p_total_bytes = 1 + vd_bytes vbi + unat (vd_value vbi)\<rparr>)))"

definition decode_connack :: "bytes \<Rightarrow> ConnackInfo Result" where
  "decode_connack body =
     (if length body \<noteq> 2 then Inl MalformedPacket
      else if body ! 0 AND 0xFE \<noteq> 0 then Inl ProtocolViolation
      else if body ! 1 > connack_value NotAuthorized then Inl ProtocolViolation
      else if body ! 0 AND 0x01 \<noteq> 0 \<and> body ! 1 \<noteq> 0 then Inl ProtocolViolation
      else Inr \<lparr>k_code = connack_of (body ! 1), k_session_present = (body ! 0 AND 0x01 \<noteq> 0)\<rparr>)"

definition decode_publish ::
  "('w, 'r) etl_ops \<Rightarrow> FixedHeader \<Rightarrow> bytes \<Rightarrow> Message Result" where
  "decode_publish etl header body =
     (case read_string etl (rd_open etl body kNetworkOrder) of
        (Inl e, r) \<Rightarrow> Inl e
      | (Inr topic, r) \<Rightarrow>
          if topic = [] then Inl ProtocolViolation
          else
            let msg = \<lparr>m_topic = topic, m_payload = [], m_qos = h_qos header,
                       m_retain = h_retain header, m_dup = h_dup header, m_packet_id = 0\<rparr>;
                rest = (\<lambda>msg r. Inr (msg\<lparr>m_payload := drop (length body - rd_available etl r) body\<rparr>))
            in
            if h_qos header \<noteq> AtMostOnce then
              (case rd_u16 etl r of
                 (None, r) \<Rightarrow> Inl MalformedPacket
               | (Some pid, r) \<Rightarrow>
                   if pid = 0 then Inl ProtocolViolation
                   else rest (msg\<lparr>m_packet_id := pid\<rparr>) r)
            else if h_dup header then Inl ProtocolViolation
            else rest msg r)"

definition decode_packet_id :: "bytes \<Rightarrow> u16 Result" where
  "decode_packet_id body =
     (if length body \<noteq> 2 then Inl MalformedPacket
      else
        let pid = push_bit 8 (ucast (body ! 0)) OR ucast (body ! 1) in
        if pid = 0 then Inl ProtocolViolation else Inr pid)"

record SubackView =
  s_packet_id :: u16
  s_return_codes :: bytes

definition decode_suback :: "bytes \<Rightarrow> SubackView Result" where
  "decode_suback body =
     (if length body < 3 then Inl MalformedPacket
      else
        let pid = push_bit 8 (ucast (body ! 0)) OR ucast (body ! 1) in
        if pid = 0 then Inl ProtocolViolation
        else
          let codes = drop 2 body in
          if list_ex (\<lambda>c. c > 2 \<and> c \<noteq> kSubackFailure) codes then Inl ProtocolViolation
          else Inr \<lparr>s_packet_id = pid, s_return_codes = codes\<rparr>)"

end
