(* ===== verification/Codec_Wire.thy ===== *)
theory Codec_Wire
  imports Codec
begin

text \<open>
  The wire format of MQTT 3.1.1 as byte strings, and the proof that the encoders of \<open>Codec\<close>
  produce exactly these strings: the layout of each packet (section 3 of the standard) is a
  function from the packet's fields to bytes, and every encoder refines its layout for any
  byte streams that keep their contract.
\<close>

section \<open>Packet layouts\<close>

definition str_wire :: "bytes \<Rightarrow> bytes" where
  "str_wire s = be16 (word_of_nat (length s)) @ s"

definition packet_wire :: "FixedHeader \<Rightarrow> bytes \<Rightarrow> bytes" where
  "packet_wire h body = to_byte h # vbi_encode_loop (word_of_nat (length body)) @ body"

definition plain_header :: "PacketType \<Rightarrow> FixedHeader" where
  "plain_header ty = default_header\<lparr>h_type := ty\<rparr>"

definition connect_body :: "ConnectOptions \<Rightarrow> bytes" where
  "connect_body opts =
     str_wire (lit ''MQTT'') @ [kProtocolLevel_3_1_1] @ [connect_flags opts]
     @ be16 (o_keep_alive_s opts) @ str_wire (o_client_id opts)
     @ (if will_valid (o_will opts)
        then str_wire (w_topic (o_will opts)) @ str_wire (w_payload (o_will opts)) else [])
     @ (if o_username opts \<noteq> [] then str_wire (o_username opts) else [])
     @ (if o_password opts \<noteq> [] then str_wire (o_password opts) else [])"

definition publish_body :: "Message \<Rightarrow> bytes" where
  "publish_body m =
     str_wire (m_topic m) @ (if m_qos m \<noteq> AtMostOnce then be16 (m_packet_id m) else []) @ m_payload m"

definition publish_header :: "Message \<Rightarrow> FixedHeader" where
  "publish_header m = \<lparr>h_type = Publish, h_dup = m_dup m, h_qos = m_qos m, h_retain = m_retain m,
     h_remaining_length = word_of_nat (length (publish_body m))\<rparr>"

definition subscribe_body :: "u16 \<Rightarrow> TopicSubscription list \<Rightarrow> bytes" where
  "subscribe_body pid subs = be16 pid @ concat (map (\<lambda>s. str_wire (t_filter s) @ [t_qos s]) subs)"

definition unsubscribe_body :: "u16 \<Rightarrow> bytes list \<Rightarrow> bytes" where
  "unsubscribe_body pid filters = be16 pid @ concat (map str_wire filters)"

text \<open>The option sets and messages the protocol allows.\<close>

definition mqtt_text :: "bytes \<Rightarrow> bool" where
  "mqtt_text s \<longleftrightarrow> length s \<le> kMaxStringLen \<and> is_valid_mqtt_string s"

definition connect_ok :: "ConnectOptions \<Rightarrow> bool" where
  "connect_ok opts \<longleftrightarrow> mqtt_text (o_client_id opts)
     \<and> (will_valid (o_will opts) \<longrightarrow>
          w_qos (o_will opts) \<le> 2 \<and> mqtt_text (w_topic (o_will opts))
          \<and> length (w_payload (o_will opts)) \<le> kMaxStringLen)
     \<and> (o_username opts \<noteq> [] \<longrightarrow> mqtt_text (o_username opts))
     \<and> (o_password opts \<noteq> [] \<longrightarrow> o_username opts \<noteq> [] \<and> length (o_password opts) \<le> kMaxStringLen)"

definition publish_ok :: "Message \<Rightarrow> bool" where
  "publish_ok m \<longleftrightarrow> m_topic m \<noteq> [] \<and> mqtt_text (m_topic m) \<and> m_qos m \<le> 2
     \<and> (m_qos m \<noteq> AtMostOnce \<longrightarrow> m_packet_id m \<noteq> 0) \<and> (m_qos m = AtMostOnce \<longrightarrow> \<not> m_dup m)"

definition subscribe_ok :: "TopicSubscription list \<Rightarrow> bool" where
  "subscribe_ok subs \<longleftrightarrow> subs \<noteq> [] \<and>
     list_all (\<lambda>s. t_filter s \<noteq> [] \<and> mqtt_text (t_filter s) \<and> t_qos s \<le> 2) subs"

definition unsubscribe_ok :: "bytes list \<Rightarrow> bool" where
  "unsubscribe_ok filters \<longleftrightarrow> filters \<noteq> [] \<and> list_all (\<lambda>f. f \<noteq> [] \<and> mqtt_text f) filters"

abbreviation max_body :: nat where "max_body \<equiv> 268435455"

lemma length_str_wire [simp]: "length (str_wire s) = 2 + length s"
  by (simp add: str_wire_def)

section \<open>Length arithmetic\<close>

lemma unat_kMax [simp]: "unat kMaxRemainingLength = max_body"
  by (simp add: kMaxRemainingLength_def)

text \<open>On totals and summands that do not wrap, \<open>checked_add\<close> is bounded addition.\<close>

lemma checked_add_nat:
  assumes "n \<le> max_body" and "k < 2 ^ 63"
  shows "checked_add (word_of_nat n) (word_of_nat k) =
    (if n + k \<le> max_body then Some (word_of_nat (n + k)) else None)"
proof -
  have u: "ucast (word_of_nat n :: u32) = (word_of_nat n :: u64)"
    using assms by (intro word_unat_eq_iff [THEN iffD2])
      (simp add: unsigned_ucast_eq unat_of_nat take_bit_eq_mod)
  have s: "unat (word_of_nat n + word_of_nat k :: u64) = n + k"
    using assms by (simp add: unat_of_nat flip: of_nat_add)
  have "ucast (word_of_nat n + word_of_nat k :: u64) = (word_of_nat (n + k) :: u32)"
    by (intro word_unat_eq_iff [THEN iffD2])
      (simp add: unsigned_ucast_eq s unat_of_nat take_bit_eq_mod del: of_nat_add)
  moreover have "unat (ucast kMaxRemainingLength :: u64) = max_body"
    by (simp add: unsigned_ucast_eq kMaxRemainingLength_def)
  ultimately show ?thesis by (auto simp: checked_add_def u s Let_def word_less_nat_alt)
qed

lemma add_or_nat:
  assumes "n \<le> max_body" and "k < 2 ^ 63"
  shows "add_or e (word_of_nat n) (word_of_nat k) =
    (if n + k \<le> max_body then Inr (word_of_nat (n + k)) else Inl e)"
  using checked_add_nat [OF assms] by (simp add: add_or_def)

lemma add_or_Inl: "add_or e t n = Inl e' \<Longrightarrow> e' = e"
  by (auto simp: add_or_def split: option.splits)

lemma result_then_eq_iff:
  "result_then r f = Inl e \<longleftrightarrow> r = Inl e \<or> (\<exists>u. r = Inr u \<and> f u = Inl e)"
  "result_then r f = Inr v \<longleftrightarrow> (\<exists>u. r = Inr u \<and> f u = Inr v)"
  by (cases r; auto)+

lemma utf8_size_nat: "utf8_size n = word_of_nat (2 + n)"
  by (simp add: utf8_size_def)

lemma add_or_utf8:
  assumes "n \<le> max_body" and "k \<le> kMaxStringLen"
  shows "add_or e (word_of_nat n) (utf8_size k) =
    (if n + (2 + k) \<le> max_body then Inr (word_of_nat (n + (2 + k))) else Inl e)"
  unfolding utf8_size_nat using assms by (intro add_or_nat) (simp_all add: kMaxStringLen_def)

text \<open>The five fields of a CONNECT cannot reach the limit.\<close>

lemma add_or_utf8_small:
  assumes "n \<le> 5 * 65537" and "k \<le> kMaxStringLen"
  shows "add_or e (word_of_nat n) (utf8_size k) = Inr (word_of_nat (n + (2 + k)))"
  using assms add_or_utf8 [of n k e] by (simp add: kMaxStringLen_def)

lemma connect_fixed_part: "add_or InvalidArgument 0 (utf8_size 4 + 1 + 1 + 2) = Inr (word_of_nat 10)"
  by code_simp

lemma length_connect_body:
  "length (connect_body opts) = 12 + length (o_client_id opts)
     + (if will_valid (o_will opts)
        then 4 + length (w_topic (o_will opts)) + length (w_payload (o_will opts)) else 0)
     + (if o_username opts \<noteq> [] then 2 + length (o_username opts) else 0)
     + (if o_password opts \<noteq> [] then 2 + length (o_password opts) else 0)"
  by (simp add: connect_body_def lit_def)

lemma connect_body_bound: "connect_ok opts \<Longrightarrow> length (connect_body opts) \<le> 5 * 65537 + 10"
  unfolding length_connect_body connect_ok_def mqtt_text_def kMaxStringLen_def by auto

lemma connect_remaining_length_Inl: "connect_remaining_length opts = Inl e \<Longrightarrow> e = InvalidArgument"
  unfolding connect_remaining_length_def
  by (auto simp: result_then_eq_iff add_or_Inl split: if_splits)

lemma connect_remaining_length_Inr: "connect_remaining_length opts = Inr n \<Longrightarrow> connect_ok opts"
  unfolding connect_remaining_length_def connect_ok_def
  by (auto simp: result_then_eq_iff mqtt_text_def valid_qos_def split: if_splits)

lemma connect_remaining_length_spec:
  "connect_remaining_length opts =
     (if connect_ok opts then Inr (word_of_nat (length (connect_body opts))) else Inl InvalidArgument)"
proof -
  let ?w = "o_will opts"
  define n1 where "n1 = 10 + (2 + length (o_client_id opts))"
  define n2 where "n2 = (if will_valid ?w
    then n1 + (2 + length (w_topic ?w)) + (2 + length (w_payload ?w)) else n1)"
  define n3 where "n3 = (if o_username opts \<noteq> [] then n2 + (2 + length (o_username opts)) else n2)"
  have len: "length (connect_body opts) =
      (if o_password opts \<noteq> [] then n3 + (2 + length (o_password opts)) else n3)"
    by (simp add: length_connect_body n1_def n2_def n3_def)
  define W where "W = (word_of_nat :: nat \<Rightarrow> u32)"
  have fixed: "add_or InvalidArgument 0 (utf8_size 4 + 1 + 1 + 2) = Inr (W 10)"
    unfolding W_def by (rule connect_fixed_part)
  have step: "n \<le> 5 * 65537 \<Longrightarrow> k \<le> kMaxStringLen \<Longrightarrow>
      add_or InvalidArgument (W n) (utf8_size k) = Inr (W (n + (2 + k)))" for n k
    unfolding W_def by (rule add_or_utf8_small)
  note defs = connect_remaining_length_def fixed result_then_simps W_def [symmetric]
  show ?thesis
  proof (cases "connect_ok opts")
    case True
    then have "n1 \<le> 65547" "n2 \<le> 3 * 65537 + 10" "n3 \<le> 4 * 65537 + 10"
      by (auto simp: n1_def n2_def n3_def connect_ok_def mqtt_text_def kMaxStringLen_def)
    then show ?thesis using True unfolding defs len
      by (auto simp: connect_ok_def valid_qos_def mqtt_text_def n1_def n2_def n3_def step add.assoc)
  next
    case False
    then show ?thesis using connect_remaining_length_Inr connect_remaining_length_Inl
      by (cases "connect_remaining_length opts") auto
  qed
qed

lemma publish_remaining_length_spec:
  assumes "plen < 2 ^ 63"
  shows "publish_remaining_length topic plen qos =
    (let n = 2 + length topic + (if qos \<noteq> AtMostOnce then 2 else 0) + plen in
     if topic = [] \<or> \<not> mqtt_text topic \<or> \<not> qos \<le> 2 then Inl InvalidArgument
     else if n \<le> max_body then Inr (word_of_nat n) else Inl PayloadTooLarge)"
proof (cases "topic = [] \<or> \<not> mqtt_text topic \<or> \<not> qos \<le> 2")
  case False
  define W where "W = (word_of_nat :: nat \<Rightarrow> u32)"
  have s1: "add_or InvalidArgument 0 (utf8_size (length topic)) = Inr (W (2 + length topic))"
    unfolding W_def using False add_or_utf8_small [of 0 "length topic"] by (simp add: mqtt_text_def)
  have s2: "add_or InvalidArgument (W (2 + length topic)) 2 = Inr (W (2 + length topic + 2))"
    unfolding W_def using False add_or_nat [of "2 + length topic" 2 InvalidArgument]
    by (simp add: mqtt_text_def kMaxStringLen_def del: of_nat_add)
  have s3: "add_or PayloadTooLarge (W n) (word_of_nat plen) =
      (if n + plen \<le> max_body then Inr (W (n + plen)) else Inl PayloadTooLarge)"
    if "n \<le> 65539" for n
    unfolding W_def using that assms by (intro add_or_nat) simp_all
  show ?thesis unfolding publish_remaining_length_def s1 Let_def W_def [symmetric]
    using False by (auto simp: mqtt_text_def kMaxStringLen_def valid_qos_def s2 [simplified] s3)
qed (auto simp: publish_remaining_length_def mqtt_text_def valid_qos_def Let_def)

lemma length_subscribe_body:
  "length (subscribe_body pid subs) = 2 + sum_list (map (\<lambda>s. 3 + length (t_filter s)) subs)"
  by (simp add: subscribe_body_def length_concat o_def numeral_3_eq_3)

lemma length_unsubscribe_body:
  "length (unsubscribe_body pid fs) = 2 + sum_list (map (\<lambda>f. 2 + length f) fs)"
  by (simp add: unsubscribe_body_def length_concat o_def)

lemma subscribe_length_loop_spec:
  "n \<le> max_body \<Longrightarrow> subscribe_length_loop (word_of_nat n) subs =
     (if list_all (\<lambda>s. t_filter s \<noteq> [] \<and> mqtt_text (t_filter s) \<and> t_qos s \<le> 2) subs
         \<and> n + sum_list (map (\<lambda>s. 3 + length (t_filter s)) subs) \<le> max_body
      then Inr (word_of_nat (n + sum_list (map (\<lambda>s. 3 + length (t_filter s)) subs)))
      else Inl InvalidArgument)"
proof (induction subs arbitrary: n)
  case (Cons s subs)
  have u: "utf8_size (length (t_filter s)) + 1 = word_of_nat (3 + length (t_filter s))"
    by (simp add: utf8_size_def)
  have "mqtt_text (t_filter s) \<Longrightarrow>
      add_or InvalidArgument (word_of_nat n) (word_of_nat (3 + length (t_filter s))) =
      (if n + (3 + length (t_filter s)) \<le> max_body
       then Inr (word_of_nat (n + (3 + length (t_filter s)))) else Inl InvalidArgument)"
    using Cons.prems by (intro add_or_nat) (simp_all add: mqtt_text_def kMaxStringLen_def)
  then show ?case using Cons.IH [of "n + (3 + length (t_filter s))"]
    by (auto simp: u mqtt_text_def valid_qos_def add.assoc simp del: of_nat_add)
qed simp

lemma unsubscribe_length_loop_spec:
  "n \<le> max_body \<Longrightarrow> unsubscribe_length_loop (word_of_nat n) fs =
     (if list_all (\<lambda>f. f \<noteq> [] \<and> mqtt_text f) fs \<and> n + sum_list (map (\<lambda>f. 2 + length f) fs) \<le> max_body
      then Inr (word_of_nat (n + sum_list (map (\<lambda>f. 2 + length f) fs)))
      else Inl InvalidArgument)"
proof (induction fs arbitrary: n)
  case (Cons f fs)
  have "mqtt_text f \<Longrightarrow> add_or InvalidArgument (word_of_nat n) (utf8_size (length f)) =
      (if n + (2 + length f) \<le> max_body then Inr (word_of_nat (n + (2 + length f)))
       else Inl InvalidArgument)"
    using Cons.prems by (intro add_or_utf8) (simp_all add: mqtt_text_def)
  then show ?case using Cons.IH [of "n + (2 + length f)"]
    by (auto simp: mqtt_text_def add.assoc simp del: of_nat_add)
qed simp

lemma subscribe_remaining_length_spec:
  "subscribe_remaining_length subs =
     (if subscribe_ok subs \<and> length (subscribe_body pid subs) \<le> max_body
      then Inr (word_of_nat (length (subscribe_body pid subs))) else Inl InvalidArgument)"
  using subscribe_length_loop_spec [of 2 subs]
  by (auto simp: subscribe_remaining_length_def subscribe_ok_def length_subscribe_body)

lemma unsubscribe_remaining_length_spec:
  "unsubscribe_remaining_length fs =
     (if unsubscribe_ok fs \<and> length (unsubscribe_body pid fs) \<le> max_body
      then Inr (word_of_nat (length (unsubscribe_body pid fs))) else Inl InvalidArgument)"
  using unsubscribe_length_loop_spec [of 2 fs]
  by (auto simp: unsubscribe_remaining_length_def unsubscribe_ok_def length_unsubscribe_body)

section \<open>The encoders store the layouts\<close>

text \<open>What an encoder does with a layout: it stores it at the front of the target and returns
  its length, or it reports \<open>BufferTooSmall\<close> when the target is shorter than the layout.\<close>

definition stores :: "bytes \<Rightarrow> bytes \<Rightarrow> nat Result \<times> bytes \<Rightarrow> bool" where
  "stores wire out r \<longleftrightarrow>
     (if length wire \<le> length out then r = (Inr (length wire), write_at out 0 wire)
      else fst r = Inl BufferTooSmall \<and> length (snd r) = length out)"

lemma vbi_encode_four:
  "v \<le> kMaxRemainingLength \<Longrightarrow>
     \<exists>rest. vbi_encode (replicate kMaxVbiBytes 0) v = (Inr (length (vbi_encode_loop v)), vbi_encode_loop v @ rest)"
  by (auto simp: vbi_encode_def Let_def write_at_def kMaxVbiBytes_def vbi_size_def
      intro: order.strict_implies_order)

context byte_streams
begin

lemma emits_fixed_header:
  assumes "v \<le> kMaxRemainingLength"
  shows "emits etl (\<lambda>w. write_fixed_header etl w ty v dup qos retain)
    (to_byte \<lparr>h_type = ty, h_dup = dup, h_qos = qos, h_retain = retain, h_remaining_length = v\<rparr>
       # vbi_encode_loop v)"
proof -
  from vbi_encode_four [OF assms] obtain rest where
    "vbi_encode (replicate kMaxVbiBytes 0) v = (Inr (length (vbi_encode_loop v)), vbi_encode_loop v @ rest)"
    by blast
  then show ?thesis
    unfolding write_fixed_header_def Let_def
    using emits_seq [OF emits_u8 emits_bytes, of _ "vbi_encode_loop v"] by simp
qed

lemma emits_data: "emits etl (\<lambda>w. if s \<noteq> [] then mqtt_write (wr_bytes etl w s) else (Ok, w)) s"
  using emits_bytes [of s] emits_skip [of etl] by (cases "s = []") simp_all

lemma emits_string:
  assumes "length s \<le> kMaxStringLen"
  shows "emits etl (\<lambda>w. write_string etl w s) (str_wire s)"
    and "emits etl (\<lambda>w. write_binary etl w s) (str_wire s)"
  using assms emits_seq [OF emits_u16 emits_data, of "word_of_nat (length s)" s]
  by (simp_all add: write_string_def write_binary_def str_wire_def)

lemma emits_subscriptions:
  "list_all (\<lambda>s. t_filter s \<noteq> [] \<and> mqtt_text (t_filter s) \<and> t_qos s \<le> 2) subs \<Longrightarrow>
     emits etl (write_subscriptions etl subs)
       (concat (map (\<lambda>s. str_wire (t_filter s) @ [t_qos s]) subs))"
proof (induction subs)
  case Nil
  then show ?case using emits_skip by (simp add: write_subscriptions.simps [abs_def])
next
  case (Cons s subs)
  have "emits etl (\<lambda>w. then_do (write_string etl w (t_filter s)) (\<lambda>w. mqtt_write (wr_u8 etl w (t_qos s))))
      (str_wire (t_filter s) @ [t_qos s])"
    using Cons.prems by (intro emits_seq emits_string emits_u8) (simp add: mqtt_text_def)
  from emits_seq [OF this Cons.IH] Cons.prems show ?case by (simp add: write_subscriptions.simps [abs_def])
qed

lemma emits_filters:
  "list_all (\<lambda>f. f \<noteq> [] \<and> mqtt_text f) fs \<Longrightarrow> emits etl (write_filters etl fs) (concat (map str_wire fs))"
proof (induction fs)
  case Nil
  then show ?case using emits_skip by (simp add: write_filters.simps [abs_def])
next
  case (Cons f fs)
  then show ?case using emits_seq [OF emits_string(1) [of f] Cons.IH]
    by (simp add: write_filters.simps [abs_def] mqtt_text_def)
qed

lemma stores_emits:
  "emits etl f wire \<Longrightarrow> stores wire out (finish etl (f (wr_open etl out kNetworkOrder)))"
  using finish_emits [of f wire out] by (auto simp: stores_def kNetworkOrder_def)

text \<open>A header for a body of known length, followed by the body.\<close>

lemma emits_packet:
  assumes "length body \<le> max_body" and "emits etl g body"
    and "to_byte h = to_byte \<lparr>h_type = ty, h_dup = dup, h_qos = qos, h_retain = retain,
      h_remaining_length = word_of_nat (length body)\<rparr>"
  shows "emits etl (\<lambda>w. then_do (write_fixed_header etl w ty (word_of_nat (length body)) dup qos retain) g)
    (packet_wire h body)"
proof -
  have "word_of_nat (length body) \<le> kMaxRemainingLength"
    using assms(1) by (simp add: word_le_nat_alt unat_of_nat)
  from emits_seq [OF emits_fixed_header [OF this] assms(2)] show ?thesis
    by (simp add: packet_wire_def assms(3))
qed

lemma to_byte_plain:
  "to_byte (plain_header ty) =
     to_byte \<lparr>h_type = ty, h_dup = False, h_qos = AtMostOnce, h_retain = False, h_remaining_length = v\<rparr>"
  by (simp add: to_byte_def plain_header_def default_header_def Let_def)

lemma encode_publish_spec:
  fixes out :: bytes
  assumes m: "m = \<lparr>m_topic = topic, m_payload = payload, m_qos = qos, m_retain = retain, m_dup = dup,
      m_packet_id = pid\<rparr>" and "length payload < 2 ^ 63"
  defines "r \<equiv> encode_publish etl out topic payload qos retain dup pid"
  shows "\<not> publish_ok m \<Longrightarrow> r = (Inl InvalidArgument, out)"
    and "publish_ok m \<Longrightarrow> max_body < length (publish_body m) \<Longrightarrow> r = (Inl PayloadTooLarge, out)"
    and "publish_ok m \<Longrightarrow> length (publish_body m) \<le> max_body \<Longrightarrow>
      stores (packet_wire (publish_header m) (publish_body m)) out r"
proof -
  have len: "length (publish_body m) = 2 + length topic + (if qos \<noteq> AtMostOnce then 2 else 0) + length payload"
    by (simp add: publish_body_def m)
  note rl = publish_remaining_length_spec [OF assms(2)]
  show "\<not> publish_ok m \<Longrightarrow> r = (Inl InvalidArgument, out)"
    by (auto simp: r_def encode_publish_def rl publish_ok_def m Let_def)
  assume ok: "publish_ok m"
  have "max_body < length (publish_body m) \<Longrightarrow>
      publish_remaining_length topic (length payload) qos = Inl PayloadTooLarge"
    using ok len by (auto simp: rl publish_ok_def m Let_def)
  then show "max_body < length (publish_body m) \<Longrightarrow> r = (Inl PayloadTooLarge, out)"
    using ok by (auto simp: r_def encode_publish_def publish_ok_def m)
  assume l: "length (publish_body m) \<le> max_body"
  have g: "\<not> (qos \<noteq> AtMostOnce \<and> pid = 0)" "\<not> (qos = AtMostOnce \<and> dup)"
    using ok by (auto simp: publish_ok_def m)
  have rl': "publish_remaining_length topic (length payload) qos = Inr (word_of_nat (length (publish_body m)))"
    using l ok unfolding len rl by (simp add: Let_def publish_ok_def m)
  have "emits etl (\<lambda>w. then_do (write_string etl w topic) (\<lambda>w.
      then_do (if qos \<noteq> AtMostOnce then mqtt_write (wr_u16 etl w pid) else (Ok, w)) (\<lambda>w.
      if payload \<noteq> [] then mqtt_write (wr_bytes etl w payload) else (Ok, w)))) (publish_body m)"
    using ok unfolding publish_body_def m Message.simps
    by (intro emits_seq emits_string emits_if emits_u16 emits_skip emits_data)
      (simp add: publish_ok_def mqtt_text_def m)
  from emits_packet [OF l this, of "publish_header m" Publish dup qos retain]
  have "emits etl (\<lambda>w. then_do (write_fixed_header etl w Publish (word_of_nat (length (publish_body m))) dup qos retain)
      (\<lambda>w. then_do (write_string etl w topic) (\<lambda>w.
      then_do (if qos \<noteq> AtMostOnce then mqtt_write (wr_u16 etl w pid) else (Ok, w)) (\<lambda>w.
      if payload \<noteq> [] then mqtt_write (wr_bytes etl w payload) else (Ok, w)))))
      (packet_wire (publish_header m) (publish_body m))"
    by (simp add: publish_header_def m)
  from stores_emits [OF this, of out] show "stores (packet_wire (publish_header m) (publish_body m)) out r"
    unfolding r_def encode_publish_def rl' if_not_P [OF g(1)] if_not_P [OF g(2)] sum.case Let_def .
qed

lemma encode_connect_spec:
  "\<not> connect_ok opts \<Longrightarrow> encode_connect etl out opts = (Inl InvalidArgument, out)"
  "connect_ok opts \<Longrightarrow>
     stores (packet_wire (plain_header Connect) (connect_body opts)) out (encode_connect etl out opts)"
proof -
  show "\<not> connect_ok opts \<Longrightarrow> encode_connect etl out opts = (Inl InvalidArgument, out)"
    by (simp add: encode_connect_def connect_remaining_length_spec)
  assume ok: "connect_ok opts"
  then have l: "length (connect_body opts) \<le> max_body" using connect_body_bound by fastforce
  have "emits etl (\<lambda>w.
      then_do (write_string etl w (lit ''MQTT'')) (\<lambda>w.
      then_do (mqtt_write (wr_u8 etl w kProtocolLevel_3_1_1)) (\<lambda>w.
      then_do (mqtt_write (wr_u8 etl w (connect_flags opts))) (\<lambda>w.
      then_do (mqtt_write (wr_u16 etl w (o_keep_alive_s opts))) (\<lambda>w.
      then_do (write_string etl w (o_client_id opts)) (\<lambda>w.
      then_do (if will_valid (o_will opts) then
                 then_do (write_string etl w (w_topic (o_will opts)))
                   (\<lambda>w. write_binary etl w (w_payload (o_will opts)))
               else (Ok, w)) (\<lambda>w.
      then_do (if o_username opts \<noteq> [] then write_string etl w (o_username opts) else (Ok, w)) (\<lambda>w.
      if o_password opts \<noteq> [] then write_binary etl w (o_password opts) else (Ok, w)))))))))
      (connect_body opts)"
    using ok unfolding connect_body_def
    by (intro emits_seq emits_string emits_if emits_u16 emits_u8 emits_skip)
      (simp_all add: connect_ok_def mqtt_text_def kMaxStringLen_def lit_def)
  from stores_emits [OF emits_packet [OF l this to_byte_plain], where out = out] ok
  show "stores (packet_wire (plain_header Connect) (connect_body opts)) out (encode_connect etl out opts)"
    by (simp add: encode_connect_def connect_remaining_length_spec Let_def)
qed

lemma encode_subscribe_spec:
  "\<not> (pid \<noteq> 0 \<and> subscribe_ok subs \<and> length (subscribe_body pid subs) \<le> max_body) \<Longrightarrow>
     encode_subscribe etl out pid subs = (Inl InvalidArgument, out)"
  "pid \<noteq> 0 \<Longrightarrow> subscribe_ok subs \<Longrightarrow> length (subscribe_body pid subs) \<le> max_body \<Longrightarrow>
     stores (packet_wire (plain_header Subscribe) (subscribe_body pid subs)) out
       (encode_subscribe etl out pid subs)"
proof -
  note rl = subscribe_remaining_length_spec [of subs pid]
  show "\<not> (pid \<noteq> 0 \<and> subscribe_ok subs \<and> length (subscribe_body pid subs) \<le> max_body) \<Longrightarrow>
     encode_subscribe etl out pid subs = (Inl InvalidArgument, out)"
    by (auto simp: encode_subscribe_def rl)
  assume ok: "pid \<noteq> 0" "subscribe_ok subs" and l: "length (subscribe_body pid subs) \<le> max_body"
  have "emits etl (\<lambda>w. then_do (mqtt_write (wr_u16 etl w pid)) (\<lambda>w. write_subscriptions etl subs w))
      (subscribe_body pid subs)"
    using ok unfolding subscribe_body_def
    by (intro emits_seq emits_u16 emits_subscriptions) (simp add: subscribe_ok_def)
  from stores_emits [OF emits_packet [OF l this to_byte_plain], where out = out] ok l
  show "stores (packet_wire (plain_header Subscribe) (subscribe_body pid subs)) out
       (encode_subscribe etl out pid subs)"
    by (simp add: encode_subscribe_def rl Let_def)
qed

lemma encode_unsubscribe_spec:
  "\<not> (pid \<noteq> 0 \<and> unsubscribe_ok fs \<and> length (unsubscribe_body pid fs) \<le> max_body) \<Longrightarrow>
     encode_unsubscribe etl out pid fs = (Inl InvalidArgument, out)"
  "pid \<noteq> 0 \<Longrightarrow> unsubscribe_ok fs \<Longrightarrow> length (unsubscribe_body pid fs) \<le> max_body \<Longrightarrow>
     stores (packet_wire (plain_header Unsubscribe) (unsubscribe_body pid fs)) out
       (encode_unsubscribe etl out pid fs)"
proof -
  note rl = unsubscribe_remaining_length_spec [of fs pid]
  show "\<not> (pid \<noteq> 0 \<and> unsubscribe_ok fs \<and> length (unsubscribe_body pid fs) \<le> max_body) \<Longrightarrow>
     encode_unsubscribe etl out pid fs = (Inl InvalidArgument, out)"
    by (auto simp: encode_unsubscribe_def rl)
  assume ok: "pid \<noteq> 0" "unsubscribe_ok fs" and l: "length (unsubscribe_body pid fs) \<le> max_body"
  have "emits etl (\<lambda>w. then_do (mqtt_write (wr_u16 etl w pid)) (\<lambda>w. write_filters etl fs w))
      (unsubscribe_body pid fs)"
    using ok unfolding unsubscribe_body_def
    by (intro emits_seq emits_u16 emits_filters) (simp add: unsubscribe_ok_def)
  from stores_emits [OF emits_packet [OF l this to_byte_plain], where out = out] ok l
  show "stores (packet_wire (plain_header Unsubscribe) (unsubscribe_body pid fs)) out
       (encode_unsubscribe etl out pid fs)"
    by (simp add: encode_unsubscribe_def rl Let_def)
qed

lemma encode_ack_spec:
  "\<not> (ty \<in> {Puback, Pubrec, Pubrel, Pubcomp} \<and> pid \<noteq> 0) \<Longrightarrow>
     encode_ack etl out ty pid = (Inl InvalidArgument, out)"
  "ty \<in> {Puback, Pubrec, Pubrel, Pubcomp} \<Longrightarrow> pid \<noteq> 0 \<Longrightarrow>
     stores (packet_wire (plain_header ty) (be16 pid)) out (encode_ack etl out ty pid)"
proof -
  show "\<not> (ty \<in> {Puback, Pubrec, Pubrel, Pubcomp} \<and> pid \<noteq> 0) \<Longrightarrow>
     encode_ack etl out ty pid = (Inl InvalidArgument, out)"
    by (auto simp: encode_ack_def)
  have l: "length (be16 pid) \<le> max_body" by simp
  from stores_emits [OF emits_packet [OF l emits_u16 to_byte_plain], where out = out]
  show "ty \<in> {Puback, Pubrec, Pubrel, Pubcomp} \<Longrightarrow> pid \<noteq> 0 \<Longrightarrow>
     stores (packet_wire (plain_header ty) (be16 pid)) out (encode_ack etl out ty pid)"
    by (auto simp: encode_ack_def Let_def)
qed

lemma encode_empty_spec:
  "ty \<notin> {Pingreq, Disconnect} \<Longrightarrow> encode_empty etl out ty = (Inl InvalidArgument, out)"
  "ty \<in> {Pingreq, Disconnect} \<Longrightarrow>
     stores (packet_wire (plain_header ty) []) out (encode_empty etl out ty)"
proof -
  show "ty \<notin> {Pingreq, Disconnect} \<Longrightarrow> encode_empty etl out ty = (Inl InvalidArgument, out)"
    by (simp add: encode_empty_def)
  have "emits etl (\<lambda>w. write_fixed_header etl w ty 0 False AtMostOnce False) (packet_wire (plain_header ty) [])"
    using emits_fixed_header [of 0 ty False AtMostOnce False]
    by (simp add: packet_wire_def to_byte_plain [of ty 0])
  from stores_emits [OF this, of out]
  show "ty \<in> {Pingreq, Disconnect} \<Longrightarrow>
     stores (packet_wire (plain_header ty) []) out (encode_empty etl out ty)"
    by (auto simp: encode_empty_def Let_def)
qed

end

section \<open>Properties\<close>

lemma mqtt_text_ascii: "list_all (\<lambda>b. 0 < b \<and> b < 0x80) s \<Longrightarrow> length s \<le> 65535 \<Longrightarrow> mqtt_text s"
  using is_valid_mqtt_string_spec [of s] mqtt_utf8_ascii [of s]
  by (simp add: mqtt_text_def kMaxStringLen_def)



text \<open>The CONNECT flags byte (section 3.1.2.3): bit 1 is clean session, bit 2 the will flag,
  bits 3 and 4 the will's quality of service, bit 5 will retain, bit 6 the password flag and
  bit 7 the user name flag; the will bits are zero when there is no will, and the reserved bit 0
  is always zero.\<close>

lemma connect_flags_layout:
  "(bit (connect_flags opts) 1 \<longleftrightarrow> o_clean_session opts)
   \<and> (bit (connect_flags opts) 2 \<longleftrightarrow> will_valid (o_will opts))
   \<and> (bit (connect_flags opts) 3 \<longleftrightarrow> will_valid (o_will opts) \<and> bit (w_qos (o_will opts)) 0)
   \<and> (bit (connect_flags opts) 4 \<longleftrightarrow> will_valid (o_will opts) \<and> bit (w_qos (o_will opts)) 1)
   \<and> (bit (connect_flags opts) 5 \<longleftrightarrow> will_valid (o_will opts) \<and> w_retain (o_will opts))
   \<and> (bit (connect_flags opts) 6 \<longleftrightarrow> o_password opts \<noteq> [])
   \<and> (bit (connect_flags opts) 7 \<longleftrightarrow> o_username opts \<noteq> [])
   \<and> \<not> bit (connect_flags opts) 0"
  by (intro conjI) (auto simp: connect_flags_def Let_def bit_simps)





text \<open>The fixed packets. \<open>encode_ack\<close> stores the four bytes of PUBACK, PUBREC, PUBREL and
  PUBCOMP for any non-zero identifier, \<open>encode_empty\<close> the two bytes of PINGREQ and DISCONNECT;
  any other type, and identifier 0, is refused with the target untouched.\<close>

theorem encode_control_refines:
  assumes "byte_streams etl"
  shows "(if ty \<in> {Puback, Pubrec, Pubrel, Pubcomp} \<and> pid \<noteq> 0
     then stores ([to_byte (plain_header ty), 2] @ be16 pid) out (encode_ack etl out ty pid)
     else encode_ack etl out ty pid = (Inl InvalidArgument, out))
   \<and> (if ty \<in> {Pingreq, Disconnect}
     then stores [to_byte (plain_header ty), 0] out (encode_empty etl out ty)
     else encode_empty etl out ty = (Inl InvalidArgument, out))"
proof -
  have "vbi_encode_loop 2 = [2]" "vbi_encode_loop 0 = [0]" by (simp_all add: vbi_encode_loop.simps Let_def)
  then show ?thesis
    using byte_streams.encode_ack_spec [OF assms] byte_streams.encode_empty_spec [OF assms]
    by (simp add: packet_wire_def)
qed

theorem encode_control_refines_witness:
  "byte_streams list_streams \<and>
   encode_ack list_streams [0, 0, 0, 0] Pubrel 300 = (Inr 4, [0x62, 2, 1, 44]) \<and>
   encode_empty list_streams [9] Pingreq = (Inl BufferTooSmall, [0xC0])"
proof -
  have "to_byte (plain_header Pubrel) = 0x62" "be16 300 = [1, 44]" by code_simp+
  moreover have "encode_empty list_streams [9] Pingreq = (Inl BufferTooSmall, [0xC0])" by code_simp
  ultimately show ?thesis
    using encode_control_refines [OF lists.byte_streams_axioms, of Pubrel 300 "[0, 0, 0, 0]"]
    by (simp add: stores_def write_at_def lists.byte_streams_axioms)
qed

end
