(* ===== verification/Codec_Decode.thy ===== *)
theory Codec_Decode
  imports Codec_Wire
begin

text \<open>
  The decoders of \<open>Codec\<close> against the layouts of \<open>Codec_Wire\<close>: what a decoder accepts is
  exactly the layout of what it returns, so encoding and decoding are inverse to each other,
  and the framing that \<open>peek_header\<close> computes does not depend on how the stream was cut.
\<close>

section \<open>Framing\<close>

lemma be16_of_be16 [simp]: "be16 (of_be16 a b) = [a, b]"
  unfolding be16_def of_be16_def
  by (simp, intro conjI; rule bit_word_eqI) (auto simp: bit_simps dest: bit_imp_le_length)

lemma header_remaining_length [simp]:
  "to_byte (h\<lparr>h_remaining_length := v\<rparr>) = to_byte h"
  "header_ok (h\<lparr>h_remaining_length := v\<rparr>) = header_ok h"
  by (simp_all add: to_byte_def header_ok_def Let_def)

lemma packet_wire_length:
  "length body \<le> max_body \<Longrightarrow>
     length (packet_wire h body) = 1 + vbi_size (word_of_nat (length body)) + length body"
  by (simp add: packet_wire_def length_vbi_encode_loop word_le_nat_alt unat_of_nat)

lemma peek_wire:
  assumes "header_ok h" and "length body \<le> max_body"
  shows "peek_header (packet_wire h body @ rest) =
    Inr \<lparr>p_header = h\<lparr>h_remaining_length := word_of_nat (length body)\<rparr>,
         p_header_bytes = 1 + vbi_size (word_of_nat (length body)),
         p_total_bytes = length (packet_wire h body)\<rparr>"
proof -
  have k: "word_of_nat (length body) \<le> kMaxRemainingLength"
    using assms(2) by (simp add: word_le_nat_alt unat_of_nat)
  have "unat (word_of_nat (length body) :: u32) = length body"
    using assms(2) by (simp add: unat_of_nat)
  with assms vbi_decode_encode_loop [OF k, of "body @ rest"] show ?thesis
    by (simp add: peek_header_def packet_wire_length)
      (simp add: packet_wire_def from_byte_to_byte)
qed

lemma peek_sound:
  assumes "peek_header ins = Inr p"
  shows "header_ok (p_header p)" "h_remaining_length (p_header p) \<le> kMaxRemainingLength"
    "take (p_header_bytes p) ins = to_byte (p_header p) # vbi_encode_loop (h_remaining_length (p_header p))"
    "p_header_bytes p \<le> length ins" "2 \<le> p_header_bytes p" "p_header_bytes p \<le> 5"
    "p_total_bytes p = p_header_bytes p + unat (h_remaining_length (p_header p))"
proof -
  from assms obtain b rest h v where ins: "ins = b # rest" and h: "from_byte b = Inr h"
    and v: "vbi_decode rest = Inr v"
    and p: "p = \<lparr>p_header = h\<lparr>h_remaining_length := vd_value v\<rparr>, p_header_bytes = 1 + vd_bytes v,
      p_total_bytes = 1 + vd_bytes v + unat (vd_value v)\<rparr>"
    by (cases ins) (auto simp: peek_header_def result_then_eq_iff)
  have hk: "to_byte h = b" "header_ok h" using from_byte_Inr [OF h] by auto
  note vs = vbi_decode_sound [OF v]
  show "header_ok (p_header p)" "h_remaining_length (p_header p) \<le> kMaxRemainingLength"
    "take (p_header_bytes p) ins = to_byte (p_header p) # vbi_encode_loop (h_remaining_length (p_header p))"
    "p_header_bytes p \<le> length ins" "2 \<le> p_header_bytes p" "p_header_bytes p \<le> 5"
    "p_total_bytes p = p_header_bytes p + unat (h_remaining_length (p_header p))"
    using hk vs by (auto simp: p ins vbi_size_def split: if_splits)
qed

text \<open>A complete packet at the front of a buffer is the layout of its header and body.\<close>

lemma peek_frame:
  assumes p: "peek_header ins = Inr p" and "p_total_bytes p \<le> length ins"
  shows "take (p_total_bytes p) ins =
      packet_wire (p_header p) (drop (p_header_bytes p) (take (p_total_bytes p) ins))"
    and "length (drop (p_header_bytes p) (take (p_total_bytes p) ins)) =
      unat (h_remaining_length (p_header p))"
proof -
  note s = peek_sound [OF p]
  show l: "length (drop (p_header_bytes p) (take (p_total_bytes p) ins)) =
      unat (h_remaining_length (p_header p))"
    using s assms(2) by simp
  have "take (p_total_bytes p) ins = take (p_header_bytes p) (take (p_total_bytes p) ins) @
      drop (p_header_bytes p) (take (p_total_bytes p) ins)" by (simp only: append_take_drop_id)
  also have "take (p_header_bytes p) (take (p_total_bytes p) ins) = take (p_header_bytes p) ins"
    using s(7) by simp
  finally show "take (p_total_bytes p) ins =
      packet_wire (p_header p) (drop (p_header_bytes p) (take (p_total_bytes p) ins))"
    unfolding packet_wire_def l s(3) by simp
qed

text \<open>Reading more of the stream never changes a framing decision.\<close>

lemma vbi_decode_loop_append:
  "i \<le> length ins \<Longrightarrow> vbi_decode_loop ins i val m \<noteq> Inl Incomplete \<Longrightarrow>
     vbi_decode_loop (ins @ later) i val m = vbi_decode_loop ins i val m"
proof (induction ins i val m rule: vbi_decode_loop.induct)
  case (1 ins i val m)
  show ?case
  proof (cases "i < kMaxVbiBytes \<and> i < length ins \<and> ins ! i AND 0x80 \<noteq> 0")
    case True
    then show ?thesis using 1
      by (simp add: vbi_decode_loop.simps [of ins i] vbi_decode_loop.simps [of "ins @ later" i]
          nth_append Let_def)
  next
    case False
    then show ?thesis using "1.prems"
      by (auto simp: vbi_decode_loop.simps [of ins i] vbi_decode_loop.simps [of "ins @ later" i]
          nth_append Let_def split: if_splits)
  qed
qed

lemma peek_append:
  assumes "peek_header ins \<noteq> Inl Incomplete"
  shows "peek_header (ins @ later) = peek_header ins"
proof (cases ins)
  case Nil
  then show ?thesis using assms by (simp add: peek_header_def)
next
  case (Cons b rest)
  show ?thesis
  proof (cases "from_byte b")
    case (Inr h)
    with assms Cons have "vbi_decode rest \<noteq> Inl Incomplete" by (auto simp: peek_header_def)
    then show ?thesis using vbi_decode_loop_append [of 0 rest 0 1 later] Cons Inr
      by (simp add: peek_header_def vbi_decode_def)
  qed (simp add: Cons peek_header_def)
qed

lemma peek_incomplete:
  "peek_header ins = Inl Incomplete \<longleftrightarrow>
     ins = [] \<or> (result_ok (from_byte (hd ins)) \<and> length ins \<le> 4
       \<and> list_all (\<lambda>b. b AND 0x80 \<noteq> 0) (tl ins))"
proof (cases ins)
  case (Cons b rest)
  show ?thesis using vbi_decode_loop_incomplete [of 0 rest 0 1] from_byte_Inl [of b] Cons
    by (cases "from_byte b")
      (auto simp: peek_header_def vbi_decode_def kMaxVbiBytes_def list_all_iff cont_byte_facts
        result_then_eq_iff)
qed (simp add: peek_header_def)

section \<open>Packet bodies\<close>

lemma two_bytes:
  "2 \<le> length xs \<Longrightarrow> \<exists>v rest. xs = be16 v @ rest"
  by (cases xs; cases "tl xs") (auto simp: intro: exI [of _ "of_be16 (hd xs) (hd (tl xs))"])

lemma length_two: "length body = 2 \<longleftrightarrow> (\<exists>a b. body = [a, b])"
  by (auto simp: length_Suc_conv numeral_2_eq_2)

lemma be16_inject [simp]: "be16 v = be16 w \<longleftrightarrow> v = w"
  unfolding be16_def by (metis list.inject of_be16_be16)

lemma decode_packet_id_iff: "decode_packet_id body = Inr pid \<longleftrightarrow> body = be16 pid \<and> pid \<noteq> 0"
proof (cases "length body = 2")
  case True
  then obtain a b where ab: "body = [a, b]" by (auto simp: length_two)
  have "decode_packet_id body = Inr pid \<longleftrightarrow> of_be16 a b = pid \<and> pid \<noteq> 0"
    by (auto simp: ab decode_packet_id_def of_be16_def Let_def)
  then show ?thesis using ab be16_of_be16 [of a b] be16_inject by (metis (no_types))
qed (auto simp: decode_packet_id_def)

lemma decode_suback_iff:
  "decode_suback body = Inr v \<longleftrightarrow> body = be16 (s_packet_id v) @ s_return_codes v
     \<and> s_packet_id v \<noteq> 0 \<and> s_return_codes v \<noteq> []
     \<and> (\<forall>c \<in> set (s_return_codes v). c \<le> 2 \<or> c = kSubackFailure)"
proof (cases "length body < 3")
  case False
  then obtain a b codes where ab: "body = a # b # codes" "codes \<noteq> []"
    by (cases body; cases "tl body"; force)
  have "decode_suback body = Inr v \<longleftrightarrow> of_be16 a b = s_packet_id v \<and> s_packet_id v \<noteq> 0
      \<and> codes = s_return_codes v \<and> (\<forall>c \<in> set codes. c \<le> 2 \<or> c = kSubackFailure)"
    by (cases v) (auto simp: ab decode_suback_def of_be16_def Let_def list_ex_iff not_le)
  moreover have "of_be16 a b = s_packet_id v \<longleftrightarrow> [a, b] = be16 (s_packet_id v)"
    using be16_of_be16 [of a b] be16_inject by metis
  ultimately show ?thesis using ab by (auto simp: be16_def)
qed (auto simp: decode_suback_def)

definition connack_body :: "ConnackInfo \<Rightarrow> bytes" where
  "connack_body k = [if k_session_present k then 1 else 0, connack_value (k_code k)]"

lemma connack_of_value [simp]: "connack_of (connack_value c) = c"
  by (cases c) (simp_all add: connack_of_def)

lemma connack_value_of: "n \<le> 5 \<Longrightarrow> connack_value (connack_of n) = n"
proof -
  assume "n \<le> 5"
  then have "unat n < 6" by (simp add: word_le_nat_alt)
  moreover have "list_all (\<lambda>k. connack_value (connack_of (word_of_nat k)) = word_of_nat k) [0..<6]"
    by (simp add: upt_rec connack_of_def)
  ultimately show ?thesis
    using u8_below_list [of "\<lambda>n. connack_value (connack_of n) = n" 6 n] by blast
qed

lemma connack_value_0: "connack_value c = 0 \<longleftrightarrow> c = Accepted"
  by (cases c) simp_all

lemma and_FE: "b AND 0xFE = 0 \<longleftrightarrow> b = 0 \<or> b = (1::u8)"
proof
  assume h: "b AND 0xFE = 0"
  have "b = (b AND 0xFE) OR (b AND 1)"
    by (rule bit_word_eqI, simp, drule u8_bits_cases) (auto simp: bit_simps)
  then have "b = b AND 1" using h by simp
  moreover have "b AND 1 = 0 \<or> b AND 1 = 1" by (simp add: and_one_eq mod_2_eq_odd)
  ultimately show "b = 0 \<or> b = 1" by metis
qed auto

lemma decode_connack_iff:
  "decode_connack body = Inr k \<longleftrightarrow>
     body = connack_body k \<and> (k_session_present k \<longrightarrow> k_code k = Accepted)"
proof (cases "length body = 2")
  case True
  then obtain a b where ab: "body = [a, b]" by (auto simp: length_two)
  show ?thesis
  proof
    assume "decode_connack body = Inr k"
    then show "body = connack_body k \<and> (k_session_present k \<longrightarrow> k_code k = Accepted)"
      using connack_value_of [of b]
      by (auto simp: ab decode_connack_def and_FE connack_body_def not_less connack_of_def split: if_splits)
  next
    assume "body = connack_body k \<and> (k_session_present k \<longrightarrow> k_code k = Accepted)"
    moreover have "connack_value (k_code k) \<le> 5" by (cases "k_code k") simp_all
    ultimately show "decode_connack body = Inr k"
      by (cases k) (auto simp: decode_connack_def connack_body_def not_less connack_value_0)
  qed
qed (auto simp: decode_connack_def connack_body_def)

lemma unat_length16: "length s \<le> kMaxStringLen \<Longrightarrow> unat (word_of_nat (length s) :: u16) = length s"
  by (simp add: unat_of_nat kMaxStringLen_def)

context byte_streams
begin

lemma read_u16:
  assumes "rd_endian etl r = big_endian" and "rd_free etl r = be16 v @ rest"
  shows "\<exists>r'. rd_u16 etl r = (Some v, r') \<and> rd_free etl r' = rest \<and> rd_endian etl r' = big_endian"
  using rd_u16 [of r v rest] assms by (simp add: in_order_def)

lemma read_u16_cases:
  assumes "rd_endian etl r = big_endian"
  obtains "rd_u16 etl r = (None, r)" "length (rd_free etl r) < 2"
  | v r' where "rd_u16 etl r = (Some v, r')" "rd_free etl r = be16 v @ rd_free etl r'"
      "rd_endian etl r' = big_endian"
proof (cases "length (rd_free etl r) < 2")
  case True
  then show ?thesis using that(1) rd_u16_short by blast
next
  case False
  then obtain v rest where "rd_free etl r = be16 v @ rest" using two_bytes [of "rd_free etl r"] by auto
  with read_u16 [OF assms this] show ?thesis using that(2) by auto
qed

lemma read_string_wire:
  assumes "rd_endian etl r = big_endian" and "rd_free etl r = str_wire s @ rest" and "mqtt_text s"
  shows "\<exists>r'. read_string etl r = (Inr s, r') \<and> rd_free etl r' = rest \<and> rd_endian etl r' = big_endian"
proof -
  obtain r1 where r1: "rd_u16 etl r = (Some (word_of_nat (length s)), r1)" "rd_free etl r1 = s @ rest"
      "rd_endian etl r1 = big_endian"
    using read_u16 [OF assms(1), of "word_of_nat (length s)" "s @ rest"] assms(2)
    by (auto simp: str_wire_def)
  have len: "unat (word_of_nat (length s) :: u16) = length s"
    using assms(3) by (simp add: mqtt_text_def unat_length16)
  show ?thesis
  proof (cases "s = []")
    case False
    then have "word_of_nat (length s) \<noteq> (0 :: u16)" using len by auto
    moreover obtain r2 where "rd_chars etl r1 (length s) = (Some s, r2)" "rd_free etl r2 = rest"
        "rd_endian etl r2 = big_endian"
      using rd_chars [of "length s" r1] r1 by auto
    ultimately show ?thesis using assms(3) r1(1) len by (simp add: read_string_def mqtt_text_def)
  qed (use r1 in \<open>simp add: read_string_def\<close>)
qed

lemma read_string_sound:
  assumes "rd_endian etl r = big_endian" and "read_string etl r = (Inr s, r')"
  shows "rd_free etl r = str_wire s @ rd_free etl r'" "mqtt_text s" "rd_endian etl r' = big_endian"
proof -
  obtain v r1 where r1: "rd_u16 etl r = (Some v, r1)" "rd_free etl r = be16 v @ rd_free etl r1"
      "rd_endian etl r1 = big_endian"
    using assms by (cases rule: read_u16_cases) (auto simp: read_string_def)
  have "rd_free etl r = str_wire s @ rd_free etl r' \<and> mqtt_text s \<and> rd_endian etl r' = big_endian"
  proof (cases "v = 0")
    case True
    then show ?thesis using r1 assms(2) is_valid_mqtt_string_spec [of "[]"]
      by (auto simp: read_string_def str_wire_def mqtt_text_def mqtt_utf8_def intro: exI [of _ "[]"])
  next
    case False
    have len: "unat v \<le> length (rd_free etl r1)"
      using rd_chars_short [of r1 "unat v"] r1(1) assms(2) False
      by (cases "unat v \<le> length (rd_free etl r1)") (simp_all add: read_string_def)
    from rd_chars [OF this] obtain r2 where r2: "rd_chars etl r1 (unat v) = (Some (take (unat v) (rd_free etl r1)), r2)"
        "rd_free etl r2 = drop (unat v) (rd_free etl r1)" "rd_endian etl r2 = big_endian"
      using r1(3) by auto
    then have "s = take (unat v) (rd_free etl r1)" "r' = r2" "is_valid_mqtt_string s"
      using assms(2) r1(1) False by (auto simp: read_string_def split: if_splits)
    then show ?thesis using r1 r2 len unat_u16_less [of v]
      by (auto simp: str_wire_def mqtt_text_def kMaxStringLen_def)
  qed
  then show "rd_free etl r = str_wire s @ rd_free etl r'" "mqtt_text s" "rd_endian etl r' = big_endian"
    by auto
qed

lemma decode_publish_wire:
  assumes "publish_ok m" and "m_qos m = AtMostOnce \<longrightarrow> m_packet_id m = 0"
    and h: "h_qos h = m_qos m" "h_retain h = m_retain m" "h_dup h = m_dup m"
  shows "decode_publish etl h (publish_body m) = Inr m"
proof -
  let ?body = "publish_body m"
  let ?r = "rd_open etl ?body kNetworkOrder"
  let ?rest = "(if m_qos m \<noteq> AtMostOnce then be16 (m_packet_id m) else []) @ m_payload m"
  have r: "rd_endian etl ?r = big_endian" "rd_free etl ?r = str_wire (m_topic m) @ ?rest"
    by (simp_all add: rd_open kNetworkOrder_def publish_body_def)
  obtain r1 where r1: "read_string etl ?r = (Inr (m_topic m), r1)" "rd_free etl r1 = ?rest"
      "rd_endian etl r1 = big_endian"
    using read_string_wire [OF r] assms(1) by (auto simp: publish_ok_def)
  have pay: "drop (length ?body - length (m_payload m)) ?body = m_payload m"
    by (simp add: publish_body_def)
  show ?thesis
  proof (cases "m_qos m = AtMostOnce")
    case True
    then show ?thesis using assms r1 pay
      by (cases m) (auto simp: decode_publish_def Let_def rd_available publish_ok_def)
  next
    case False
    obtain r2 where "rd_u16 etl r1 = (Some (m_packet_id m), r2)" "rd_free etl r2 = m_payload m"
      using read_u16 [OF r1(3), of "m_packet_id m" "m_payload m"] r1(2) False by auto
    then show ?thesis using False assms r1 pay
      by (cases m) (auto simp: decode_publish_def Let_def rd_available publish_ok_def)
  qed
qed

lemma decode_publish_sound:
  assumes d: "decode_publish etl h body = Inr m" and "h_qos h \<le> 2"
  shows "body = publish_body m \<and> publish_ok m \<and> (m_qos m = AtMostOnce \<longrightarrow> m_packet_id m = 0)
    \<and> m_qos m = h_qos h \<and> m_retain m = h_retain h \<and> m_dup m = h_dup h"
proof -
  let ?r = "rd_open etl body kNetworkOrder"
  have r: "rd_endian etl ?r = big_endian" "rd_free etl ?r = body"
    by (simp_all add: rd_open kNetworkOrder_def)
  obtain topic r1 where r1: "read_string etl ?r = (Inr topic, r1)" and "topic \<noteq> []"
    using d by (auto simp: decode_publish_def Let_def split: prod.splits sum.splits if_splits)
  note s = read_string_sound [OF r(1) r1]
  have pay: "drop (length body - length xs) body = xs" if "body = ys @ xs" for xs ys
    using that by simp
  show ?thesis
  proof (cases "h_qos h = AtMostOnce")
    case True
    then show ?thesis using d r1 s \<open>topic \<noteq> []\<close> r(2) pay [of "str_wire topic" "rd_free etl r1"]
      by (auto simp: decode_publish_def Let_def rd_available publish_ok_def publish_body_def split: if_splits)
  next
    case False
    obtain v r2 where r2: "rd_u16 etl r1 = (Some v, r2)" "v \<noteq> 0"
        "rd_free etl r1 = be16 v @ rd_free etl r2"
      using s(3) False d r1 \<open>topic \<noteq> []\<close>
      by (cases rule: read_u16_cases) (auto simp: decode_publish_def Let_def split: if_splits)
    then show ?thesis
      using False d r1 s \<open>topic \<noteq> []\<close> r(2) assms(2) pay [of "str_wire topic @ be16 v" "rd_free etl r2"]
      by (auto simp: decode_publish_def Let_def rd_available publish_ok_def publish_body_def split: if_splits)
  qed
qed

end

section \<open>Properties\<close>

text \<open>C32: Framing. When \<open>peek_header\<close> finds a complete packet at the front of a buffer, those
  bytes are exactly the canonical layout of the header it returns and of the body behind it;
  the header is one the protocol allows and takes two to five bytes.\<close>

theorem peek_header_frames:
  assumes "peek_header ins = Inr p" and "p_total_bytes p \<le> length ins"
  shows "let body = drop (p_header_bytes p) (take (p_total_bytes p) ins) in
    take (p_total_bytes p) ins = packet_wire (p_header p) body
    \<and> length body = unat (h_remaining_length (p_header p))
    \<and> header_ok (p_header p) \<and> 2 \<le> p_header_bytes p \<and> p_header_bytes p \<le> 5"
  using peek_frame [OF assms] peek_sound [OF assms(1)] by (simp add: Let_def)

theorem peek_header_frames_witness:
  "peek_header [0x40, 2, 0, 7, 0xD0] =
     Inr \<lparr>p_header = \<lparr>h_type = Puback, h_dup = False, h_qos = 0, h_retain = False, h_remaining_length = 2\<rparr>,
          p_header_bytes = 2, p_total_bytes = 4\<rparr>
   \<and> packet_wire \<lparr>h_type = Puback, h_dup = False, h_qos = 0, h_retain = False, h_remaining_length = 2\<rparr>
       [0, 7] = [0x40, 2, 0, 7]"
proof -
  have p: "peek_header [0x40, 2, 0, 7, 0xD0] =
     Inr \<lparr>p_header = \<lparr>h_type = Puback, h_dup = False, h_qos = 0, h_retain = False, h_remaining_length = 2\<rparr>,
          p_header_bytes = 2, p_total_bytes = 4\<rparr>" by code_simp
  then show ?thesis using peek_header_frames [OF p] by (simp add: Let_def)
qed

text \<open>C33: Framing does not depend on how the stream is cut into reads. Once \<open>peek_header\<close> has
  an answer other than \<open>Incomplete\<close>, more input never changes it, and it can answer \<open>Incomplete\<close>
  only for at most four bytes: an empty buffer, or an acceptable first byte followed by bytes
  that all have the continuation bit.\<close>

theorem peek_header_stable:
  "(peek_header ins \<noteq> Inl Incomplete \<longrightarrow> peek_header (ins @ later) = peek_header ins)
   \<and> (peek_header ins = Inl Incomplete \<longleftrightarrow>
       ins = [] \<or> result_ok (from_byte (hd ins)) \<and> length ins \<le> 4
         \<and> list_all (\<lambda>b. b AND 0x80 \<noteq> 0) (tl ins))"
  using peek_append peek_incomplete by blast

theorem peek_header_stable_witness:
  "peek_header [0x0F] \<noteq> Inl Incomplete \<and> peek_header ([0x0F] @ [1, 2]) = Inl MalformedPacket"
proof -
  have p: "peek_header [0x0F] = Inl MalformedPacket" by code_simp
  then show ?thesis using peek_header_stable [of "[0x0F]" "[1, 2]"] by simp
qed

text \<open>C27: PUBLISH round trip. Whatever \<open>encode_publish\<close> reports as written is, followed by any
  further bytes of the stream, framed by \<open>peek_header\<close> as one packet of that size and decoded by
  \<open>decode_publish\<close> to the same topic, payload, quality of service, flags and (above quality of
  service 0) packet identifier.\<close>

theorem publish_roundtrip:
  assumes "byte_streams etl" and "length payload < 2 ^ 63"
    and "encode_publish etl out topic payload qos retain dup pid = (Inr n, out')"
  shows "\<exists>p. peek_header (take n out' @ later) = Inr p \<and> p_total_bytes p = n \<and> n \<le> length out
    \<and> decode_publish etl (p_header p) (drop (p_header_bytes p) (take n out')) =
        Inr \<lparr>m_topic = topic, m_payload = payload, m_qos = qos, m_retain = retain, m_dup = dup,
             m_packet_id = (if qos = AtMostOnce then 0 else pid)\<rparr>"
proof -
  let ?m = "\<lparr>m_topic = topic, m_payload = payload, m_qos = qos, m_retain = retain, m_dup = dup,
    m_packet_id = pid\<rparr>"
  let ?m' = "?m\<lparr>m_packet_id := if qos = AtMostOnce then 0 else pid\<rparr>"
  let ?w = "packet_wire (publish_header ?m) (publish_body ?m)"
  note spec = byte_streams.encode_publish_spec [where m = ?m and out = out, OF assms(1) refl assms(2)]
  have ok: "publish_ok ?m" and len: "length (publish_body ?m) \<le> max_body"
    using spec(1,2) assms(3) by (force, force)
  then have st: "n = length ?w" "take n out' = ?w" "n \<le> length out"
    using spec(3) assms(3) by (auto simp: stores_def write_at_def split: if_splits)
  have b: "publish_body ?m' = publish_body ?m" "publish_ok ?m'"
    using ok by (auto simp: publish_body_def publish_ok_def)
  have h: "header_ok (publish_header ?m)" using ok by (simp add: publish_ok_def header_ok_def publish_header_def)
  note pk = peek_wire [OF h len, of later]
  have "drop (1 + vbi_size (word_of_nat (length (publish_body ?m)))) ?w = publish_body ?m"
    using len by (simp add: packet_wire_def length_vbi_encode_loop word_le_nat_alt unat_of_nat)
  then show ?thesis unfolding st(2) pk
    using st b byte_streams.decode_publish_wire [OF assms(1) b(2)] by (simp add: publish_header_def)
qed

theorem publish_roundtrip_witness:
  "encode_publish list_streams [0, 0, 0, 0, 0, 0] [0x74] [0x68] 0 True False 0 = (Inr 6, [0x31, 4, 0, 1, 0x74, 0x68])
   \<and> (\<exists>p. peek_header [0x31, 4, 0, 1, 0x74, 0x68, 0xFF] = Inr p \<and> p_total_bytes p = 6)"
proof -
  let ?m = "\<lparr>m_topic = [0x74], m_payload = [0x68], m_qos = 0, m_retain = True, m_dup = False,
      m_packet_id = 0\<rparr>"
  have ok: "publish_ok ?m" using mqtt_text_ascii [of "[0x74]"] by (simp add: publish_ok_def)
  have w: "packet_wire (publish_header ?m) (publish_body ?m) = [0x31, 4, 0, 1, 0x74, 0x68]"
    "length (publish_body ?m) = 4" by code_simp+
  have e: "encode_publish list_streams [0, 0, 0, 0, 0, 0] [0x74] [0x68] 0 True False 0 =
      (Inr 6, [0x31, 4, 0, 1, 0x74, 0x68])"
    using lists.encode_publish_spec(3) [OF refl _ ok] w by (simp add: stores_def write_at_def)
  show ?thesis using publish_roundtrip [OF lists.byte_streams_axioms _ e, of "[0xFF]"] e by auto
qed

text \<open>C28: \<open>decode_publish\<close> accepts exactly the canonical bodies: it returns a message if and only
  if the body is the layout of that message, the message is one the protocol allows, and its
  flags are those of the header. In particular a topic that is empty or not UTF-8, a zero packet
  identifier, and DUP at quality of service 0 are never delivered.\<close>

theorem decode_publish_exact:
  assumes "byte_streams etl" and "h_qos h \<le> 2"
  shows "decode_publish etl h body = Inr m \<longleftrightarrow>
    body = publish_body m \<and> publish_ok m \<and> (m_qos m = AtMostOnce \<longrightarrow> m_packet_id m = 0)
    \<and> m_qos m = h_qos h \<and> m_retain m = h_retain h \<and> m_dup m = h_dup h"
  using byte_streams.decode_publish_wire [OF assms(1)] byte_streams.decode_publish_sound [OF assms(1) _ assms(2)]
  by metis

theorem decode_publish_exact_witness:
  "byte_streams list_streams \<and>
   decode_publish list_streams (default_header\<lparr>h_type := Publish, h_qos := 1\<rparr>) [0, 1, 0x74, 0, 9, 1] =
     Inr \<lparr>m_topic = [0x74], m_payload = [1], m_qos = 1, m_retain = False, m_dup = False, m_packet_id = 9\<rparr>"
proof -
  let ?m = "\<lparr>m_topic = [0x74], m_payload = [1], m_qos = 1, m_retain = False, m_dup = False, m_packet_id = 9\<rparr>"
  have "publish_ok ?m" using mqtt_text_ascii [of "[0x74]"] by (simp add: publish_ok_def)
  moreover have "publish_body ?m = [0, 1, 0x74, 0, 9, 1]" by code_simp
  ultimately show ?thesis
    using decode_publish_exact [OF lists.byte_streams_axioms, of "default_header\<lparr>h_type := Publish, h_qos := 1\<rparr>"
        "[0, 1, 0x74, 0, 9, 1]" ?m]
    by (simp add: default_header_def lists.byte_streams_axioms)
qed

text \<open>C34: The other broker packets are decoded exactly as well: CONNACK if and only if the body is
  a flags byte with the reserved bits clear and a known return code, without session-present on
  a refusal; the acknowledgements if and only if the body is a non-zero identifier; SUBACK if
  and only if it is a non-zero identifier and at least one return code, each 0, 1, 2 or the
  failure code.\<close>

theorem decode_server_packets_exact:
  "(decode_connack body = Inr k \<longleftrightarrow>
      body = connack_body k \<and> (k_session_present k \<longrightarrow> k_code k = Accepted))
   \<and> (decode_packet_id body = Inr pid \<longleftrightarrow> body = be16 pid \<and> pid \<noteq> 0)
   \<and> (decode_suback body = Inr v \<longleftrightarrow> body = be16 (s_packet_id v) @ s_return_codes v
       \<and> s_packet_id v \<noteq> 0 \<and> s_return_codes v \<noteq> []
       \<and> list_all (\<lambda>c. c \<le> 2 \<or> c = kSubackFailure) (s_return_codes v))"
  using decode_connack_iff decode_packet_id_iff decode_suback_iff by (simp add: list_all_iff)

theorem decode_server_packets_exact_witness:
  "decode_connack [1, 0] = Inr \<lparr>k_code = Accepted, k_session_present = True\<rparr>
   \<and> decode_suback [0, 9, 1, 0x80] = Inr \<lparr>s_packet_id = 9, s_return_codes = [1, 0x80]\<rparr>
   \<and> decode_packet_id [1, 0] = Inr 256"
proof -
  have b: "be16 9 = [0, 9]" "be16 256 = [1, 0]" by code_simp+
  show ?thesis
    using decode_server_packets_exact [of "[1, 0]" "\<lparr>k_code = Accepted, k_session_present = True\<rparr>" 256]
      decode_server_packets_exact [of "[0, 9, 1, 0x80]" _ _ "\<lparr>s_packet_id = 9, s_return_codes = [1, 0x80]\<rparr>"] b
    by (simp add: connack_body_def kSubackFailure_def)
qed

end
