(* ===== verification/Tx_Queue.thy ===== *)
theory Tx_Queue
  imports Errors
begin

text \<open>
  \<^verbatim>\<open>include/mqtt/tx_queue.hpp\<close>: the linear byte queue of outbound packets, with the two ways the
  client puts bytes into it (\<open>enqueue\<close> and \<open>enqueue_sized\<close> of \<^verbatim>\<open>include/mqtt/client.hpp\<close>). The
  specification is a bounded FIFO of bytes; the queue is shown to implement it, compaction and
  index resets included.
\<close>

section \<open>The queue\<close>

text \<open>The template parameter \<open>Capacity\<close> is the length of the buffer.\<close>

record TxQueue =
  q_buffer :: bytes
  q_head :: nat
  q_tail :: nat

definition tx_new :: "nat \<Rightarrow> TxQueue" where
  "tx_new cap = \<lparr>q_buffer = replicate cap 0, q_head = 0, q_tail = 0\<rparr>"

definition tx_capacity :: "TxQueue \<Rightarrow> nat" where
  "tx_capacity q = length (q_buffer q)"

definition tx_pending_bytes :: "TxQueue \<Rightarrow> nat" where
  "tx_pending_bytes q = q_tail q - q_head q"

definition tx_empty :: "TxQueue \<Rightarrow> bool" where
  "tx_empty q \<longleftrightarrow> q_head q = q_tail q"

definition compact :: "TxQueue \<Rightarrow> TxQueue" where
  "compact q =
     (if q_head q = 0 then q
      else
        let n = q_tail q - q_head q;
            buffer = (if n > 0 then write_at (q_buffer q) 0 (take n (drop (q_head q) (q_buffer q)))
                      else q_buffer q)
        in q\<lparr>q_buffer := buffer, q_head := 0, q_tail := n\<rparr>)"

definition reserve :: "nat \<Rightarrow> TxQueue \<Rightarrow> bool \<times> TxQueue" where
  "reserve n q =
     (if n > tx_capacity q then (False, q)
      else if tx_capacity q - q_tail q \<ge> n then (True, q)
      else let q = compact q in (tx_capacity q - q_tail q \<ge> n, q))"

definition write_span :: "TxQueue \<Rightarrow> bytes" where
  "write_span q = drop (q_tail q) (q_buffer q)"

text \<open>A write of \<open>xs\<close> to the front of \<open>write_span()\<close>.\<close>

definition fill_span :: "bytes \<Rightarrow> TxQueue \<Rightarrow> TxQueue" where
  "fill_span xs q = q\<lparr>q_buffer := write_at (q_buffer q) (q_tail q) xs\<rparr>"

definition commit :: "nat \<Rightarrow> TxQueue \<Rightarrow> TxQueue" where
  "commit n q =
     (let room = tx_capacity q - q_tail q in
      q\<lparr>q_tail := q_tail q + (if n < room then n else room)\<rparr>)"

definition peek :: "TxQueue \<Rightarrow> bytes" where
  "peek q = take (q_tail q - q_head q) (drop (q_head q) (q_buffer q))"

definition consume :: "nat \<Rightarrow> TxQueue \<Rightarrow> TxQueue" where
  "consume n q =
     (let avail = q_tail q - q_head q;
          q = q\<lparr>q_head := q_head q + (if n < avail then n else avail)\<rparr>
      in if q_head q = q_tail q then q\<lparr>q_head := 0, q_tail := 0\<rparr> else q)"

definition tx_clear :: "TxQueue \<Rightarrow> TxQueue" where
  "tx_clear q = q\<lparr>q_head := 0, q_tail := 0\<rparr>"

text \<open>The two transmit helpers of the client, on its queue.\<close>

definition tx_enqueue :: "bytes \<Rightarrow> TxQueue \<Rightarrow> Error \<times> TxQueue" where
  "tx_enqueue bs q =
     (case reserve (length bs) q of
        (ok, q) \<Rightarrow>
          if \<not> ok then (TxQueueFull, q) else (Ok, commit (length bs) (fill_span bs q)))"

definition tx_enqueue_sized ::
  "nat \<Rightarrow> nat \<Rightarrow> (bytes \<Rightarrow> nat Result \<times> bytes) \<Rightarrow> TxQueue \<Rightarrow> Error \<times> TxQueue" where
  "tx_enqueue_sized tx_buffer_size sz encode q =
     (if sz > tx_buffer_size then (BufferTooSmall, q)
      else
        (case reserve sz q of
           (ok, q) \<Rightarrow>
             if \<not> ok then (TxQueueFull, q)
             else
               (case encode (take sz (write_span q)) of
                  (r, out) \<Rightarrow>
                    let q = fill_span out q in
                    (case r of Inl e \<Rightarrow> (e, q) | Inr n \<Rightarrow> (Ok, commit n q)))))"

section \<open>The bounded FIFO it implements\<close>

definition tx_invar :: "TxQueue \<Rightarrow> bool" where
  "tx_invar q \<longleftrightarrow> q_head q \<le> q_tail q \<and> q_tail q \<le> length (q_buffer q)"

text \<open>
  The interface the client relies on: a queue with an abstraction to its pending bytes, an
  all-or-nothing put, a view of the front and a removal from the front.
\<close>

locale byte_fifo =
  fixes invar :: "'q \<Rightarrow> bool" and contents :: "'q \<Rightarrow> bytes" and capacity :: "'q \<Rightarrow> nat"
    and put :: "bytes \<Rightarrow> 'q \<Rightarrow> Error \<times> 'q" and front :: "'q \<Rightarrow> bytes"
    and remove :: "nat \<Rightarrow> 'q \<Rightarrow> 'q"
  assumes bounded: "invar q \<Longrightarrow> length (contents q) \<le> capacity q"
    and put_room: "invar q \<Longrightarrow> length (contents q) + length bs \<le> capacity q \<Longrightarrow>
      \<exists>q'. put bs q = (Ok, q') \<and> invar q' \<and> contents q' = contents q @ bs \<and> capacity q' = capacity q"
    and put_full: "invar q \<Longrightarrow> \<not> length (contents q) + length bs \<le> capacity q \<Longrightarrow>
      \<exists>q'. put bs q = (TxQueueFull, q') \<and> invar q' \<and> contents q' = contents q \<and> capacity q' = capacity q"
    and front_contents: "invar q \<Longrightarrow> front q = contents q"
    and remove_front: "invar q \<Longrightarrow> invar (remove n q)" "invar q \<Longrightarrow> contents (remove n q) = drop n (contents q)"
      "invar q \<Longrightarrow> capacity (remove n q) = capacity q"

text \<open>A history of a queue: puts, and sends of a prefix of the front.\<close>

datatype fifo_op = Put bytes | Send nat

definition fifo_step ::
  "(bytes \<Rightarrow> 'q \<Rightarrow> Error \<times> 'q) \<Rightarrow> ('q \<Rightarrow> bytes) \<Rightarrow> (nat \<Rightarrow> 'q \<Rightarrow> 'q) \<Rightarrow>
     fifo_op \<Rightarrow> 'q \<times> bytes \<times> bytes \<Rightarrow> 'q \<times> bytes \<times> bytes" where
  "fifo_step put front remove x st = (case st of (q, accepted, sent) \<Rightarrow>
     (case x of
        Put bs \<Rightarrow> (case put bs q of (e, q') \<Rightarrow> (q', if e = Ok then accepted @ bs else accepted, sent))
      | Send n \<Rightarrow> (remove n q, accepted, sent @ take n (front q))))"

context byte_fifo
begin

lemma fifo_step_order:
  assumes "invar q" and "sent @ contents q = accepted"
    and "fifo_step put front remove x (q, accepted, sent) = (q', accepted', sent')"
  shows "invar q' \<and> sent' @ contents q' = accepted' \<and> capacity q' = capacity q"
proof (cases x)
  case (Put bs)
  then show ?thesis using assms put_room [of q bs] put_full [of q bs]
    by (cases "length (contents q) + length bs \<le> capacity q") (auto simp: fifo_step_def)
next
  case (Send n)
  then show ?thesis using assms remove_front [of q n] front_contents [of q]
    by (auto simp: fifo_step_def)
qed

text \<open>Whatever the history, what was sent followed by what is pending is what was accepted.\<close>

lemma fifo_order:
  "invar q \<Longrightarrow> sent @ contents q = accepted \<Longrightarrow>
     fold (fifo_step put front remove) xs (q, accepted, sent) = (q', accepted', sent') \<Longrightarrow>
     invar q' \<and> sent' @ contents q' = accepted' \<and> capacity q' = capacity q"
proof (induction xs arbitrary: q accepted sent)
  case (Cons x xs)
  obtain q1 a1 s1 where st: "fifo_step put front remove x (q, accepted, sent) = (q1, a1, s1)"
    by (cases "fifo_step put front remove x (q, accepted, sent)") auto
  with Cons.IH [of q1 s1 a1] Cons.prems fifo_step_order [OF Cons.prems(1,2) st] show ?case by simp
qed simp

end

section \<open>The queue implements it\<close>

lemma length_peek: "tx_invar q \<Longrightarrow> length (peek q) = tx_pending_bytes q"
  by (auto simp: peek_def tx_pending_bytes_def tx_invar_def)

lemma tx_empty_iff: "tx_invar q \<Longrightarrow> tx_empty q \<longleftrightarrow> peek q = []"
  by (auto simp: peek_def tx_empty_def tx_invar_def)

lemma compact_spec:
  assumes "tx_invar q"
  shows "tx_invar (compact q)" "peek (compact q) = peek q" "tx_capacity (compact q) = tx_capacity q"
    "q_tail (compact q) = length (peek q)"
  using assms by (auto simp: compact_def Let_def tx_invar_def peek_def tx_capacity_def write_at_def)

lemma reserve_spec:
  assumes "tx_invar q"
  obtains q' where "reserve n q = (length (peek q) + n \<le> tx_capacity q, q')" "tx_invar q'"
    "peek q' = peek q" "tx_capacity q' = tx_capacity q"
    "length (peek q) + n \<le> tx_capacity q \<longrightarrow> n \<le> tx_capacity q' - q_tail q'"
proof (cases "n \<le> tx_capacity q \<and> \<not> n \<le> tx_capacity q - q_tail q")
  case True
  have "(n \<le> tx_capacity q - length (peek q)) = (length (peek q) + n \<le> tx_capacity q)"
    using True assms by (auto simp: tx_invar_def peek_def tx_capacity_def)
  then show ?thesis using that [of "compact q"] compact_spec [OF assms] True
    by (simp add: reserve_def Let_def)
next
  case False
  then have "fst (reserve n q) = (length (peek q) + n \<le> tx_capacity q)" "snd (reserve n q) = q"
    using assms by (auto simp: reserve_def tx_invar_def peek_def tx_capacity_def Let_def)
  then show ?thesis using that [of q] False assms
    by (cases "reserve n q") (auto simp: reserve_def split: if_splits)
qed

text \<open>Filling the reserved room and committing a prefix of it appends that prefix.\<close>

lemma fill_span_spec:
  assumes "tx_invar q" and "length out \<le> tx_capacity q - q_tail q"
  shows "tx_invar (fill_span out q)" "peek (fill_span out q) = peek q"
    "tx_capacity (fill_span out q) = tx_capacity q" "q_tail (fill_span out q) = q_tail q"
proof -
  have le: "q_head q \<le> q_tail q" "q_tail q \<le> length (q_buffer q)" using assms by (auto simp: tx_invar_def)
  show "tx_invar (fill_span out q)" "tx_capacity (fill_span out q) = tx_capacity q"
    "q_tail (fill_span out q) = q_tail q"
    using assms le by (simp_all add: fill_span_def tx_invar_def tx_capacity_def)
  have "peek (fill_span out q) = drop (q_head q) (take (q_tail q) (write_at (q_buffer q) (q_tail q) out))"
    by (simp add: fill_span_def peek_def drop_take)
  then show "peek (fill_span out q) = peek q" using le by (simp add: peek_def drop_take)
qed

lemma commit_spec:
  assumes "tx_invar q" and "length out \<le> tx_capacity q - q_tail q" and "n \<le> length out"
  shows "tx_invar (commit n (fill_span out q))"
    "peek (commit n (fill_span out q)) = peek q @ take n out"
    "tx_capacity (commit n (fill_span out q)) = tx_capacity q"
proof -
  have le: "q_head q \<le> q_tail q" "q_tail q \<le> length (q_buffer q)" using assms by (auto simp: tx_invar_def)
  have n: "q_tail q + n \<le> length (q_buffer q)" using assms le by (simp add: tx_capacity_def)
  have c: "commit n (fill_span out q) =
      q\<lparr>q_buffer := write_at (q_buffer q) (q_tail q) out, q_tail := q_tail q + n\<rparr>"
    using assms le by (auto simp: commit_def fill_span_def Let_def tx_capacity_def)
  show "tx_invar (commit n (fill_span out q))" "tx_capacity (commit n (fill_span out q)) = tx_capacity q"
    unfolding c using assms le n by (simp_all add: tx_invar_def tx_capacity_def)
  have "peek (commit n (fill_span out q)) =
      drop (q_head q) (take (q_tail q + n) (write_at (q_buffer q) (q_tail q) out))"
    unfolding c using le by (simp add: peek_def drop_take)
  also have "take (q_tail q + n) (write_at (q_buffer q) (q_tail q) out) = take (q_tail q) (q_buffer q) @ take n out"
    using le assms by (simp add: write_at_def)
  also have "drop (q_head q) \<dots> = peek q @ take n out"
    using le by (simp add: peek_def drop_take)
  finally show "peek (commit n (fill_span out q)) = peek q @ take n out" .
qed

lemma consume_spec:
  assumes "tx_invar q"
  shows "tx_invar (consume n q)" "peek (consume n q) = drop n (peek q)"
    "tx_capacity (consume n q) = tx_capacity q"
  using assms by (auto simp: consume_def Let_def tx_invar_def peek_def tx_capacity_def drop_take add.commute)

lemma tx_clear_spec [simp]: "tx_invar (tx_clear q)" "peek (tx_clear q) = []"
  "tx_capacity (tx_clear q) = tx_capacity q"
  by (simp_all add: tx_clear_def tx_invar_def peek_def tx_capacity_def)

lemma tx_new_spec [simp]: "tx_invar (tx_new cap)" "peek (tx_new cap) = []" "tx_capacity (tx_new cap) = cap"
  by (simp_all add: tx_new_def tx_invar_def peek_def tx_capacity_def)

lemma tx_enqueue_spec:
  assumes "tx_invar q"
  obtains q' where
    "tx_enqueue bs q = (if length (peek q) + length bs \<le> tx_capacity q then Ok else TxQueueFull, q')"
    "tx_invar q'" "tx_capacity q' = tx_capacity q"
    "peek q' = (if length (peek q) + length bs \<le> tx_capacity q then peek q @ bs else peek q)"
proof -
  from reserve_spec [OF assms, of "length bs"] obtain q1 where
    r: "reserve (length bs) q = (length (peek q) + length bs \<le> tx_capacity q, q1)" "tx_invar q1"
      "peek q1 = peek q" "tx_capacity q1 = tx_capacity q"
      "length (peek q) + length bs \<le> tx_capacity q \<longrightarrow> length bs \<le> tx_capacity q1 - q_tail q1" .
  show ?thesis
  proof (cases "length (peek q) + length bs \<le> tx_capacity q")
    case True
    then show ?thesis using that [of "commit (length bs) (fill_span bs q1)"] r commit_spec [OF r(2), of bs]
      by (simp add: tx_enqueue_def)
  next
    case False
    then show ?thesis using that [of q1] r by (simp add: tx_enqueue_def)
  qed
qed

interpretation tx: byte_fifo tx_invar peek tx_capacity tx_enqueue peek consume
proof (unfold_locales, goal_cases)
  case (1 q)
  then show ?case by (simp add: peek_def tx_invar_def tx_capacity_def)
next
  case (2 q bs)
  then show ?case by (elim tx_enqueue_spec [of q bs]) simp
next
  case (3 q bs)
  then show ?case by (elim tx_enqueue_spec [of q bs]) simp
qed (simp_all add: consume_spec)

text \<open>The sized variant: the encoder writes into the reserved room.\<close>

lemma tx_enqueue_sized_spec:
  assumes "tx_invar q" and "tx_capacity q = cap"
    and enc: "\<And>out. length out = sz \<Longrightarrow> \<exists>out'. encode out = (r, out') \<and> length out' = sz
      \<and> (\<forall>n. r = Inr n \<longrightarrow> n \<le> sz \<and> take n out' = wire)"
  obtains q' where "tx_enqueue_sized cap sz encode q =
      (if sz > cap then BufferTooSmall
       else if length (peek q) + sz \<le> cap then result_error r else TxQueueFull, q')"
    "tx_invar q'" "tx_capacity q' = cap"
    "peek q' = (if length (peek q) + sz \<le> cap \<and> isl r = False then peek q @ wire else peek q)"
proof (cases "sz > cap")
  case True
  then show ?thesis using that [of q] assms(1,2) by (simp add: tx_enqueue_sized_def)
next
  case sz: False
  from reserve_spec [OF assms(1), of sz] obtain q1 where
    r: "reserve sz q = (length (peek q) + sz \<le> tx_capacity q, q1)" "tx_invar q1"
      "peek q1 = peek q" "tx_capacity q1 = tx_capacity q"
      "length (peek q) + sz \<le> tx_capacity q \<longrightarrow> sz \<le> tx_capacity q1 - q_tail q1" .
  show ?thesis
  proof (cases "length (peek q) + sz \<le> cap")
    case True
    then have room: "sz \<le> tx_capacity q1 - q_tail q1" using r(5) assms(2) by simp
    then have "length (take sz (write_span q1)) = sz" by (simp add: write_span_def tx_capacity_def)
    from enc [OF this] obtain out' where e: "encode (take sz (write_span q1)) = (r, out')"
        "length out' = sz" "\<forall>n. r = Inr n \<longrightarrow> n \<le> sz \<and> take n out' = wire" by blast
    show ?thesis
    proof (cases r)
      case (Inl err)
      then show ?thesis using that [of "fill_span out' q1"] sz True e r assms(2) room fill_span_spec [OF r(2), of out']
        by (simp add: tx_enqueue_sized_def)
    next
      case (Inr n)
      then show ?thesis using that [of "commit n (fill_span out' q1)"] sz True e r assms(2) room
          commit_spec [OF r(2), of out' n]
        by (simp add: tx_enqueue_sized_def)
    qed
  next
    case False
    then show ?thesis using that [of q1] sz r assms(2) by (simp add: tx_enqueue_sized_def)
  qed
qed

section \<open>Properties\<close>

text \<open>C39: The transmit queue is a first-in first-out byte stream. Starting from a fresh queue,
  after any sequence of enqueues and partial sends, the bytes handed to the transport followed
  by the bytes still pending are exactly the accepted packets in order: nothing is lost,
  duplicated, reordered or torn apart by compaction and index resets, and a refused packet
  leaves no trace.\<close>

theorem tx_queue_fifo:
  assumes "fold (fifo_step tx_enqueue peek consume) xs (tx_new cap, [], []) = (q, accepted, sent)"
  shows "sent @ peek q = accepted \<and> tx_invar q \<and> length (peek q) \<le> cap"
  using tx.fifo_order [OF _ _ assms] tx.bounded by fastforce

theorem tx_queue_fifo_witness:
  "fold (fifo_step tx_enqueue peek consume) [Put [1, 2, 3], Send 2, Put [4, 5], Put [6, 7, 8], Send 1]
     (tx_new 4, [], []) =
     (\<lparr>q_buffer = [3, 4, 5, 0], q_head = 1, q_tail = 3\<rparr>, [1, 2, 3, 4, 5], [1, 2, 3])
   \<and> [1, 2, 3] @ peek \<lparr>q_buffer = [3, 4, 5, 0], q_head = 1, q_tail = 3\<rparr> = [1, 2, 3, 4, 5]"
proof -
  have r: "fold (fifo_step tx_enqueue peek consume) [Put [1, 2, 3], Send 2, Put [4, 5], Put [6, 7, 8], Send 1]
     (tx_new 4, [], []) =
     (\<lparr>q_buffer = [3, 4, 5, 0], q_head = 1, q_tail = 3\<rparr>, [1, 2, 3, 4, 5], [1, 2, 3])" by code_simp
  then show ?thesis using tx_queue_fifo [OF r] by simp
qed

text \<open>\<open>reserve\<close> succeeds exactly when the request fits beside the pending bytes, whatever the
  indices are, and never changes the pending bytes; so \<open>enqueue\<close> refuses a packet only when the
  queue really has no room for it, and then with \<open>TxQueueFull\<close>.\<close>

lemma tx_enqueue_exact:
  assumes "tx_invar q"
  shows "fst (reserve n q) = (tx_pending_bytes q + n \<le> tx_capacity q)
    \<and> peek (snd (reserve n q)) = peek q
    \<and> fst (tx_enqueue bs q) = (if tx_pending_bytes q + length bs \<le> tx_capacity q then Ok else TxQueueFull)"
proof -
  obtain q1 where "reserve n q = (length (peek q) + n \<le> tx_capacity q, q1)" "peek q1 = peek q"
    using reserve_spec [OF assms, of n] by metis
  moreover obtain q2 where
    "tx_enqueue bs q = (if length (peek q) + length bs \<le> tx_capacity q then Ok else TxQueueFull, q2)"
    using tx_enqueue_spec [OF assms, of bs] by metis
  ultimately show ?thesis using length_peek [OF assms] by simp
qed

lemma tx_enqueue_exact_example:
  "tx_invar \<lparr>q_buffer = [1, 2, 3, 4], q_head = 3, q_tail = 4\<rparr>
   \<and> fst (reserve 3 \<lparr>q_buffer = [1, 2, 3, 4], q_head = 3, q_tail = 4\<rparr>)
   \<and> fst (tx_enqueue [7, 8, 9, 10] \<lparr>q_buffer = [1, 2, 3, 4], q_head = 3, q_tail = 4\<rparr>) = TxQueueFull"
proof -
  let ?q = "\<lparr>q_buffer = [1, 2, 3, 4], q_head = 3, q_tail = 4\<rparr>"
  have q: "tx_invar ?q" by (simp add: tx_invar_def)
  show ?thesis using q tx_enqueue_exact [OF q, of 3 "[7, 8, 9, 10]"]
    by (simp add: tx_pending_bytes_def tx_capacity_def)
qed

end
