(* ===== verification/Transport.thy ===== *)
theory Transport
  imports Errors
begin

text \<open>
  \<^verbatim>\<open>include/mqtt/transport.hpp\<close>: the byte stream and the clock the client is driven by. Both are
  abstract classes, so they are a parameter of the client: a record of operations on an
  environment state \<open>'e\<close> that holds whatever the transport, the clock and the application keep.
  The locale \<open>transport_contract\<close> is the documented contract of \<open>Transport\<close>; it is interpreted
  on the in-memory transport and the manual clock of \<^verbatim>\<open>tests/fakes.hpp\<close>.
\<close>

section \<open>The interfaces\<close>

text \<open>
  \<open>tr_send\<close> returns the error and \<open>written\<close>; \<open>tr_recv\<close> gets the bytes of the span it may
  overwrite and returns the error, \<open>read\<close> and the bytes of the span afterwards. \<open>now_ms\<close> may
  answer differently on every call, so it returns the environment too.
\<close>

record 'e platform =
  tr_connect :: "'e \<Rightarrow> Error \<times> 'e"
  tr_send :: "bytes \<Rightarrow> 'e \<Rightarrow> Error \<times> nat \<times> 'e"
  tr_recv :: "bytes \<Rightarrow> 'e \<Rightarrow> Error \<times> nat \<times> bytes \<times> 'e"
  tr_close :: "'e \<Rightarrow> 'e"
  tr_is_connected :: "'e \<Rightarrow> bool"
  now_ms :: "'e \<Rightarrow> u32 \<times> 'e"

definition elapsed_ms :: "u32 \<Rightarrow> u32 \<Rightarrow> u32" where
  "elapsed_ms now since = now - since"

locale transport_contract =
  fixes pl :: "'e platform"
  assumes connect_codes: "fst (tr_connect pl env) \<in> {Ok, WouldBlock, TransportFailure}"
    and send_codes: "tr_send pl data env = (err, written, env') \<Longrightarrow>
      err \<in> {Ok, WouldBlock, TransportClosed, TransportFailure}"
    and send_written: "tr_send pl data env = (err, written, env') \<Longrightarrow>
      written \<le> length data \<and> (err \<noteq> Ok \<longrightarrow> written = 0)"
    and recv_codes: "tr_recv pl buf env = (err, rd, buf', env') \<Longrightarrow>
      err \<in> {Ok, WouldBlock, TransportClosed, TransportFailure}"
    and recv_read: "tr_recv pl buf env = (err, rd, buf', env') \<Longrightarrow>
      length buf' = length buf \<and> rd \<le> length buf \<and> (err \<noteq> Ok \<longrightarrow> rd = 0)"

section \<open>The test doubles\<close>

text \<open>\<open>FakeTransport\<close> and \<open>FakeClock\<close>; the fixed pipe capacity is the field \<open>f_capacity\<close>.\<close>

record fake_env =
  f_connect_delay :: nat
  f_connect_fails :: bool
  f_send_limit :: nat
  f_recv_limit :: nat
  f_send_blocked :: bool
  f_close_when_drained :: bool
  f_connected :: bool
  f_sent :: bytes
  f_inbound :: bytes
  f_inbound_pos :: nat
  f_connect_calls :: nat
  f_close_calls :: nat
  f_capacity :: nat
  f_now :: u32

definition fake_connect :: "fake_env \<Rightarrow> Error \<times> fake_env" where
  "fake_connect env =
     (let env = env\<lparr>f_connect_calls := f_connect_calls env + 1\<rparr> in
      if f_connect_fails env then (TransportFailure, env)
      else if f_connect_delay env > 0 then
        (WouldBlock, env\<lparr>f_connect_delay := f_connect_delay env - 1\<rparr>)
      else (Ok, env\<lparr>f_connected := True\<rparr>))"

definition fake_send :: "bytes \<Rightarrow> fake_env \<Rightarrow> Error \<times> nat \<times> fake_env" where
  "fake_send data env =
     (if \<not> f_connected env then (TransportClosed, 0, env)
      else if f_send_blocked env then (WouldBlock, 0, env)
      else
        let n = length data;
            n = (if f_send_limit env \<noteq> 0 \<and> n > f_send_limit env then f_send_limit env else n);
            n = (if length (f_sent env) + n > f_capacity env
                 then f_capacity env - length (f_sent env) else n)
        in (Ok, n, env\<lparr>f_sent := f_sent env @ take n data\<rparr>))"

definition fake_recv :: "bytes \<Rightarrow> fake_env \<Rightarrow> Error \<times> nat \<times> bytes \<times> fake_env" where
  "fake_recv buffer env =
     (if \<not> f_connected env then (TransportClosed, 0, buffer, env)
      else
        let available = length (f_inbound env) - f_inbound_pos env in
        if available = 0 then
          (if f_close_when_drained env then TransportClosed else WouldBlock, 0, buffer, env)
        else
          let n = available;
              n = (if n > length buffer then length buffer else n);
              n = (if f_recv_limit env \<noteq> 0 \<and> n > f_recv_limit env then f_recv_limit env else n)
          in (Ok, n, write_at buffer 0 (take n (drop (f_inbound_pos env) (f_inbound env))),
              env\<lparr>f_inbound_pos := f_inbound_pos env + n\<rparr>))"

definition fake_close :: "fake_env \<Rightarrow> fake_env" where
  "fake_close env = env\<lparr>f_connected := False, f_close_calls := f_close_calls env + 1\<rparr>"

definition push_inbound :: "bytes \<Rightarrow> fake_env \<Rightarrow> fake_env" where
  "push_inbound data env =
     env\<lparr>f_inbound := f_inbound env @ take (f_capacity env - length (f_inbound env)) data\<rparr>"

definition clear_sent :: "fake_env \<Rightarrow> fake_env" where
  "clear_sent env = env\<lparr>f_sent := []\<rparr>"

definition clear_inbound :: "fake_env \<Rightarrow> fake_env" where
  "clear_inbound env = env\<lparr>f_inbound := [], f_inbound_pos := 0\<rparr>"

definition force_connected :: "fake_env \<Rightarrow> fake_env" where
  "force_connected env = env\<lparr>f_connected := True\<rparr>"

definition advance :: "u32 \<Rightarrow> fake_env \<Rightarrow> fake_env" where
  "advance ms env = env\<lparr>f_now := f_now env + ms\<rparr>"

definition fake_env0 :: fake_env where
  "fake_env0 = \<lparr>f_connect_delay = 0, f_connect_fails = False, f_send_limit = 0, f_recv_limit = 0,
     f_send_blocked = False, f_close_when_drained = False, f_connected = False, f_sent = [],
     f_inbound = [], f_inbound_pos = 0, f_connect_calls = 0, f_close_calls = 0,
     f_capacity = 4096, f_now = 0\<rparr>"

definition fake_platform :: "fake_env platform" where
  "fake_platform = \<lparr>tr_connect = fake_connect, tr_send = fake_send, tr_recv = fake_recv,
     tr_close = fake_close, tr_is_connected = f_connected, now_ms = (\<lambda>env. (f_now env, env))\<rparr>"

interpretation fake: transport_contract fake_platform
  by unfold_locales
    (auto simp: fake_platform_def fake_connect_def fake_send_def fake_recv_def Let_def split: if_splits)

section \<open>Properties\<close>

text \<open>\<open>elapsed_ms\<close> is exact across the wrap of the 32-bit millisecond counter: for any start
  time, and any duration below \<open>2\<^sup>3\<^sup>2\<close> milliseconds, the difference of the two truncated
  clock readings is that duration.\<close>

theorem elapsed_ms_wrap:
  assumes "d < 2 ^ 32"
  shows "unat (elapsed_ms (word_of_nat (t + d)) (word_of_nat t)) = d"
  using assms by (simp add: elapsed_ms_def unat_of_nat)

theorem elapsed_ms_wrap_witness:
  "(20::nat) < 2 ^ 32 \<and> (word_of_nat (4294967280 + 20) :: u32) = 4
   \<and> unat (elapsed_ms (word_of_nat (4294967280 + 20)) (word_of_nat 4294967280)) = 20"
proof (intro conjI)
  show "unat (elapsed_ms (word_of_nat (4294967280 + 20)) (word_of_nat 4294967280)) = 20"
    by (rule elapsed_ms_wrap) simp
qed simp_all

end
