(* ===== verification/Config.thy ===== *)
theory Config
  imports Prelude
begin

text \<open>
  \<^verbatim>\<open>include/mqtt/config.hpp\<close>: the compile-time capacities. The configuration type is a record
  value; \<open>config_check\<close> is the conjunction of the \<open>static_assert\<close>s of \<open>ConfigCheck\<close>.
\<close>

record config =
  rx_buffer_size :: nat
  tx_buffer_size :: nat
  max_topic_len :: nat
  max_client_id_len :: nat
  max_username_len :: nat
  max_password_len :: nat
  max_inflight_out :: nat
  max_persisted_msg_size :: nat
  max_inflight_in :: nat
  max_subscriptions :: nat
  max_pending_acks :: nat
  max_topics_per_request :: nat
  retry_interval_ms :: u32
  connect_timeout_ms :: u32

definition DefaultConfig :: config where
  "DefaultConfig = \<lparr>rx_buffer_size = 1024, tx_buffer_size = 1024, max_topic_len = 64,
     max_client_id_len = 24, max_username_len = 32, max_password_len = 32, max_inflight_out = 4,
     max_persisted_msg_size = 256, max_inflight_in = 4, max_subscriptions = 8,
     max_pending_acks = 4, max_topics_per_request = 4, retry_interval_ms = 20000,
     connect_timeout_ms = 30000\<rparr>"

definition config_check :: "config \<Rightarrow> bool" where
  "config_check cfg \<longleftrightarrow> rx_buffer_size cfg \<ge> 16 \<and> tx_buffer_size cfg \<ge> 16
     \<and> max_topic_len cfg \<ge> 1 \<and> max_client_id_len cfg \<ge> 1 \<and> max_topics_per_request cfg \<ge> 1
     \<and> (max_inflight_out cfg = 0 \<or> max_persisted_msg_size cfg \<ge> 8)
     \<and> rx_buffer_size cfg \<le> 268435460"

definition at_least_one :: "nat \<Rightarrow> nat" where
  "at_least_one n = (if n > 0 then n else 1)"

lemma at_least_one_ge [simp]: "n \<le> at_least_one n" "0 < at_least_one n"
  by (simp_all add: at_least_one_def)

lemma DefaultConfig_check: "config_check DefaultConfig"
  by (simp add: config_check_def DefaultConfig_def)

end
