(* ===== verification/Client_State.thy ===== *)
theory Client_State
  imports Codec_Decode Tx_Queue Transport Config "HOL-Library.Code_Target_Nat"
begin

text \<open>
  \<^verbatim>\<open>include/mqtt/client.hpp\<close>, the state of a client: its members as a record, the tables, and the
  private helpers on the tables and on the transmit queue. \<open>c_env\<close> stands for the borrowed
  transport and clock (and the application's own state), and \<open>c_log\<close> is a ghost field with the
  handler calls so far; every other field is a member of the class.
\<close>

section \<open>Members\<close>

datatype State = Idle | Connecting | AwaitingConnack | Connected | Disconnecting

fun state_to_string :: "State \<Rightarrow> string" where
  "state_to_string Idle = ''Idle''"
| "state_to_string Connecting = ''Connecting''"
| "state_to_string AwaitingConnack = ''AwaitingConnack''"
| "state_to_string Connected = ''Connected''"
| "state_to_string Disconnecting = ''Disconnecting''"

datatype Phase = Free | WaitPuback | WaitPubrec | WaitPubcomp

record OutboundSlot =
  sl_packet :: bytes
  sl_packet_id :: u16
  sl_packet_len :: u16
  sl_last_sent_ms :: u32
  sl_qos :: QoS
  sl_phase :: Phase

text \<open>A handler slot is empty or names a callable of the application.\<close>

type_synonym handler = "nat option"

record Subscription =
  su_filter :: bytes
  su_handler :: handler
  su_sub_id :: u16
  su_requested_qos :: QoS
  su_granted_qos :: u8
  su_needs_resub :: bool

record PendingAck =
  pa_subs :: "u16 list"
  pa_sent_ms :: u32
  pa_packet_id :: u16
  pa_expected :: PacketType

text \<open>The handler calls: which callable, with which arguments.\<close>

datatype event =
    OnMessage nat Message
  | OnConnect nat ConnackInfo
  | OnDisconnect nat Error
  | OnDelivery nat u16
  | OnSuback nat u16 bytes

record 'e client =
  c_env :: 'e
  c_tx :: TxQueue
  c_rx :: bytes
  c_rx_len :: nat
  c_outbound :: "OutboundSlot list"
  c_inbound_ids :: "u16 list"
  c_subscriptions :: "Subscription list"
  c_pending :: "PendingAck list"
  c_on_message :: handler
  c_on_connect :: handler
  c_on_disconnect :: handler
  c_on_delivery :: handler
  c_on_suback :: handler
  c_connack :: ConnackInfo
  c_state :: State
  c_last_error :: Error
  c_in_step :: bool
  c_keep_alive_ms :: u32
  c_last_sent_ms :: u32
  c_last_received_ms :: u32
  c_ping_sent_ms :: u32
  c_connect_started_ms :: u32
  c_inbound_overflow_count :: u32
  c_tx_backpressure_count :: u32
  c_next_packet_id :: u16
  c_next_sub_id :: u16
  c_ping_outstanding :: bool
  c_clean_session :: bool
  c_retransmit_now :: bool
  c_log :: "event list"

text \<open>
  What an instance of the class is compiled and linked with: the configuration, the byte
  streams, the transport and clock, and the application's handlers. A handler gets the client it
  is called from (through the application's reference to it) and returns it as it leaves it.
\<close>

record ('w, 'r, 'e) client_ctx =
  cx_cfg :: config
  cx_etl :: "('w, 'r) etl_ops"
  cx_pl :: "'e platform"
  cx_app :: "event \<Rightarrow> 'e client \<Rightarrow> 'e client"

section \<open>Construction and handlers\<close>

definition kOutSlots :: "config \<Rightarrow> nat" where "kOutSlots cfg = at_least_one (max_inflight_out cfg)"
definition kPersistSize :: "config \<Rightarrow> nat" where
  "kPersistSize cfg = at_least_one (max_persisted_msg_size cfg)"
definition kInSlots :: "config \<Rightarrow> nat" where "kInSlots cfg = at_least_one (max_inflight_in cfg)"
definition kSubSlots :: "config \<Rightarrow> nat" where "kSubSlots cfg = at_least_one (max_subscriptions cfg)"
definition kAckSlots :: "config \<Rightarrow> nat" where "kAckSlots cfg = at_least_one (max_pending_acks cfg)"

definition empty_slot :: "config \<Rightarrow> OutboundSlot" where
  "empty_slot cfg = \<lparr>sl_packet = replicate (kPersistSize cfg) 0, sl_packet_id = 0, sl_packet_len = 0,
     sl_last_sent_ms = 0, sl_qos = AtMostOnce, sl_phase = Free\<rparr>"

definition new_client :: "config \<Rightarrow> 'e \<Rightarrow> 'e client" where
  "new_client cfg env = \<lparr>c_env = env, c_tx = tx_new (tx_buffer_size cfg),
     c_rx = replicate (rx_buffer_size cfg) 0, c_rx_len = 0,
     c_outbound = replicate (kOutSlots cfg) (empty_slot cfg), c_inbound_ids = [],
     c_subscriptions = [], c_pending = [], c_on_message = None, c_on_connect = None,
     c_on_disconnect = None, c_on_delivery = None, c_on_suback = None, c_connack = default_connack,
     c_state = Idle, c_last_error = Ok, c_in_step = False, c_keep_alive_ms = 0, c_last_sent_ms = 0,
     c_last_received_ms = 0, c_ping_sent_ms = 0, c_connect_started_ms = 0,
     c_inbound_overflow_count = 0, c_tx_backpressure_count = 0, c_next_packet_id = 0,
     c_next_sub_id = 0, c_ping_outstanding = False, c_clean_session = True,
     c_retransmit_now = False, c_log = []\<rparr>"

definition on_message :: "handler \<Rightarrow> 'e client \<Rightarrow> 'e client" where
  "on_message h s = s\<lparr>c_on_message := h\<rparr>"
definition on_connect :: "handler \<Rightarrow> 'e client \<Rightarrow> 'e client" where
  "on_connect h s = s\<lparr>c_on_connect := h\<rparr>"
definition on_disconnect :: "handler \<Rightarrow> 'e client \<Rightarrow> 'e client" where
  "on_disconnect h s = s\<lparr>c_on_disconnect := h\<rparr>"
definition on_delivery_complete :: "handler \<Rightarrow> 'e client \<Rightarrow> 'e client" where
  "on_delivery_complete h s = s\<lparr>c_on_delivery := h\<rparr>"
definition on_suback :: "handler \<Rightarrow> 'e client \<Rightarrow> 'e client" where
  "on_suback h s = s\<lparr>c_on_suback := h\<rparr>"

definition run_handler :: "('w, 'r, 'e) client_ctx \<Rightarrow> event \<Rightarrow> 'e client \<Rightarrow> 'e client" where
  "run_handler cx ev s = cx_app cx ev (s\<lparr>c_log := c_log s @ [ev]\<rparr>)"

definition call_if ::
  "('w, 'r, 'e) client_ctx \<Rightarrow> handler \<Rightarrow> (nat \<Rightarrow> event) \<Rightarrow> 'e client \<Rightarrow> 'e client" where
  "call_if cx h ev s = (case h of None \<Rightarrow> s | Some k \<Rightarrow> run_handler cx (ev k) s)"

text \<open>\<open>clock_.now_ms()\<close>.\<close>

definition read_clock :: "('w, 'r, 'e) client_ctx \<Rightarrow> 'e client \<Rightarrow> u32 \<times> 'e client" where
  "read_clock cx s = (case now_ms (cx_pl cx) (c_env s) of (t, env) \<Rightarrow> (t, s\<lparr>c_env := env\<rparr>))"

section \<open>Introspection\<close>

definition state_of :: "'e client \<Rightarrow> State" where
  "state_of s = c_state s"

definition last_error :: "'e client \<Rightarrow> Error" where
  "last_error s = c_last_error s"

definition connack :: "'e client \<Rightarrow> ConnackInfo" where
  "connack s = c_connack s"

definition inbound_overflow_count :: "'e client \<Rightarrow> u32" where
  "inbound_overflow_count s = c_inbound_overflow_count s"

definition tx_backpressure_count :: "'e client \<Rightarrow> u32" where
  "tx_backpressure_count s = c_tx_backpressure_count s"

definition is_connected :: "'e client \<Rightarrow> bool" where
  "is_connected s \<longleftrightarrow> c_state s = Connected"

definition inflight_count :: "config \<Rightarrow> 'e client \<Rightarrow> nat" where
  "inflight_count cfg s = length (filter (\<lambda>i. sl_phase (c_outbound s ! i) \<noteq> Free) [0..<max_inflight_out cfg])"

definition subscription_count :: "'e client \<Rightarrow> nat" where
  "subscription_count s = length (c_subscriptions s)"

definition ms_since_last_receive :: "('w, 'r, 'e) client_ctx \<Rightarrow> 'e client \<Rightarrow> u32 \<times> 'e client" where
  "ms_since_last_receive cx s =
     (case read_clock cx s of (now, s) \<Rightarrow> (elapsed_ms now (c_last_received_ms s), s))"

definition tx_pending :: "'e client \<Rightarrow> nat" where
  "tx_pending s = tx_pending_bytes (c_tx s)"

end
