(* ===== verification/Client_Tables.thy ===== *)
theory Client_Tables
  imports Client_State
begin

text \<open>
  The private helpers of \<^verbatim>\<open>include/mqtt/client.hpp\<close>: capacity tests, lookups and removals in the
  tables, the two cyclic identifier allocators, the transmit helpers and \<open>shutdown\<close>. A pointer
  into a table is the index of the entry.
\<close>

section \<open>Capacity tests and sizes\<close>

definition ack_table_full :: "config \<Rightarrow> 'e client \<Rightarrow> bool" where
  "ack_table_full cfg s \<longleftrightarrow> length (c_pending s) \<ge> max_pending_acks cfg"

definition inbound_table_full :: "config \<Rightarrow> 'e client \<Rightarrow> bool" where
  "inbound_table_full cfg s \<longleftrightarrow> length (c_inbound_ids s) \<ge> max_inflight_in cfg"

definition vbi_size_c :: "u32 \<Rightarrow> nat" where
  "vbi_size_c v = (if v < 128 then 1 else if v < 16384 then 2 else if v < 2097152 then 3 else 4)"

definition packet_size :: "u32 \<Rightarrow> nat" where
  "packet_size remaining_length = 1 + vbi_size_c remaining_length + unat remaining_length"

section \<open>Outbound slots\<close>

definition free_outbound_slot :: "config \<Rightarrow> 'e client \<Rightarrow> nat option" where
  "free_outbound_slot cfg s =
     List.find (\<lambda>i. sl_phase (c_outbound s ! i) = Free) [0..<max_inflight_out cfg]"

definition find_outbound :: "config \<Rightarrow> u16 \<Rightarrow> 'e client \<Rightarrow> nat option" where
  "find_outbound cfg pid s =
     List.find (\<lambda>i. sl_phase (c_outbound s ! i) \<noteq> Free \<and> sl_packet_id (c_outbound s ! i) = pid)
       [0..<max_inflight_out cfg]"

text \<open>A write through a pointer to an outbound slot.\<close>

definition update_slot :: "nat \<Rightarrow> (OutboundSlot \<Rightarrow> OutboundSlot) \<Rightarrow> 'e client \<Rightarrow> 'e client" where
  "update_slot i f s = s\<lparr>c_outbound := (c_outbound s)[i := f (c_outbound s ! i)]\<rparr>"

definition release_slot :: "OutboundSlot \<Rightarrow> OutboundSlot" where
  "release_slot slot = slot\<lparr>sl_phase := Free, sl_packet_id := 0, sl_packet_len := 0\<rparr>"

definition mark_dup :: "OutboundSlot \<Rightarrow> OutboundSlot" where
  "mark_dup slot =
     (if sl_packet_len slot = 0 then slot
      else
        let ty = drop_bit 4 (sl_packet slot ! 0) AND 0x0F in
        if ty = ptype_value Publish
        then slot\<lparr>sl_packet := (sl_packet slot)[0 := sl_packet slot ! 0 OR 0x08]\<rparr> else slot)"

text \<open>The bytes of a slot that a retransmission sends.\<close>

definition slot_bytes :: "OutboundSlot \<Rightarrow> bytes" where
  "slot_bytes slot = take (unat (sl_packet_len slot)) (sl_packet slot)"

section \<open>Inbound identifiers, subscriptions and pending acknowledgements\<close>

text \<open>Removal of the first entry that satisfies a test, as the erase loops do it.\<close>

fun erase_first :: "('a \<Rightarrow> bool) \<Rightarrow> 'a list \<Rightarrow> 'a list" where
  "erase_first P [] = []"
| "erase_first P (x # xs) = (if P x then xs else x # erase_first P xs)"

definition inbound_contains :: "u16 \<Rightarrow> 'e client \<Rightarrow> bool" where
  "inbound_contains pid s \<longleftrightarrow> list_ex (\<lambda>v. v = pid) (c_inbound_ids s)"

definition inbound_remove :: "u16 \<Rightarrow> 'e client \<Rightarrow> 'e client" where
  "inbound_remove pid s = s\<lparr>c_inbound_ids := erase_first (\<lambda>v. v = pid) (c_inbound_ids s)\<rparr>"

definition find_subscription :: "bytes \<Rightarrow> 'e client \<Rightarrow> nat option" where
  "find_subscription filt s =
     List.find (\<lambda>i. su_filter (c_subscriptions s ! i) = filt) [0..<length (c_subscriptions s)]"

definition find_by_sub_id :: "u16 \<Rightarrow> 'e client \<Rightarrow> nat option" where
  "find_by_sub_id sid s =
     List.find (\<lambda>i. su_sub_id (c_subscriptions s ! i) = sid) [0..<length (c_subscriptions s)]"

definition update_sub :: "nat \<Rightarrow> (Subscription \<Rightarrow> Subscription) \<Rightarrow> 'e client \<Rightarrow> 'e client" where
  "update_sub i f s = s\<lparr>c_subscriptions := (c_subscriptions s)[i := f (c_subscriptions s ! i)]\<rparr>"

definition erase_subscription :: "u16 \<Rightarrow> 'e client \<Rightarrow> 'e client" where
  "erase_subscription sid s =
     s\<lparr>c_subscriptions := erase_first (\<lambda>u. su_sub_id u = sid) (c_subscriptions s)\<rparr>"

definition find_pending :: "u16 \<Rightarrow> PacketType \<Rightarrow> 'e client \<Rightarrow> nat option" where
  "find_pending pid expected s =
     List.find (\<lambda>i. pa_packet_id (c_pending s ! i) = pid \<and> pa_expected (c_pending s ! i) = expected)
       [0..<length (c_pending s)]"

definition remove_pending :: "nat \<Rightarrow> 'e client \<Rightarrow> 'e client" where
  "remove_pending i s = s\<lparr>c_pending := take i (c_pending s) @ drop (Suc i) (c_pending s)\<rparr>"

definition mark_resub :: "'e client \<Rightarrow> 'e client" where
  "mark_resub s = s\<lparr>c_subscriptions := map (\<lambda>u. u\<lparr>su_needs_resub := True\<rparr>) (c_subscriptions s)\<rparr>"

section \<open>Identifier allocation\<close>

definition packet_id_in_use :: "config \<Rightarrow> 'e client \<Rightarrow> u16 \<Rightarrow> bool" where
  "packet_id_in_use cfg s pid \<longleftrightarrow>
     list_ex (\<lambda>i. sl_phase (c_outbound s ! i) \<noteq> Free \<and> sl_packet_id (c_outbound s ! i) = pid)
       [0..<max_inflight_out cfg]
     \<or> list_ex (\<lambda>a. pa_packet_id a = pid) (c_pending s)"

definition next_id :: "u16 \<Rightarrow> u16" where
  "next_id n = (if n = 65535 then 1 else n + 1)"

text \<open>The loop of both allocators: the identifier found (0 when the tries are spent) and the
  value of the counter member afterwards.\<close>

fun alloc_loop :: "(u16 \<Rightarrow> bool) \<Rightarrow> nat \<Rightarrow> u16 \<Rightarrow> u16 \<times> u16" where
  "alloc_loop in_use 0 n = (0, n)"
| "alloc_loop in_use (Suc tries) n =
     (let n = next_id n in if \<not> in_use n then (n, n) else alloc_loop in_use tries n)"

definition alloc_packet_id :: "config \<Rightarrow> 'e client \<Rightarrow> u16 \<times> 'e client" where
  "alloc_packet_id cfg s =
     (case alloc_loop (packet_id_in_use cfg s) 65535 (c_next_packet_id s) of
        (pid, n) \<Rightarrow> (pid, s\<lparr>c_next_packet_id := n\<rparr>))"

definition alloc_sub_id :: "'e client \<Rightarrow> u16 \<times> 'e client" where
  "alloc_sub_id s =
     (case alloc_loop (\<lambda>sid. find_by_sub_id sid s \<noteq> None) 65535 (c_next_sub_id s) of
        (sid, n) \<Rightarrow> (sid, s\<lparr>c_next_sub_id := n\<rparr>))"

section \<open>Transmit helpers\<close>

definition enqueue :: "bytes \<Rightarrow> 'e client \<Rightarrow> Error \<times> 'e client" where
  "enqueue bs s = (case tx_enqueue bs (c_tx s) of (e, q) \<Rightarrow> (e, s\<lparr>c_tx := q\<rparr>))"

definition enqueue_sized ::
  "config \<Rightarrow> nat \<Rightarrow> (bytes \<Rightarrow> nat Result \<times> bytes) \<Rightarrow> 'e client \<Rightarrow> Error \<times> 'e client" where
  "enqueue_sized cfg sz encode s =
     (case tx_enqueue_sized (tx_buffer_size cfg) sz encode (c_tx s) of (e, q) \<Rightarrow> (e, s\<lparr>c_tx := q\<rparr>))"

definition send_ack :: "('w, 'r, 'e) client_ctx \<Rightarrow> PacketType \<Rightarrow> u16 \<Rightarrow> 'e client \<Rightarrow> Error \<times> 'e client" where
  "send_ack cx ty pid s =
     enqueue_sized (cx_cfg cx) (packet_size 2) (\<lambda>out. encode_ack (cx_etl cx) out ty pid) s"

section \<open>Session state\<close>

definition reset_session_state :: "'e client \<Rightarrow> 'e client" where
  "reset_session_state s =
     mark_resub (s\<lparr>c_outbound := map release_slot (c_outbound s), c_inbound_ids := [], c_pending := [],
       c_next_packet_id := 0\<rparr>)"

text \<open>\<open>shutdown\<close> up to the notification of the handler.\<close>

definition end_session :: "('w, 'r, 'e) client_ctx \<Rightarrow> Error \<Rightarrow> 'e client \<Rightarrow> 'e client" where
  "end_session cx reason s =
     (let s = s\<lparr>c_env := tr_close (cx_pl cx) (c_env s)\<rparr>;
          s = s\<lparr>c_tx := tx_clear (c_tx s), c_rx_len := 0, c_ping_outstanding := False,
                c_state := Idle, c_last_error := reason, c_pending := []\<rparr>;
          s = (if c_clean_session s
               then s\<lparr>c_outbound := map release_slot (c_outbound s), c_inbound_ids := []\<rparr> else s)
      in mark_resub s)"

definition shutdown :: "('w, 'r, 'e) client_ctx \<Rightarrow> Error \<Rightarrow> 'e client \<Rightarrow> Error \<times> 'e client" where
  "shutdown cx reason s =
     (let notify = (c_state s \<noteq> Idle);
          s = end_session cx reason s
      in (reason, if notify then call_if cx (c_on_disconnect s) (\<lambda>k. OnDisconnect k reason) s else s))"

end
