(* ===== verification/Client_Ids.thy ===== *)
theory Client_Ids
  imports Client_Tables
begin

text \<open>
  Lemmas on the tables of the client: lookups by the first match, removals, and the two cyclic
  identifier allocators. The contract of an allocator is the locale \<open>id_source\<close>: it returns a
  non-zero identifier that is not in use, or 0 when all 65535 are. Both allocators satisfy it.
\<close>

section \<open>First matches\<close>

lemma find_upt_Some:
  "List.find P [0..<n] = Some i \<Longrightarrow> i < n \<and> P i \<and> (\<forall>j < i. \<not> P j)"
  by (force simp: find_Some_iff)

lemma find_upt_None: "List.find P [0..<n] = None \<longleftrightarrow> (\<forall>i < n. \<not> P i)"
  by (auto simp: find_None_iff)

lemma set_erase_first: "set (erase_first P xs) \<subseteq> set xs"
  by (induction xs) auto

lemma length_erase_first: "length (erase_first P xs) \<le> length xs"
  by (induction xs) auto

lemma distinct_erase_first: "distinct (map f xs) \<Longrightarrow> distinct (map f (erase_first P xs))"
proof (induction xs)
  case (Cons x xs)
  have "f ` set (erase_first P xs) \<subseteq> f ` set xs" by (rule image_mono) (rule set_erase_first)
  then show ?case using Cons by auto
qed simp

lemma erase_first_eq: "distinct (map f xs) \<Longrightarrow> erase_first (\<lambda>x. f x = k) xs = filter (\<lambda>x. f x \<noteq> k) xs"
proof (induction xs)
  case (Cons x xs)
  show ?case
  proof (cases "f x = k")
    case True
    then have "\<forall>y \<in> set xs. f y \<noteq> k" using Cons.prems by (auto simp: image_iff)
    then show ?thesis using True by (simp add: filter_id_conv)
  qed (use Cons in simp)
qed simp

section \<open>Identifier allocation\<close>

lemma next_id_nonzero [simp]: "next_id n \<noteq> 0"
proof (cases "n = 65535")
  case False
  then have "unat n \<noteq> 65535" by (simp add: word_unat_eq_iff)
  then have "unat (n + 1) \<noteq> 0" using unat_u16_less [of n] by (simp add: unat_word_ariths)
  then show ?thesis using False by (auto simp: next_id_def)
qed (simp add: next_id_def)

lemma unat_next_id: "n \<noteq> 0 \<Longrightarrow> unat (next_id n) = unat n mod 65535 + 1"
proof -
  assume "n \<noteq> 0"
  then have pos: "0 < unat n" by (simp add: unat_gt_0)
  show ?thesis
  proof (cases "n = 65535")
    case False
    then have "unat n \<noteq> 65535" by (simp add: word_unat_eq_iff)
    then have "unat n < 65535" using unat_u16_less [of n] by simp
    moreover have "unat (n + 1) = (unat n + 1) mod 65536" by (simp add: unat_word_ariths)
    ultimately show ?thesis using False by (simp add: next_id_def)
  qed (simp add: next_id_def)
qed

text \<open>The counter runs through all non-zero identifiers.\<close>

lemma unat_next_id_power:
  "n \<noteq> 0 \<Longrightarrow> unat ((next_id ^^ j) n) = (unat n - 1 + j) mod 65535 + 1 \<and> (next_id ^^ j) n \<noteq> 0"
proof (induction j)
  case 0
  then have "unat n - 1 < 65535" "0 < unat n" using unat_u16_less [of n] by (simp_all add: unat_gt_0)
  then show ?case using 0 by simp
next
  case (Suc j)
  then show ?case by (simp add: unat_next_id mod_Suc_eq)
qed

lemma next_id_reaches:
  assumes "pid \<noteq> 0"
  shows "\<exists>j. 1 \<le> j \<and> j \<le> 65535 \<and> (next_id ^^ j) n = pid"
proof -
  have b: "0 < unat pid" "unat pid \<le> 65535" using assms unat_u16_less [of pid] by (simp_all add: unat_gt_0)
  show ?thesis
  proof (cases "n = 0")
    case True
    have "unat ((next_id ^^ (unat pid - 1)) 1) = unat pid"
      using unat_next_id_power [of 1 "unat pid - 1"] b by simp
    then have "(next_id ^^ (unat pid - 1)) (next_id 0) = pid" by (simp add: word_unat_eq_iff next_id_def)
    then have "(next_id ^^ Suc (unat pid - 1)) n = pid" using True by (simp add: funpow_swap1)
    then show ?thesis using b by (intro exI [of _ "Suc (unat pid - 1)"]) simp
  next
    case False
    then have bn: "0 < unat n" "unat n \<le> 65535" using unat_u16_less [of n] by (simp_all add: unat_gt_0)
    define j where "j = (if unat pid > unat n then unat pid - unat n else 65535 + unat pid - unat n)"
    have "(unat n - 1 + j) mod 65535 + 1 = unat pid"
    proof (cases "unat pid > unat n")
      case False
      then have "unat n - 1 + j = 65535 + (unat pid - 1)" using b bn by (simp add: j_def)
      then have "(unat n - 1 + j) mod 65535 = unat pid - 1" using b by (simp only: mod_add_self1) simp
      then show ?thesis using b by simp
    qed (use b bn in \<open>simp add: j_def\<close>)
    then have "(next_id ^^ j) n = pid" using unat_next_id_power [OF False, of j] by (simp add: word_unat_eq_iff)
    moreover have "1 \<le> j" "j \<le> 65535" using b bn by (auto simp: j_def)
    ultimately show ?thesis by blast
  qed
qed

lemma alloc_loop_fresh:
  "alloc_loop P k n = (pid, n') \<Longrightarrow> pid \<noteq> 0 \<Longrightarrow> \<not> P pid \<and> n' = pid"
  by (induction k arbitrary: n) (auto simp: Let_def split: if_splits)

lemma alloc_loop_first:
  assumes "\<not> P (next_id n)"
  shows "alloc_loop P 65535 n = (next_id n, next_id n)"
proof -
  have "alloc_loop P (Suc 65534) n = (next_id n, next_id n)"
    using assms by (simp only: alloc_loop.simps Let_def simp_thms if_True)
  then show ?thesis by simp
qed

lemma alloc_loop_zero:
  "alloc_loop P k n = (0, n') \<Longrightarrow> 1 \<le> j \<Longrightarrow> j \<le> k \<Longrightarrow> P ((next_id ^^ j) n)"
proof (induction k arbitrary: n j)
  case (Suc k)
  have p: "P (next_id n)" "alloc_loop P k (next_id n) = (0, n')"
    using Suc.prems by (auto simp: Let_def split: if_splits)
  show ?case
  proof (cases "j = 1")
    case False
    then have "P ((next_id ^^ (j - 1)) (next_id n))" using Suc p by simp
    moreover have "(next_id ^^ (j - 1)) (next_id n) = (next_id ^^ Suc (j - 1)) n" by (simp add: funpow_swap1)
    ultimately show ?thesis using Suc.prems by simp
  qed (use p in simp)
qed simp

lemma alloc_loop_exhausted: "alloc_loop P 65535 n = (0, n') \<Longrightarrow> pid \<noteq> 0 \<Longrightarrow> P pid"
  using next_id_reaches [of pid n] alloc_loop_zero [of P 65535 n n'] by blast

text \<open>The contract of an identifier source on a state \<open>'s\<close>.\<close>

locale id_source =
  fixes alloc :: "'s \<Rightarrow> u16 \<times> 's" and in_use :: "'s \<Rightarrow> u16 \<Rightarrow> bool"
  assumes fresh: "alloc s = (pid, s') \<Longrightarrow> pid \<noteq> 0 \<Longrightarrow> \<not> in_use s pid"
    and exhausted: "alloc s = (0, s') \<Longrightarrow> pid \<noteq> 0 \<Longrightarrow> in_use s pid"
    and keeps: "alloc s = (pid, s') \<Longrightarrow> in_use s' = in_use s"
begin

text \<open>With fewer than 65535 identifiers in use there is always a fresh one.\<close>

lemma alloc_succeeds:
  assumes "\<And>pid. in_use s pid \<Longrightarrow> pid \<in> set ids" and "length ids < 65535"
  shows "fst (alloc s) \<noteq> 0"
proof
  assume z: "fst (alloc s) = 0"
  then have "alloc s = (0, snd (alloc s))" by (metis prod.collapse)
  then have "in_use s pid" if "pid \<noteq> 0" for pid using that by (rule exhausted)
  then have "UNIV - {0} \<subseteq> set ids" using assms(1) by auto
  then have "card (UNIV - {0 :: u16}) \<le> card (set ids)" by (intro card_mono) auto
  moreover have "card (UNIV - {0 :: u16}) = 65535" by (simp add: card_word)
  ultimately show False using assms(2) card_length [of ids] by simp
qed

end

interpretation packet_ids: id_source "alloc_packet_id cfg" "packet_id_in_use cfg" for cfg
proof (unfold_locales, goal_cases)
  case (1 s pid s')
  then show ?case using alloc_loop_fresh by (fastforce simp: alloc_packet_id_def split: prod.splits)
next
  case (2 s s' pid)
  then show ?case using alloc_loop_exhausted by (fastforce simp: alloc_packet_id_def split: prod.splits)
next
  case (3 s pid s')
  then show ?case by (auto simp: alloc_packet_id_def packet_id_in_use_def fun_eq_iff split: prod.splits)
qed

interpretation sub_ids: id_source alloc_sub_id "\<lambda>s sid. find_by_sub_id sid s \<noteq> None"
proof (unfold_locales, goal_cases)
  case (1 s pid s')
  then show ?case using alloc_loop_fresh by (fastforce simp: alloc_sub_id_def split: prod.splits)
next
  case (2 s s' pid)
  then show ?case using alloc_loop_exhausted [of "\<lambda>sid. find_by_sub_id sid s \<noteq> None"]
    by (fastforce simp: alloc_sub_id_def split: prod.splits)
next
  case (3 s pid s')
  then show ?case by (auto simp: alloc_sub_id_def find_by_sub_id_def fun_eq_iff split: prod.splits)
qed

section \<open>Properties\<close>

text \<open>C40: Packet identifiers and subscription identifiers are allocated fresh. Either the
  allocator returns a non-zero identifier that nothing outstanding uses, wherever the 16-bit
  counter stands and across its wrap, or it returns 0 and all 65535 identifiers really are in
  use.\<close>

theorem allocation_fresh:
  assumes "alloc_packet_id cfg s = (pid, s1)" and "alloc_sub_id s = (sid, s2)"
  shows "(if pid = 0 then \<forall>n. n \<noteq> 0 \<longrightarrow> packet_id_in_use cfg s n else \<not> packet_id_in_use cfg s pid)
    \<and> (if sid = 0 then \<forall>n. n \<noteq> 0 \<longrightarrow> find_by_sub_id n s \<noteq> None else find_by_sub_id sid s = None)"
  using packet_ids.fresh [OF assms(1)] packet_ids.exhausted [of cfg s s1] sub_ids.fresh [OF assms(2)]
    sub_ids.exhausted [of s s2] assms by (cases "pid = 0"; cases "sid = 0") auto

theorem allocation_fresh_witness:
  "\<not> packet_id_in_use DefaultConfig (new_client DefaultConfig ()) 1
   \<and> find_by_sub_id 1 (new_client DefaultConfig ()) = None"
proof -
  let ?s = "new_client DefaultConfig () :: unit client"
  have l: "alloc_loop P 65535 0 = (1, 1)" if "\<not> P 1" for P
    using alloc_loop_first [of P 0] that by (simp add: next_id_def)
  have p: "\<not> packet_id_in_use DefaultConfig ?s 1" and f: "find_by_sub_id 1 ?s = None"
    by (simp_all add: packet_id_in_use_def find_by_sub_id_def new_client_def list_ex_iff kOutSlots_def
        at_least_one_def DefaultConfig_def empty_slot_def)
  have a: "alloc_packet_id DefaultConfig ?s = (1, ?s\<lparr>c_next_packet_id := 1\<rparr>)"
    using l [of "packet_id_in_use DefaultConfig ?s"] p by (simp add: alloc_packet_id_def new_client_def)
  have b: "alloc_sub_id ?s = (1, ?s\<lparr>c_next_sub_id := 1\<rparr>)"
    using l [of "\<lambda>sid. find_by_sub_id sid ?s \<noteq> None"] f by (simp add: alloc_sub_id_def new_client_def)
  show ?thesis using allocation_fresh [OF a b] by simp
qed

end
