(* ===== verification/Client_Api.thy ===== *)
theory Client_Api
  imports Client_Tables
begin

text \<open>
  The calls of the application on a \<open>Client\<close> (\<^verbatim>\<open>include/mqtt/client.hpp\<close>): \<open>connect\<close>, \<open>disconnect\<close>,
  \<open>abort\<close>, \<open>publish\<close>, \<open>subscribe\<close> and \<open>unsubscribe\<close>. Each returns its error with the client; the
  calls with an out-parameter \<open>out_packet_id\<close> also return what they store there.
\<close>

section \<open>Lifecycle\<close>

definition connect :: "('w, 'r, 'e) client_ctx \<Rightarrow> ConnectOptions \<Rightarrow> 'e client \<Rightarrow> Error \<times> 'e client" where
  "connect cx opts s =
     (if c_state s \<noteq> Idle then (AlreadyConnected, s)
      else if length (o_client_id opts) > max_client_id_len (cx_cfg cx) then (InvalidArgument, s)
      else if length (o_username opts) > max_username_len (cx_cfg cx) then (InvalidArgument, s)
      else if length (o_password opts) > max_password_len (cx_cfg cx) then (InvalidArgument, s)
      else if will_valid (o_will opts) \<and> \<not> is_valid_topic_name (w_topic (o_will opts))
      then (InvalidArgument, s)
      else if o_client_id opts = [] \<and> \<not> o_clean_session opts then (InvalidArgument, s)
      else
        (case connect_remaining_length opts of
           Inl e \<Rightarrow> (e, s)
         | Inr rl \<Rightarrow>
             let s = s\<lparr>c_tx := tx_clear (c_tx s), c_rx_len := 0\<rparr>;
                 s = (if o_clean_session opts then reset_session_state s else s)
             in
             then_do
               (enqueue_sized (cx_cfg cx) (packet_size rl) (\<lambda>out. encode_connect (cx_etl cx) out opts) s)
               (\<lambda>s.
                 let s = s\<lparr>c_clean_session := o_clean_session opts,
                           c_keep_alive_ms := ucast (o_keep_alive_s opts) * 1000,
                           c_connack := default_connack, c_last_error := Ok\<rparr>
                 in
                 (case read_clock cx s of
                    (now, s) \<Rightarrow>
                      (Ok, s\<lparr>c_connect_started_ms := now, c_last_sent_ms := now,
                             c_last_received_ms := now, c_ping_outstanding := False,
                             c_state := Connecting\<rparr>)))))"

definition disconnect :: "('w, 'r, 'e) client_ctx \<Rightarrow> 'e client \<Rightarrow> Error \<times> 'e client" where
  "disconnect cx s =
     (if c_state s = Idle then (NotConnected, s)
      else if c_state s = Connected then
        (case enqueue_sized (cx_cfg cx) (packet_size 0) (\<lambda>out. encode_empty (cx_etl cx) out Disconnect) s of
           (e, s) \<Rightarrow>
             if e = Ok then (Ok, s\<lparr>c_state := Disconnecting\<rparr>)
             else (Ok, snd (shutdown cx Ok s)))
      else (Ok, snd (shutdown cx Ok s)))"

definition abort :: "('w, 'r, 'e) client_ctx \<Rightarrow> 'e client \<Rightarrow> 'e client" where
  "abort cx s = snd (shutdown cx TransportClosed s)"

section \<open>Publish\<close>

definition publish ::
  "('w, 'r, 'e) client_ctx \<Rightarrow> bytes \<Rightarrow> bytes \<Rightarrow> QoS \<Rightarrow> bool \<Rightarrow> 'e client \<Rightarrow> Error \<times> u16 option \<times> 'e client"
where
  "publish cx topic payload qos retain s =
     (if c_state s \<noteq> Connected then (NotConnected, None, s)
      else if \<not> is_valid_topic_name topic then (InvalidArgument, None, s)
      else if length topic > max_topic_len (cx_cfg cx) then (TopicTooLong, None, s)
      else if qos = AtMostOnce then
        (case publish_remaining_length topic (length payload) qos of
           Inl e \<Rightarrow> (e, None, s)
         | Inr rl \<Rightarrow>
             (case enqueue_sized (cx_cfg cx) (packet_size rl)
                     (\<lambda>out. encode_publish (cx_etl cx) out topic payload qos retain False 0) s of
                (e, s) \<Rightarrow> (e, None, s)))
      else if max_inflight_out (cx_cfg cx) = 0 then (NotSupported, None, s)
      else
        (case free_outbound_slot (cx_cfg cx) s of
           None \<Rightarrow> (NoInflightSlot, None, s)
         | Some i \<Rightarrow>
             (case alloc_packet_id (cx_cfg cx) s of
                (pid, s) \<Rightarrow>
                  if pid = 0 then (NoInflightSlot, None, s)
                  else
                    (case encode_publish (cx_etl cx) (sl_packet (c_outbound s ! i)) topic payload qos
                            retain False pid of
                       (r, out) \<Rightarrow>
                         let s = update_slot i (\<lambda>slot. slot\<lparr>sl_packet := out\<rparr>) s in
                         (case r of
                            Inl e \<Rightarrow> (if e = BufferTooSmall then PayloadTooLarge else e, None, s)
                          | Inr n \<Rightarrow>
                              (case enqueue (take n out) s of
                                 (e, s) \<Rightarrow>
                                   if e \<noteq> Ok then (e, None, s)
                                   else
                                     (case read_clock cx s of
                                        (now, s) \<Rightarrow>
                                          (Ok, Some pid,
                                           update_slot i (\<lambda>slot.
                                             slot\<lparr>sl_packet_id := pid, sl_packet_len := word_of_nat n,
                                                  sl_qos := qos,
                                                  sl_phase := (if qos = AtLeastOnce then WaitPuback
                                                               else WaitPubrec),
                                                  sl_last_sent_ms := now\<rparr>) s))))))))"

section \<open>Subscribe and unsubscribe\<close>

text \<open>The validation loop over the requested filters.\<close>

fun check_filters :: "config \<Rightarrow> TopicSubscription list \<Rightarrow> Error" where
  "check_filters cfg [] = Ok"
| "check_filters cfg (t # subs) =
     (if \<not> is_valid_filter (t_filter t) then InvalidArgument
      else if length (t_filter t) > max_topic_len cfg then TopicTooLong
      else check_filters cfg subs)"

text \<open>The registration loop: the client and the \<open>subs\<close> of the acknowledgement entry.\<close>

fun register_subs ::
  "handler \<Rightarrow> TopicSubscription list \<Rightarrow> u16 list \<times> 'e client \<Rightarrow> u16 list \<times> 'e client" where
  "register_subs h [] st = st"
| "register_subs h (t # subs) (sids, s) =
     (case find_subscription (t_filter t) s of
        Some i \<Rightarrow>
          register_subs h subs
            (sids @ [su_sub_id (c_subscriptions s ! i)],
             update_sub i (\<lambda>u. u\<lparr>su_requested_qos := t_qos t, su_handler := h, su_needs_resub := False\<rparr>) s)
      | None \<Rightarrow>
          (case alloc_sub_id s of
             (sid, s) \<Rightarrow>
               register_subs h subs
                 (sids @ [sid],
                  s\<lparr>c_subscriptions := c_subscriptions s @
                     [\<lparr>su_filter = t_filter t, su_handler = h, su_sub_id = sid,
                       su_requested_qos = t_qos t, su_granted_qos = 0, su_needs_resub = False\<rparr>]\<rparr>)))"

definition subscribe ::
  "('w, 'r, 'e) client_ctx \<Rightarrow> TopicSubscription list \<Rightarrow> handler \<Rightarrow> 'e client \<Rightarrow>
     Error \<times> u16 option \<times> 'e client" where
  "subscribe cx subs h s =
     (if c_state s \<noteq> Connected then (NotConnected, None, s)
      else if subs = [] \<or> length subs > max_topics_per_request (cx_cfg cx)
      then (InvalidArgument, None, s)
      else if check_filters (cx_cfg cx) subs \<noteq> Ok then (check_filters (cx_cfg cx) subs, None, s)
      else if ack_table_full (cx_cfg cx) s then (NoPendingAckSlot, None, s)
      else
        let new_entries = length (filter (\<lambda>t. find_subscription (t_filter t) s = None) subs) in
        if length (c_subscriptions s) + new_entries > max_subscriptions (cx_cfg cx)
        then (NoSubscriptionSlot, None, s)
        else
          (case subscribe_remaining_length subs of
             Inl e \<Rightarrow> (e, None, s)
           | Inr rl \<Rightarrow>
               (case alloc_packet_id (cx_cfg cx) s of
                  (pid, s) \<Rightarrow>
                    if pid = 0 then (NoPendingAckSlot, None, s)
                    else
                      (case enqueue_sized (cx_cfg cx) (packet_size rl)
                              (\<lambda>out. encode_subscribe (cx_etl cx) out pid subs) s of
                         (e, s) \<Rightarrow>
                           if e \<noteq> Ok then (e, None, s)
                           else
                             (case read_clock cx s of
                                (now, s) \<Rightarrow>
                                  (case register_subs h subs ([], s) of
                                     (sids, s) \<Rightarrow>
                                       (Ok, Some pid,
                                        s\<lparr>c_pending := c_pending s @
                                           [\<lparr>pa_subs = sids, pa_sent_ms = now, pa_packet_id = pid,
                                             pa_expected = Suback\<rparr>]\<rparr>)))))))"

definition unsubscribe ::
  "('w, 'r, 'e) client_ctx \<Rightarrow> bytes list \<Rightarrow> 'e client \<Rightarrow> Error \<times> u16 option \<times> 'e client" where
  "unsubscribe cx filters s =
     (if c_state s \<noteq> Connected then (NotConnected, None, s)
      else if filters = [] \<or> length filters > max_topics_per_request (cx_cfg cx)
      then (InvalidArgument, None, s)
      else if ack_table_full (cx_cfg cx) s then (NoPendingAckSlot, None, s)
      else
        (case unsubscribe_remaining_length filters of
           Inl e \<Rightarrow> (e, None, s)
         | Inr rl \<Rightarrow>
             (case alloc_packet_id (cx_cfg cx) s of
                (pid, s) \<Rightarrow>
                  if pid = 0 then (NoPendingAckSlot, None, s)
                  else
                    (case enqueue_sized (cx_cfg cx) (packet_size rl)
                            (\<lambda>out. encode_unsubscribe (cx_etl cx) out pid filters) s of
                       (e, s) \<Rightarrow>
                         if e \<noteq> Ok then (e, None, s)
                         else
                           (case read_clock cx s of
                              (now, s) \<Rightarrow>
                                let sids = concat (map (\<lambda>f. case find_subscription f s of
                                              None \<Rightarrow> [] | Some i \<Rightarrow> [su_sub_id (c_subscriptions s ! i)])
                                            filters)
                                in
                                (Ok, Some pid,
                                 s\<lparr>c_pending := c_pending s @
                                    [\<lparr>pa_subs = sids, pa_sent_ms = now, pa_packet_id = pid,
                                      pa_expected = Unsuback\<rparr>]\<rparr>))))))"

text \<open>The overload for text payloads: a \<open>string_view\<close> is read as the bytes it shows.\<close>

definition publish_text ::
  "('w, 'r, 'e) client_ctx \<Rightarrow> bytes \<Rightarrow> string \<Rightarrow> QoS \<Rightarrow> bool \<Rightarrow> 'e client \<Rightarrow> Error \<times> u16 option \<times> 'e client" where
  "publish_text cx topic payload qos retain s = publish cx topic (lit payload) qos retain s"

text \<open>The overloads for a single filter.\<close>

definition subscribe_one ::
  "('w, 'r, 'e) client_ctx \<Rightarrow> bytes \<Rightarrow> QoS \<Rightarrow> handler \<Rightarrow> 'e client \<Rightarrow> Error \<times> u16 option \<times> 'e client" where
  "subscribe_one cx filt qos h s = subscribe cx [\<lparr>t_filter = filt, t_qos = qos\<rparr>] h s"

definition unsubscribe_one ::
  "('w, 'r, 'e) client_ctx \<Rightarrow> bytes \<Rightarrow> 'e client \<Rightarrow> Error \<times> u16 option \<times> 'e client" where
  "unsubscribe_one cx filt s = unsubscribe cx [filt] s"

end
