(* ===== verification/Client_Rx.thy ===== *)
theory Client_Rx
  imports Client_Api
begin

text \<open>
  The receive path of \<^verbatim>\<open>include/mqtt/client.hpp\<close>: one definition per packet handler, the dispatch of
  a message to the subscriptions, and the loop that consumes the complete packets of the receive
  buffer. The loop has no bound in the code, so it is a partial function: \<open>None\<close> is a call that
  does not return.
\<close>

section \<open>Packet handlers\<close>

definition handle_connack :: "('w, 'r, 'e) client_ctx \<Rightarrow> bytes \<Rightarrow> 'e client \<Rightarrow> Error \<times> 'e client" where
  "handle_connack cx body s =
     (if c_state s \<noteq> AwaitingConnack then (ProtocolViolation, s)
      else
        (case decode_connack body of
           Inl e \<Rightarrow> (e, s)
         | Inr info \<Rightarrow>
             let s = s\<lparr>c_connack := info\<rparr> in
             if k_code info \<noteq> Accepted then (ConnectionRefused, s)
             else
               let s = s\<lparr>c_state := Connected, c_ping_outstanding := False, c_retransmit_now := True\<rparr>;
                   s = (if \<not> k_session_present info then mark_resub s else s)
               in (Ok, call_if cx (c_on_connect s) (\<lambda>k. OnConnect k info) s)))"

text \<open>The walk over the subscription table; \<open>is\<close> are the positions still to visit.\<close>

fun dispatch_loop ::
  "('w, 'r, 'e) client_ctx \<Rightarrow> Message \<Rightarrow> nat list \<Rightarrow> bool \<Rightarrow> 'e client \<Rightarrow> 'e client" where
  "dispatch_loop cx m [] handled s =
     (if \<not> handled then call_if cx (c_on_message s) (\<lambda>k. OnMessage k m) s else s)"
| "dispatch_loop cx m (i # is) handled s =
     (case su_handler (c_subscriptions s ! i) of
        None \<Rightarrow> dispatch_loop cx m is handled s
      | Some k \<Rightarrow>
          if topic_matches (su_filter (c_subscriptions s ! i)) (m_topic m) then
            let s = run_handler cx (OnMessage k m) s in
            if c_state s \<noteq> Connected then s else dispatch_loop cx m is True s
          else dispatch_loop cx m is handled s)"

definition dispatch :: "('w, 'r, 'e) client_ctx \<Rightarrow> Message \<Rightarrow> 'e client \<Rightarrow> 'e client" where
  "dispatch cx m s = dispatch_loop cx m [0..<length (c_subscriptions s)] False s"

definition count_backpressure :: "'e client \<Rightarrow> 'e client" where
  "count_backpressure s = s\<lparr>c_tx_backpressure_count := c_tx_backpressure_count s + 1\<rparr>"

definition handle_publish ::
  "('w, 'r, 'e) client_ctx \<Rightarrow> FixedHeader \<Rightarrow> bytes \<Rightarrow> 'e client \<Rightarrow> Error \<times> 'e client" where
  "handle_publish cx h body s =
     (if c_state s \<noteq> Connected then (ProtocolViolation, s)
      else
        (case decode_publish (cx_etl cx) h body of
           Inl e \<Rightarrow> (e, s)
         | Inr m \<Rightarrow>
             if m_qos m = AtMostOnce then (Ok, dispatch cx m s)
             else if m_qos m = AtLeastOnce then
               (case send_ack cx Puback (m_packet_id m) s of
                  (e, s) \<Rightarrow> if e \<noteq> Ok then (Ok, count_backpressure s) else (Ok, dispatch cx m s))
             else if m_qos m = ExactlyOnce then
               if inbound_contains (m_packet_id m) s then
                 (case send_ack cx Pubrec (m_packet_id m) s of
                    (e, s) \<Rightarrow> (Ok, if e \<noteq> Ok then count_backpressure s else s))
               else if inbound_table_full (cx_cfg cx) s then
                 (Ok, s\<lparr>c_inbound_overflow_count := c_inbound_overflow_count s + 1\<rparr>)
               else
                 (case send_ack cx Pubrec (m_packet_id m) s of
                    (e, s) \<Rightarrow>
                      if e \<noteq> Ok then (Ok, count_backpressure s)
                      else
                        (Ok, dispatch cx m (s\<lparr>c_inbound_ids := c_inbound_ids s @ [m_packet_id m]\<rparr>)))
             else (ProtocolViolation, s)))"

definition handle_puback :: "('w, 'r, 'e) client_ctx \<Rightarrow> bytes \<Rightarrow> 'e client \<Rightarrow> Error \<times> 'e client" where
  "handle_puback cx body s =
     (case decode_packet_id body of
        Inl e \<Rightarrow> (e, s)
      | Inr pid \<Rightarrow>
          (case find_outbound (cx_cfg cx) pid s of
             None \<Rightarrow> (Ok, s)
           | Some i \<Rightarrow>
               if sl_phase (c_outbound s ! i) \<noteq> WaitPuback then (Ok, s)
               else
                 let s = update_slot i release_slot s in
                 (Ok, call_if cx (c_on_delivery s) (\<lambda>k. OnDelivery k pid) s)))"

text \<open>Queue the bytes a slot holds and stamp the slot, or count the refusal.\<close>

definition resend_slot :: "('w, 'r, 'e) client_ctx \<Rightarrow> nat \<Rightarrow> 'e client \<Rightarrow> 'e client" where
  "resend_slot cx i s =
     (case enqueue (slot_bytes (c_outbound s ! i)) s of
        (e, s) \<Rightarrow>
          if e = Ok then
            (case read_clock cx s of
               (now, s) \<Rightarrow> update_slot i (\<lambda>slot. slot\<lparr>sl_last_sent_ms := now\<rparr>) s)
          else count_backpressure s)"

definition handle_pubrec :: "('w, 'r, 'e) client_ctx \<Rightarrow> bytes \<Rightarrow> 'e client \<Rightarrow> Error \<times> 'e client" where
  "handle_pubrec cx body s =
     (case decode_packet_id body of
        Inl e \<Rightarrow> (e, s)
      | Inr pid \<Rightarrow>
          (case find_outbound (cx_cfg cx) pid s of
             None \<Rightarrow> (Ok, s)
           | Some i \<Rightarrow>
               if sl_phase (c_outbound s ! i) = WaitPubrec then
                 (case encode_ack (cx_etl cx) (sl_packet (c_outbound s ! i)) Pubrel pid of
                    (r, out) \<Rightarrow>
                      let s = update_slot i (\<lambda>slot. slot\<lparr>sl_packet := out\<rparr>) s in
                      (case r of
                         Inl e \<Rightarrow> (e, s)
                       | Inr n \<Rightarrow>
                           (Ok, resend_slot cx i
                              (update_slot i (\<lambda>slot. slot\<lparr>sl_packet_len := word_of_nat n,
                                                          sl_phase := WaitPubcomp\<rparr>) s))))
               else if sl_phase (c_outbound s ! i) = WaitPubcomp then (Ok, resend_slot cx i s)
               else (Ok, s)))"

definition handle_pubrel :: "('w, 'r, 'e) client_ctx \<Rightarrow> bytes \<Rightarrow> 'e client \<Rightarrow> Error \<times> 'e client" where
  "handle_pubrel cx body s =
     (case decode_packet_id body of
        Inl e \<Rightarrow> (e, s)
      | Inr pid \<Rightarrow>
          (case send_ack cx Pubcomp pid s of
             (e, s) \<Rightarrow> if e \<noteq> Ok then (Ok, count_backpressure s) else (Ok, inbound_remove pid s)))"

definition handle_pubcomp :: "('w, 'r, 'e) client_ctx \<Rightarrow> bytes \<Rightarrow> 'e client \<Rightarrow> Error \<times> 'e client" where
  "handle_pubcomp cx body s =
     (case decode_packet_id body of
        Inl e \<Rightarrow> (e, s)
      | Inr pid \<Rightarrow>
          (case find_outbound (cx_cfg cx) pid s of
             None \<Rightarrow> (Ok, s)
           | Some i \<Rightarrow>
               if sl_phase (c_outbound s ! i) \<noteq> WaitPubcomp then (Ok, s)
               else
                 let s = update_slot i release_slot s in
                 (Ok, call_if cx (c_on_delivery s) (\<lambda>k. OnDelivery k pid) s)))"

text \<open>The loop over the return codes of a SUBACK, with the identifiers the request covered.\<close>

fun apply_return_codes :: "(u8 \<times> u16) list \<Rightarrow> 'e client \<Rightarrow> 'e client" where
  "apply_return_codes [] s = s"
| "apply_return_codes ((rc, sid) # rest) s =
     apply_return_codes rest
       (if rc = kSubackFailure then erase_subscription sid s
        else
          (case find_by_sub_id sid s of
             None \<Rightarrow> s
           | Some j \<Rightarrow> update_sub j (\<lambda>u. u\<lparr>su_granted_qos := rc, su_needs_resub := False\<rparr>) s))"

definition handle_suback :: "('w, 'r, 'e) client_ctx \<Rightarrow> bytes \<Rightarrow> 'e client \<Rightarrow> Error \<times> 'e client" where
  "handle_suback cx body s =
     (case decode_suback body of
        Inl e \<Rightarrow> (e, s)
      | Inr v \<Rightarrow>
          (case find_pending (s_packet_id v) Suback s of
             None \<Rightarrow> (Ok, s)
           | Some i \<Rightarrow>
               let sids = pa_subs (c_pending s ! i) in
               if length (s_return_codes v) \<noteq> length sids then (ProtocolViolation, s)
               else
                 let s = remove_pending i (apply_return_codes (zip (s_return_codes v) sids) s) in
                 (Ok, call_if cx (c_on_suback s) (\<lambda>k. OnSuback k (s_packet_id v) (s_return_codes v)) s)))"

definition handle_unsuback :: "('w, 'r, 'e) client_ctx \<Rightarrow> bytes \<Rightarrow> 'e client \<Rightarrow> Error \<times> 'e client" where
  "handle_unsuback cx body s =
     (case decode_packet_id body of
        Inl e \<Rightarrow> (e, s)
      | Inr pid \<Rightarrow>
          (case find_pending pid Unsuback s of
             None \<Rightarrow> (Ok, s)
           | Some i \<Rightarrow>
               (Ok, remove_pending i (fold erase_subscription (pa_subs (c_pending s ! i)) s))))"

definition handle_packet ::
  "('w, 'r, 'e) client_ctx \<Rightarrow> FixedHeader \<Rightarrow> bytes \<Rightarrow> 'e client \<Rightarrow> Error \<times> 'e client" where
  "handle_packet cx h body s =
     (case h_type h of
        Connack \<Rightarrow> handle_connack cx body s
      | Publish \<Rightarrow> handle_publish cx h body s
      | Puback \<Rightarrow> handle_puback cx body s
      | Pubrec \<Rightarrow> handle_pubrec cx body s
      | Pubrel \<Rightarrow> handle_pubrel cx body s
      | Pubcomp \<Rightarrow> handle_pubcomp cx body s
      | Suback \<Rightarrow> handle_suback cx body s
      | Unsuback \<Rightarrow> handle_unsuback cx body s
      | Pingresp \<Rightarrow>
          if body \<noteq> [] then (MalformedPacket, s) else (Ok, s\<lparr>c_ping_outstanding := False\<rparr>)
      | _ \<Rightarrow> (ProtocolViolation, s))"

section \<open>The receive buffer\<close>

partial_function (option) drain_rx ::
  "('w, 'r, 'e) client_ctx \<Rightarrow> 'e client \<Rightarrow> (Error \<times> 'e client) option" where
  "drain_rx cx s =
     (if c_rx_len s = 0 then Some (Ok, s)
      else
        (case peek_header (take (c_rx_len s) (c_rx s)) of
           Inl e \<Rightarrow> if e = Incomplete then Some (Ok, s) else Some (e, s)
         | Inr p \<Rightarrow>
             if p_total_bytes p > rx_buffer_size (cx_cfg cx) then Some (PacketTooLarge, s)
             else if c_rx_len s < p_total_bytes p then Some (Ok, s)
             else
               (case handle_packet cx (p_header p)
                       (take (unat (h_remaining_length (p_header p))) (drop (p_header_bytes p) (c_rx s))) s of
                  (e, s) \<Rightarrow>
                    if c_rx_len s < p_total_bytes p then
                      Some (if e \<noteq> Ok then e else c_last_error s, s\<lparr>c_rx_len := 0\<rparr>)
                    else
                      let leftover = c_rx_len s - p_total_bytes p;
                          s = s\<lparr>c_rx := (if leftover > 0
                                 then write_at (c_rx s) 0 (take leftover (drop (p_total_bytes p) (c_rx s)))
                                 else c_rx s),
                                c_rx_len := leftover\<rparr>
                      in if e \<noteq> Ok then Some (e, s) else drain_rx cx s)))"

declare drain_rx.simps [code]

end
