(* ===== verification/Client_Step.thy ===== *)
theory Client_Step
  imports Client_Rx
begin

text \<open>
  The pump of \<^verbatim>\<open>include/mqtt/client.hpp\<close>: the transmit and receive loops, the timers and \<open>step\<close>.
  Only the loops without a bound are partial (\<open>None\<close> is a call that does not return).
\<close>

section \<open>Transmit loop\<close>

partial_function (option) pump_tx ::
  "('w, 'r, 'e) client_ctx \<Rightarrow> 'e client \<Rightarrow> (Error \<times> 'e client) option" where
  "pump_tx cx s =
     (if tx_empty (c_tx s) then Some (Ok, s)
      else
        (case tr_send (cx_pl cx) (peek (c_tx s)) (c_env s) of
           (e, nwritten, env) \<Rightarrow>
             let s = s\<lparr>c_env := env\<rparr> in
             if e = WouldBlock then Some (Ok, s)
             else if e \<noteq> Ok then Some (e, s)
             else if nwritten = 0 then Some (Ok, s)
             else
               (case read_clock cx (s\<lparr>c_tx := consume nwritten (c_tx s)\<rparr>) of
                  (now, s) \<Rightarrow> pump_tx cx (s\<lparr>c_last_sent_ms := now\<rparr>))))"

declare pump_tx.simps [code]

section \<open>Receive rounds\<close>

definition kMaxRecvRoundsPerStep :: nat where "kMaxRecvRoundsPerStep = 8"

text \<open>What follows a drain inside a round.\<close>

fun recv_rounds ::
  "('w, 'r, 'e) client_ctx \<Rightarrow> nat \<Rightarrow> 'e client \<Rightarrow> (Error \<times> 'e client) option" where
  "recv_rounds cx 0 s = Some (Ok, s)"
| "recv_rounds cx (Suc rounds) s =
     (let after_recv = (\<lambda>s.
            case drain_rx cx s of
              None \<Rightarrow> None
            | Some (e, s) \<Rightarrow>
                if e \<noteq> Ok then Some (e, s)
                else if c_state s = Connecting then Some (Ok, s)
                else if c_rx_len s = rx_buffer_size (cx_cfg cx) then Some (PacketTooLarge, s)
                else recv_rounds cx rounds s)
      in
      if c_rx_len s < rx_buffer_size (cx_cfg cx) then
        (case tr_recv (cx_pl cx) (drop (c_rx_len s) (c_rx s)) (c_env s) of
           (e, rd, buf, env) \<Rightarrow>
             let s = s\<lparr>c_rx := take (c_rx_len s) (c_rx s) @ buf, c_env := env\<rparr> in
             if e = WouldBlock then drain_rx cx s
             else if e \<noteq> Ok then Some (e, s)
             else if rd = 0 then drain_rx cx s
             else
               (case read_clock cx (s\<lparr>c_rx_len := c_rx_len s + rd\<rparr>) of
                  (now, s) \<Rightarrow> after_recv (s\<lparr>c_last_received_ms := now\<rparr>)))
      else after_recv s)"

definition pump_rx :: "('w, 'r, 'e) client_ctx \<Rightarrow> 'e client \<Rightarrow> (Error \<times> 'e client) option" where
  "pump_rx cx s = recv_rounds cx kMaxRecvRoundsPerStep s"

section \<open>Timers\<close>

definition pump_keep_alive :: "('w, 'r, 'e) client_ctx \<Rightarrow> 'e client \<Rightarrow> Error \<times> 'e client" where
  "pump_keep_alive cx s =
     (if c_keep_alive_ms s = 0 then (Ok, s)
      else
        (case read_clock cx s of
           (now, s) \<Rightarrow>
             if c_ping_outstanding s then
               (if elapsed_ms now (c_ping_sent_ms s) > c_keep_alive_ms s then (KeepAliveTimeout, s)
                else (Ok, s))
             else
               let threshold = c_keep_alive_ms s - c_keep_alive_ms s div 4 in
               if elapsed_ms now (c_last_sent_ms s) < threshold then (Ok, s)
               else
                 (case enqueue_sized (cx_cfg cx) (packet_size 0)
                         (\<lambda>out. encode_empty (cx_etl cx) out Pingreq) s of
                    (e, s) \<Rightarrow>
                      if e \<noteq> Ok then (Ok, s)
                      else (Ok, s\<lparr>c_ping_outstanding := True, c_ping_sent_ms := now\<rparr>))))"

text \<open>One slot of the retransmission loop.\<close>

definition retransmit_slot :: "config \<Rightarrow> bool \<Rightarrow> u32 \<Rightarrow> nat \<Rightarrow> 'e client \<Rightarrow> 'e client" where
  "retransmit_slot cfg forced now i s =
     (if sl_phase (c_outbound s ! i) = Free then s
      else if \<not> forced \<and> (retry_interval_ms cfg = 0
                \<or> elapsed_ms now (sl_last_sent_ms (c_outbound s ! i)) < retry_interval_ms cfg)
      then s
      else
        let s = update_slot i mark_dup s in
        (case enqueue (slot_bytes (c_outbound s ! i)) s of
           (e, s) \<Rightarrow>
             if e = Ok then update_slot i (\<lambda>slot. slot\<lparr>sl_last_sent_ms := now\<rparr>) s else s))"

definition pump_retransmit :: "('w, 'r, 'e) client_ctx \<Rightarrow> 'e client \<Rightarrow> 'e client" where
  "pump_retransmit cx s =
     (let forced = c_retransmit_now s;
          s = s\<lparr>c_retransmit_now := False\<rparr>
      in
      if retry_interval_ms (cx_cfg cx) = 0 \<and> \<not> forced then s
      else
        (case read_clock cx s of
           (now, s) \<Rightarrow>
             fold (retransmit_slot (cx_cfg cx) forced now) [0..<max_inflight_out (cx_cfg cx)] s))"

text \<open>\<open>if (Subscription* s = find_by_sub_id(sid)) s->needs_resub = false\<close>.\<close>

definition clear_resub :: "u16 \<Rightarrow> 'e client \<Rightarrow> 'e client" where
  "clear_resub sid s =
     (case find_by_sub_id sid s of
        None \<Rightarrow> s
      | Some j \<Rightarrow> update_sub j (\<lambda>u. u\<lparr>su_needs_resub := False\<rparr>) s)"

definition pump_resubscribe :: "('w, 'r, 'e) client_ctx \<Rightarrow> 'e client \<Rightarrow> 'e client" where
  "pump_resubscribe cx s =
     (if ack_table_full (cx_cfg cx) s then s
      else
        let chosen = take (max_topics_per_request (cx_cfg cx)) (filter su_needs_resub (c_subscriptions s));
            batch = map (\<lambda>u. \<lparr>t_filter = su_filter u, t_qos = su_requested_qos u\<rparr>) chosen;
            sids = map su_sub_id chosen
        in
        if batch = [] then s
        else
          (case subscribe_remaining_length batch of
             Inl _ \<Rightarrow> s
           | Inr rl \<Rightarrow>
               (case alloc_packet_id (cx_cfg cx) s of
                  (pid, s) \<Rightarrow>
                    if pid = 0 then s
                    else
                      (case enqueue_sized (cx_cfg cx) (packet_size rl)
                              (\<lambda>out. encode_subscribe (cx_etl cx) out pid batch) s of
                         (e, s) \<Rightarrow>
                           if e \<noteq> Ok then s
                           else
                             (case read_clock cx s of
                                (now, s) \<Rightarrow>
                                  let s = fold clear_resub sids s in
                                  s\<lparr>c_pending := c_pending s @
                                     [\<lparr>pa_subs = sids, pa_sent_ms = now, pa_packet_id = pid,
                                       pa_expected = Suback\<rparr>]\<rparr>)))))"

section \<open>The step\<close>

text \<open>The last part of \<open>step_once\<close>, after the receive pump.\<close>

definition step_timers :: "('w, 'r, 'e) client_ctx \<Rightarrow> 'e client \<Rightarrow> (Error \<times> 'e client) option" where
  "step_timers cx s =
     (let flush = (\<lambda>s.
            case pump_tx cx s of
              None \<Rightarrow> None
            | Some (e, s) \<Rightarrow> if e \<noteq> Ok then Some (shutdown cx e s) else Some (Ok, s))
      in
      if c_state s = Connecting then Some (Ok, s)
      else if c_state s = AwaitingConnack then
        (case read_clock cx s of
           (now, s) \<Rightarrow>
             if elapsed_ms now (c_connect_started_ms s) > connect_timeout_ms (cx_cfg cx)
             then Some (shutdown cx ConnectTimeout s) else Some (Ok, s))
      else if c_state s = Connected then
        (case pump_keep_alive cx s of
           (e, s) \<Rightarrow>
             if e \<noteq> Ok then Some (shutdown cx e s)
             else flush (pump_retransmit cx (pump_resubscribe cx s)))
      else flush s)"

text \<open>The part of \<open>step_once\<close> that needs an open transport.\<close>

definition step_io :: "('w, 'r, 'e) client_ctx \<Rightarrow> 'e client \<Rightarrow> (Error \<times> 'e client) option" where
  "step_io cx s =
     (case pump_tx cx s of
        None \<Rightarrow> None
      | Some (e, s) \<Rightarrow>
          if e \<noteq> Ok then Some (shutdown cx e s)
          else if c_state s = Disconnecting \<and> tx_empty (c_tx s) then Some (shutdown cx Ok s)
          else
            (case pump_rx cx s of
               None \<Rightarrow> None
             | Some (e, s) \<Rightarrow> if e \<noteq> Ok then Some (shutdown cx e s) else step_timers cx s))"

definition step_once :: "('w, 'r, 'e) client_ctx \<Rightarrow> 'e client \<Rightarrow> (Error \<times> 'e client) option" where
  "step_once cx s =
     (if c_state s = Idle then Some (Ok, s)
      else if c_state s = Connecting then
        (case tr_connect (cx_pl cx) (c_env s) of
           (e, env) \<Rightarrow>
             let s = s\<lparr>c_env := env\<rparr> in
             if e = WouldBlock then
               (case read_clock cx s of
                  (now, s) \<Rightarrow>
                    if elapsed_ms now (c_connect_started_ms s) > connect_timeout_ms (cx_cfg cx)
                    then Some (shutdown cx ConnectTimeout s) else Some (Ok, s))
             else if e \<noteq> Ok then Some (shutdown cx e s)
             else
               (case read_clock cx (s\<lparr>c_state := AwaitingConnack\<rparr>) of
                  (now, s) \<Rightarrow> step_io cx (s\<lparr>c_last_sent_ms := now\<rparr>)))
      else step_io cx s)"

definition step :: "('w, 'r, 'e) client_ctx \<Rightarrow> 'e client \<Rightarrow> (Error \<times> 'e client) option" where
  "step cx s =
     (if c_in_step s then Some (Reentrant, s)
      else
        (case step_once cx (s\<lparr>c_in_step := True\<rparr>) of
           None \<Rightarrow> None
         | Some (e, s) \<Rightarrow> Some (e, s\<lparr>c_in_step := False\<rparr>)))"

end
