(* ===== verification/Client_Invar.thy ===== *)
theory Client_Invar
  imports Client_Ids Client_Step
begin

text \<open>
  The well-formedness invariant of a client and the contract of the application's handlers.
  The invariant says of every member what the rest of the class relies on: indices inside their
  buffers, tables inside their configured limits, identifiers non-zero and pairwise different,
  and every occupied outbound slot holding exactly the packet its phase has to retransmit. The
  lemmas show that each private helper keeps it.
\<close>

section \<open>The invariant\<close>

definition tx_ok :: "config \<Rightarrow> TxQueue \<Rightarrow> bool" where
  "tx_ok cfg q \<longleftrightarrow> tx_invar q \<and> tx_capacity q = tx_buffer_size cfg"

definition rx_ok :: "config \<Rightarrow> bytes \<Rightarrow> nat \<Rightarrow> bool" where
  "rx_ok cfg rx n \<longleftrightarrow> length rx = rx_buffer_size cfg \<and> n \<le> rx_buffer_size cfg"

text \<open>The PUBLISH of quality of service \<open>q\<close> a slot keeps for retransmission.\<close>

definition holds_publish :: "QoS \<Rightarrow> OutboundSlot \<Rightarrow> Message \<Rightarrow> bool" where
  "holds_publish q slot m \<longleftrightarrow> publish_ok m \<and> m_qos m = q \<and> sl_qos slot = q
     \<and> m_packet_id m = sl_packet_id slot
     \<and> slot_bytes slot = packet_wire (publish_header m) (publish_body m)"

definition holds_pubrel :: "OutboundSlot \<Rightarrow> bool" where
  "holds_pubrel slot \<longleftrightarrow> sl_packet_id slot \<noteq> 0
     \<and> slot_bytes slot = packet_wire (plain_header Pubrel) (be16 (sl_packet_id slot))"

definition slot_ok :: "config \<Rightarrow> OutboundSlot \<Rightarrow> bool" where
  "slot_ok cfg slot \<longleftrightarrow> length (sl_packet slot) = kPersistSize cfg
     \<and> (sl_phase slot = WaitPuback \<longrightarrow> (\<exists>m. holds_publish AtLeastOnce slot m))
     \<and> (sl_phase slot = WaitPubrec \<longrightarrow> (\<exists>m. holds_publish ExactlyOnce slot m))
     \<and> (sl_phase slot = WaitPubcomp \<longrightarrow> holds_pubrel slot)"

definition slots_ok :: "config \<Rightarrow> OutboundSlot list \<Rightarrow> bool" where
  "slots_ok cfg xs \<longleftrightarrow> length xs = kOutSlots cfg \<and> list_all (slot_ok cfg) xs
     \<and> (\<forall>i < length xs. max_inflight_out cfg \<le> i \<longrightarrow> sl_phase (xs ! i) = Free)"

definition inbound_ok :: "config \<Rightarrow> u16 list \<Rightarrow> bool" where
  "inbound_ok cfg ids \<longleftrightarrow> length ids \<le> max_inflight_in cfg \<and> distinct ids \<and> 0 \<notin> set ids"

definition sub_ok :: "config \<Rightarrow> Subscription \<Rightarrow> bool" where
  "sub_ok cfg u \<longleftrightarrow> is_valid_filter (su_filter u) \<and> length (su_filter u) \<le> max_topic_len cfg
     \<and> su_requested_qos u \<le> 2 \<and> su_sub_id u \<noteq> 0"

definition subs_ok :: "config \<Rightarrow> Subscription list \<Rightarrow> bool" where
  "subs_ok cfg us \<longleftrightarrow> length us \<le> max_subscriptions cfg \<and> list_all (sub_ok cfg) us
     \<and> distinct (map su_sub_id us) \<and> distinct (map su_filter us)"

definition pend_ok :: "config \<Rightarrow> PendingAck list \<Rightarrow> bool" where
  "pend_ok cfg ps \<longleftrightarrow> length ps \<le> max_pending_acks cfg
     \<and> list_all (\<lambda>a. length (pa_subs a) \<le> max_topics_per_request cfg \<and> pa_packet_id a \<noteq> 0
                     \<and> pa_expected a \<in> {Suback, Unsuback}) ps"

definition live_ids :: "OutboundSlot list \<Rightarrow> u16 list" where
  "live_ids xs = map sl_packet_id (filter (\<lambda>x. sl_phase x \<noteq> Free) xs)"

text \<open>No two outstanding exchanges share a packet identifier.\<close>

definition ids_ok :: "OutboundSlot list \<Rightarrow> PendingAck list \<Rightarrow> bool" where
  "ids_ok xs ps \<longleftrightarrow> distinct (live_ids xs @ map pa_packet_id ps)"

definition client_invar :: "config \<Rightarrow> 'e client \<Rightarrow> bool" where
  "client_invar cfg s \<longleftrightarrow> tx_ok cfg (c_tx s) \<and> rx_ok cfg (c_rx s) (c_rx_len s)
     \<and> slots_ok cfg (c_outbound s) \<and> inbound_ok cfg (c_inbound_ids s)
     \<and> subs_ok cfg (c_subscriptions s) \<and> pend_ok cfg (c_pending s)
     \<and> ids_ok (c_outbound s) (c_pending s)"

text \<open>
  The configurations covered: those that compile, with two limits the \<open>static_assert\<close>s leave
  out. A slot records the length of its packet in a \<open>uint16_t\<close>, and subscription identifiers are
  16 bits wide.
\<close>

definition wf_config :: "config \<Rightarrow> bool" where
  "wf_config cfg \<longleftrightarrow> config_check cfg \<and> max_persisted_msg_size cfg \<le> 65535
     \<and> max_subscriptions cfg \<le> 65535"

section \<open>Outbound slots\<close>

definition slot_ids :: "OutboundSlot \<Rightarrow> u16 list" where
  "slot_ids x = (if sl_phase x = Free then [] else [sl_packet_id x])"

lemma live_ids_concat: "live_ids xs = concat (map slot_ids xs)"
  by (induction xs) (auto simp: live_ids_def slot_ids_def)

lemma live_ids_update:
  assumes "i < length xs"
  shows "\<exists>as bs. live_ids xs = as @ slot_ids (xs ! i) @ bs
    \<and> (\<forall>x. live_ids (xs[i := x]) = as @ slot_ids x @ bs)"
proof (intro exI conjI allI)
  show "live_ids xs = live_ids (take i xs) @ slot_ids (xs ! i) @ live_ids (drop (Suc i) xs)"
    by (subst id_take_nth_drop [OF assms]) (simp add: live_ids_concat)
  show "live_ids (xs[i := x]) = live_ids (take i xs) @ slot_ids x @ live_ids (drop (Suc i) xs)" for x
    by (simp add: upd_conv_take_nth_drop [OF assms] live_ids_concat)
qed

lemma slots_update:
  assumes "slots_ok cfg xs" and "slot_ok cfg x" and "sl_phase x = Free \<or> i < max_inflight_out cfg"
  shows "slots_ok cfg (xs[i := x])"
  unfolding slots_ok_def list_all_length
proof (intro conjI allI impI)
  show "length (xs[i := x]) = kOutSlots cfg" using assms by (simp add: slots_ok_def)
next
  fix n assume "n < length (xs[i := x])"
  then show "slot_ok cfg (xs[i := x] ! n)"
    using assms by (cases "n = i") (auto simp: slots_ok_def list_all_length)
next
  fix n assume "n < length (xs[i := x])" "max_inflight_out cfg \<le> n"
  then show "sl_phase (xs[i := x] ! n) = Free" using assms by (cases "n = i") (auto simp: slots_ok_def)
qed

lemma ids_update_same:
  assumes "ids_ok xs ps" and "slot_ids x = slot_ids (xs ! i)"
  shows "ids_ok (xs[i := x]) ps"
proof (cases "i < length xs")
  case True
  from live_ids_update [OF this] assms show ?thesis by (auto simp: ids_ok_def)
qed (use assms in \<open>simp add: list_update_beyond\<close>)

lemma ids_update_release:
  assumes "ids_ok xs ps" and "sl_phase x = Free"
  shows "ids_ok (xs[i := x]) ps"
proof (cases "i < length xs")
  case True
  from live_ids_update [OF this] assms show ?thesis by (auto simp: ids_ok_def slot_ids_def split: if_splits)
qed (use assms in \<open>simp add: list_update_beyond\<close>)

lemma ids_update_take:
  assumes "ids_ok xs ps" and "sl_phase (xs ! i) = Free"
    and "sl_packet_id x \<notin> set (live_ids xs @ map pa_packet_id ps)"
  shows "ids_ok (xs[i := x]) ps"
proof (cases "i < length xs")
  case True
  from live_ids_update [OF this] obtain as bs where
    l: "live_ids xs = as @ slot_ids (xs ! i) @ bs" "live_ids (xs[i := x]) = as @ slot_ids x @ bs" by blast
  then show ?thesis using assms by (cases "sl_phase x = Free") (auto simp: ids_ok_def slot_ids_def)
qed (use assms in \<open>simp add: list_update_beyond\<close>)

lemma ids_remove_pending:
  assumes "ids_ok xs ps"
  shows "ids_ok xs (take i ps @ drop (Suc i) ps)"
proof -
  define ms where "ms = map pa_packet_id ps"
  have "map pa_packet_id (take i ps @ drop (Suc i) ps) = take i ms @ drop (Suc i) ms"
    by (simp add: ms_def take_map drop_map)
  moreover have "distinct ms" "set (live_ids xs) \<inter> set ms = {}" "distinct (live_ids xs)"
    using assms by (simp_all add: ids_ok_def ms_def)
  ultimately show ?thesis
    using set_take_disj_set_drop_if_distinct [of ms i "Suc i"]
    by (auto simp: ids_ok_def simp del: map_append dest: in_set_takeD in_set_dropD)
qed

lemma ids_add_pending:
  "ids_ok xs ps \<Longrightarrow> pa_packet_id a \<notin> set (live_ids xs @ map pa_packet_id ps) \<Longrightarrow> ids_ok xs (ps @ [a])"
  by (auto simp: ids_ok_def)

lemma live_ids_released [simp]: "live_ids (map release_slot xs) = []"
  by (induction xs) (simp_all add: live_ids_def release_slot_def)

lemma ids_released: "ids_ok xs ps \<Longrightarrow> ids_ok (map release_slot xs) ps"
  by (simp add: ids_ok_def)

lemma ids_no_pending: "ids_ok xs ps \<Longrightarrow> ids_ok xs []"
  by (simp add: ids_ok_def)

lemma packet_id_in_use_iff:
  assumes "slots_ok cfg (c_outbound s)"
  shows "packet_id_in_use cfg s pid \<longleftrightarrow> pid \<in> set (live_ids (c_outbound s) @ map pa_packet_id (c_pending s))"
proof -
  let ?xs = "c_outbound s"
  have len: "max_inflight_out cfg \<le> length ?xs" using assms by (simp add: slots_ok_def kOutSlots_def)
  have "(\<exists>i < max_inflight_out cfg. sl_phase (?xs ! i) \<noteq> Free \<and> sl_packet_id (?xs ! i) = pid)
      \<longleftrightarrow> (\<exists>i < length ?xs. sl_phase (?xs ! i) \<noteq> Free \<and> sl_packet_id (?xs ! i) = pid)"
    using len assms unfolding slots_ok_def by (metis not_le_imp_less order_less_le_trans)
  also have "\<dots> \<longleftrightarrow> (\<exists>x \<in> set ?xs. sl_phase x \<noteq> Free \<and> sl_packet_id x = pid)" by (metis in_set_conv_nth)
  also have "\<dots> \<longleftrightarrow> pid \<in> set (live_ids ?xs)" by (auto simp: live_ids_def)
  finally show ?thesis by (auto simp: packet_id_in_use_def list_ex_iff)
qed

lemma released_ok [simp]: "slot_ok cfg x \<Longrightarrow> slot_ok cfg (release_slot x)"
  by (simp add: slot_ok_def release_slot_def)

lemma slots_released: "slots_ok cfg xs \<Longrightarrow> slots_ok cfg (map release_slot xs)"
  by (simp add: slots_ok_def list_all_length) (simp add: release_slot_def)

lemma empty_slot_ok [simp]: "slot_ok cfg (empty_slot cfg)"
  by (simp add: slot_ok_def empty_slot_def)

lemma slots_new: "slots_ok cfg (replicate (kOutSlots cfg) (empty_slot cfg))"
  by (simp add: slots_ok_def list_all_length) (simp add: empty_slot_def)

lemma ids_new: "ids_ok (replicate n (empty_slot cfg)) []"
  by (simp add: ids_ok_def live_ids_def empty_slot_def)

lemma new_client_invar: "client_invar cfg (new_client cfg env)"
  by (simp add: client_invar_def new_client_def tx_ok_def rx_ok_def slots_new ids_new inbound_ok_def subs_ok_def
      pend_ok_def)

section \<open>Levels of service\<close>

lemma qos_cases: "q \<le> 2 \<Longrightarrow> q \<in> {AtMostOnce, AtLeastOnce, ExactlyOnce}"
proof -
  assume "q \<le> 2"
  then have "unat q < 3" by (simp add: word_le_nat_alt)
  then have "unat q \<in> {0, 1, 2}" by auto
  then show ?thesis by (auto simp: word_unat_eq_iff)
qed

section \<open>The retransmission mark\<close>

lemma publish_first_byte:
  assumes "m_qos m \<in> {AtLeastOnce, ExactlyOnce}"
  shows "drop_bit 4 (to_byte (publish_header m)) AND 0x0F = ptype_value Publish"
    "to_byte (publish_header (m\<lparr>m_dup := True\<rparr>)) = to_byte (publish_header m) OR 0x08"
  using assms by (auto simp: to_byte_def publish_header_def Let_def)

lemma slot_bytes_Cons:
  assumes "slot_bytes x = b # bs"
  shows "sl_packet_len x \<noteq> 0" "sl_packet x \<noteq> []" "sl_packet x ! 0 = b"
    "slot_bytes (x\<lparr>sl_packet := (sl_packet x)[0 := c]\<rparr>) = c # bs"
proof -
  show len: "sl_packet_len x \<noteq> 0" "sl_packet x \<noteq> []" using assms by (auto simp: slot_bytes_def)
  then have "unat (sl_packet_len x) \<noteq> 0" by (simp add: unat_eq_zero)
  then obtain n where n: "unat (sl_packet_len x) = Suc n" using not0_implies_Suc by blast
  obtain d ds where d: "sl_packet x = d # ds" using len(2) by (cases "sl_packet x") auto
  show "sl_packet x ! 0 = b" "slot_bytes (x\<lparr>sl_packet := (sl_packet x)[0 := c]\<rparr>) = c # bs"
    using assms n d by (simp_all add: slot_bytes_def)
qed

lemma mark_dup_publish:
  assumes "holds_publish q x m" and "q \<in> {AtLeastOnce, ExactlyOnce}"
  shows "holds_publish q (mark_dup x) (m\<lparr>m_dup := True\<rparr>)"
proof -
  note h = assms(1) [unfolded holds_publish_def]
  then have q: "m_qos m \<in> {AtLeastOnce, ExactlyOnce}" using assms(2) by simp
  have body: "publish_body (m\<lparr>m_dup := True\<rparr>) = publish_body m" by (simp add: publish_body_def)
  from h have w: "slot_bytes x = to_byte (publish_header m)
      # vbi_encode_loop (word_of_nat (length (publish_body m))) @ publish_body m"
    by (simp add: packet_wire_def)
  note c = slot_bytes_Cons [OF w]
  have d: "mark_dup x = x\<lparr>sl_packet := (sl_packet x)[0 := to_byte (publish_header m) OR 0x08]\<rparr>"
    using c publish_first_byte(1) [OF q] by (simp add: mark_dup_def Let_def)
  have "slot_bytes (mark_dup x) = packet_wire (publish_header (m\<lparr>m_dup := True\<rparr>)) (publish_body m)"
    unfolding d using c(4) publish_first_byte(2) [OF q] by (simp add: packet_wire_def)
  then show ?thesis using h q by (auto simp: holds_publish_def d body publish_ok_def)
qed

lemma mark_dup_pubrel: "holds_pubrel x \<Longrightarrow> mark_dup x = x"
proof -
  assume "holds_pubrel x"
  then have w: "slot_bytes x = to_byte (plain_header Pubrel)
      # vbi_encode_loop (word_of_nat (length (be16 (sl_packet_id x)))) @ be16 (sl_packet_id x)"
    by (simp add: holds_pubrel_def packet_wire_def)
  show ?thesis using slot_bytes_Cons(1,3) [OF w]
    by (simp add: mark_dup_def Let_def to_byte_def plain_header_def default_header_def)
qed

lemma mark_dup_fields [simp]:
  "sl_phase (mark_dup x) = sl_phase x" "sl_packet_id (mark_dup x) = sl_packet_id x"
  "sl_qos (mark_dup x) = sl_qos x" "length (sl_packet (mark_dup x)) = length (sl_packet x)"
  by (simp_all add: mark_dup_def Let_def)

lemma mark_dup_ok: "slot_ok cfg x \<Longrightarrow> slot_ok cfg (mark_dup x)"
  using mark_dup_publish [of AtLeastOnce x] mark_dup_publish [of ExactlyOnce x] mark_dup_pubrel [of x]
  by (auto simp: slot_ok_def)

section \<open>Subscriptions\<close>

lemma map_update_same: "f x = f (xs ! i) \<Longrightarrow> map f (xs[i := x]) = map f xs"
  by (cases "i < length xs") (simp_all add: map_update list_update_beyond list_update_same_conv)

lemma subs_resub: "subs_ok cfg us \<Longrightarrow> subs_ok cfg (map (\<lambda>u. u\<lparr>su_needs_resub := True\<rparr>) us)"
  by (simp add: subs_ok_def list_all_length sub_ok_def o_def)

lemma subs_erase:
  assumes "subs_ok cfg us"
  shows "subs_ok cfg (erase_first P us)"
  using assms set_erase_first [of P us] length_erase_first [of P us]
    distinct_erase_first [of su_sub_id us P] distinct_erase_first [of su_filter us P]
  by (auto simp: subs_ok_def list_all_iff)

lemma subs_update:
  assumes "subs_ok cfg us" and "su_filter x = su_filter (us ! j)" and "su_sub_id x = su_sub_id (us ! j)"
    and "su_requested_qos x \<le> 2"
  shows "subs_ok cfg (us[j := x])"
proof (cases "j < length us")
  case True
  have "map su_sub_id (us[j := x]) = map su_sub_id us" "map su_filter (us[j := x]) = map su_filter us"
    using assms by (simp_all add: map_update_same)
  moreover have "sub_ok cfg x" using assms True by (auto simp: subs_ok_def list_all_length sub_ok_def)
  then have "list_all (sub_ok cfg) (us[j := x])"
    using assms(1) set_update_subset_insert [of us j x] by (auto simp: subs_ok_def list_all_iff)
  ultimately show ?thesis using assms(1) by (simp add: subs_ok_def)
qed (use assms in \<open>simp add: list_update_beyond\<close>)

lemma subs_add:
  assumes "subs_ok cfg us" and "sub_ok cfg u" and "length us < max_subscriptions cfg"
    and "su_sub_id u \<notin> su_sub_id ` set us" and "su_filter u \<notin> su_filter ` set us"
  shows "subs_ok cfg (us @ [u])"
  using assms by (auto simp: subs_ok_def)

lemma find_subscription_None:
  "find_subscription f s = None \<longleftrightarrow> f \<notin> su_filter ` set (c_subscriptions s)"
  by (simp add: find_subscription_def find_upt_None) (metis image_iff in_set_conv_nth)

lemma find_by_sub_id_None:
  "find_by_sub_id sid s = None \<longleftrightarrow> sid \<notin> su_sub_id ` set (c_subscriptions s)"
  by (simp add: find_by_sub_id_def find_upt_None) (metis image_iff in_set_conv_nth)

lemma find_subscription_Some:
  "find_subscription f s = Some i \<Longrightarrow> i < length (c_subscriptions s) \<and> su_filter (c_subscriptions s ! i) = f"
  unfolding find_subscription_def by (drule find_upt_Some) simp

lemma find_by_sub_id_Some:
  "find_by_sub_id sid s = Some i \<Longrightarrow> i < length (c_subscriptions s) \<and> su_sub_id (c_subscriptions s ! i) = sid"
  unfolding find_by_sub_id_def by (drule find_upt_Some) simp

lemma inbound_erase: "inbound_ok cfg ids \<Longrightarrow> inbound_ok cfg (erase_first P ids)"
  using set_erase_first [of P ids] length_erase_first [of P ids] distinct_erase_first [of "\<lambda>x. x" ids P]
  by (auto simp: inbound_ok_def)

section \<open>The transmit helpers\<close>

text \<open>
  The outcome of handing a packet to the queue: it is appended as a whole when the pending bytes
  leave room for it, and otherwise refused with nothing of it queued. No other member changes.
\<close>

definition queues :: "config \<Rightarrow> bytes \<Rightarrow> 'e client \<Rightarrow> Error \<times> 'e client \<Rightarrow> bool" where
  "queues cfg wire s r \<longleftrightarrow> (\<exists>q. snd r = s\<lparr>c_tx := q\<rparr> \<and> tx_ok cfg q \<and>
     (if length (peek (c_tx s)) + length wire \<le> tx_buffer_size cfg
      then fst r = Ok \<and> peek q = peek (c_tx s) @ wire
      else fst r \<in> {BufferTooSmall, TxQueueFull} \<and> peek q = peek (c_tx s)))"

lemma queuesE:
  assumes "queues cfg wire s (e, s')"
  obtains (queued) q where "e = Ok" "s' = s\<lparr>c_tx := q\<rparr>" "tx_ok cfg q" "peek q = peek (c_tx s) @ wire"
      "length (peek (c_tx s)) + length wire \<le> tx_buffer_size cfg"
  | (refused) q where "e \<noteq> Ok" "e \<in> {BufferTooSmall, TxQueueFull}" "s' = s\<lparr>c_tx := q\<rparr>" "tx_ok cfg q"
      "peek q = peek (c_tx s)" "\<not> length (peek (c_tx s)) + length wire \<le> tx_buffer_size cfg"
  using assms by (force simp: queues_def split: if_splits)

lemma enqueue_queues:
  assumes "tx_ok cfg (c_tx s)"
  shows "queues cfg bs s (enqueue bs s)"
proof -
  have "tx_invar (c_tx s)" "tx_capacity (c_tx s) = tx_buffer_size cfg" using assms by (simp_all add: tx_ok_def)
  with tx_enqueue_spec [OF this(1), of bs] obtain q where
    "tx_enqueue bs (c_tx s) =
      (if length (peek (c_tx s)) + length bs \<le> tx_buffer_size cfg then Ok else TxQueueFull, q)"
    "tx_ok cfg q"
    "peek q = (if length (peek (c_tx s)) + length bs \<le> tx_buffer_size cfg then peek (c_tx s) @ bs else peek (c_tx s))"
    by (metis tx_ok_def)
  then show ?thesis by (auto simp: queues_def enqueue_def)
qed

lemma enqueue_sized_queues:
  assumes "tx_ok cfg (c_tx s)" and "\<And>out. stores wire out (encode out)" and "sz = length wire"
  shows "queues cfg wire s (enqueue_sized cfg sz encode s)"
proof -
  have q: "tx_invar (c_tx s)" "tx_capacity (c_tx s) = tx_buffer_size cfg" using assms by (simp_all add: tx_ok_def)
  have "\<exists>out'. encode out = (Inr (length wire), out') \<and> length out' = sz
      \<and> (\<forall>n. Inr (length wire) = (Inr n :: nat Result) \<longrightarrow> n \<le> sz \<and> take n out' = wire)"
    if "length out = sz" for out
    using assms(2) [of out] that assms(3) by (auto simp: stores_def write_at_def)
  from tx_enqueue_sized_spec [where encode = encode, OF q this] obtain q' where
    e: "tx_enqueue_sized (tx_buffer_size cfg) sz encode (c_tx s) =
      (if sz > tx_buffer_size cfg then BufferTooSmall
       else if length (peek (c_tx s)) + sz \<le> tx_buffer_size cfg then result_error (Inr (length wire)) else TxQueueFull, q')"
    and i: "tx_invar q'" "tx_capacity q' = tx_buffer_size cfg"
    and p: "peek q' = (if length (peek (c_tx s)) + sz \<le> tx_buffer_size cfg \<and> isl (Inr (length wire) :: nat Result) = False
      then peek (c_tx s) @ wire else peek (c_tx s))" .
  show ?thesis unfolding queues_def
    by (rule exI [of _ q']) (use e p assms(3) i in \<open>simp add: enqueue_sized_def result_error_def tx_ok_def\<close>)
qed

lemma packet_size_wire:
  assumes "length body \<le> max_body"
  shows "packet_size (word_of_nat (length body)) = length (packet_wire h body)"
proof -
  have "unat (word_of_nat (length body) :: u32) = length body" using assms by (simp add: unat_of_nat)
  moreover have "vbi_size_c (word_of_nat (length body)) = vbi_size (word_of_nat (length body))"
    using assms by (simp add: vbi_size_c_def vbi_size_def word_less_nat_alt unat_of_nat kMaxRemainingLength_def)
  ultimately show ?thesis using packet_wire_length [OF assms, of h] by (simp add: packet_size_def)
qed

section \<open>Frame rules\<close>

lemma client_invar_frame [simp]:
  "client_invar cfg (s\<lparr>c_env := env\<rparr>) = client_invar cfg s"
  "client_invar cfg (s\<lparr>c_on_message := h\<rparr>) = client_invar cfg s"
  "client_invar cfg (s\<lparr>c_on_connect := h\<rparr>) = client_invar cfg s"
  "client_invar cfg (s\<lparr>c_on_disconnect := h\<rparr>) = client_invar cfg s"
  "client_invar cfg (s\<lparr>c_on_delivery := h\<rparr>) = client_invar cfg s"
  "client_invar cfg (s\<lparr>c_on_suback := h\<rparr>) = client_invar cfg s"
  "client_invar cfg (s\<lparr>c_connack := info\<rparr>) = client_invar cfg s"
  "client_invar cfg (s\<lparr>c_state := st\<rparr>) = client_invar cfg s"
  "client_invar cfg (s\<lparr>c_last_error := e\<rparr>) = client_invar cfg s"
  "client_invar cfg (s\<lparr>c_in_step := b\<rparr>) = client_invar cfg s"
  "client_invar cfg (s\<lparr>c_keep_alive_ms := t\<rparr>) = client_invar cfg s"
  "client_invar cfg (s\<lparr>c_last_sent_ms := t\<rparr>) = client_invar cfg s"
  "client_invar cfg (s\<lparr>c_last_received_ms := t\<rparr>) = client_invar cfg s"
  "client_invar cfg (s\<lparr>c_ping_sent_ms := t\<rparr>) = client_invar cfg s"
  "client_invar cfg (s\<lparr>c_connect_started_ms := t\<rparr>) = client_invar cfg s"
  "client_invar cfg (s\<lparr>c_inbound_overflow_count := t\<rparr>) = client_invar cfg s"
  "client_invar cfg (s\<lparr>c_tx_backpressure_count := t\<rparr>) = client_invar cfg s"
  "client_invar cfg (s\<lparr>c_next_packet_id := pid\<rparr>) = client_invar cfg s"
  "client_invar cfg (s\<lparr>c_next_sub_id := pid\<rparr>) = client_invar cfg s"
  "client_invar cfg (s\<lparr>c_ping_outstanding := b\<rparr>) = client_invar cfg s"
  "client_invar cfg (s\<lparr>c_clean_session := b\<rparr>) = client_invar cfg s"
  "client_invar cfg (s\<lparr>c_retransmit_now := b\<rparr>) = client_invar cfg s"
  "client_invar cfg (s\<lparr>c_log := evs\<rparr>) = client_invar cfg s"
  by (simp_all add: client_invar_def)

lemma client_invar_tx: "client_invar cfg s \<Longrightarrow> tx_ok cfg q \<Longrightarrow> client_invar cfg (s\<lparr>c_tx := q\<rparr>)"
  by (simp add: client_invar_def)

lemma client_invar_txD: "client_invar cfg s \<Longrightarrow> tx_ok cfg (c_tx s)"
  by (simp add: client_invar_def)

lemma client_invar_clear:
  "client_invar cfg s \<Longrightarrow> client_invar cfg (s\<lparr>c_tx := tx_clear (c_tx s)\<rparr>)"
  "client_invar cfg s \<Longrightarrow> client_invar cfg (s\<lparr>c_rx_len := 0\<rparr>)"
  "client_invar cfg s \<Longrightarrow> client_invar cfg (s\<lparr>c_pending := []\<rparr>)"
  "client_invar cfg s \<Longrightarrow> client_invar cfg (s\<lparr>c_inbound_ids := []\<rparr>)"
  by (auto simp: client_invar_def tx_ok_def rx_ok_def pend_ok_def inbound_ok_def ids_no_pending)

lemma client_invar_release:
  "client_invar cfg s \<Longrightarrow> client_invar cfg (s\<lparr>c_outbound := map release_slot (c_outbound s)\<rparr>)"
  by (simp add: client_invar_def slots_released ids_released)

lemma client_invar_queues:
  assumes "queues cfg wire s (e, s')" and "client_invar cfg s"
  shows "client_invar cfg s'"
  using assms by (auto elim!: queuesE intro: client_invar_tx)

lemma mark_resub_invar: "client_invar cfg s \<Longrightarrow> client_invar cfg (mark_resub s)"
  by (simp add: client_invar_def mark_resub_def subs_resub)

lemma reset_invar: "client_invar cfg s \<Longrightarrow> client_invar cfg (reset_session_state s)"
  unfolding reset_session_state_def
  by (rule mark_resub_invar)
    (auto simp: client_invar_def slots_released inbound_ok_def pend_ok_def ids_ok_def)

lemma end_session_invar: "client_invar cfg s \<Longrightarrow> client_invar cfg (end_session cx reason s)"
  unfolding end_session_def Let_def
  by (rule mark_resub_invar)
    (auto simp: client_invar_def slots_released inbound_ok_def pend_ok_def ids_ok_def tx_ok_def rx_ok_def)

text \<open>Writing an outbound slot.\<close>

lemma update_slot_invar:
  assumes "client_invar cfg s" and "slot_ok cfg (f (c_outbound s ! i))"
    and "sl_phase (f (c_outbound s ! i)) = Free \<or> i < max_inflight_out cfg"
    and "slot_ids (f (c_outbound s ! i)) \<in> {slot_ids (c_outbound s ! i), []}"
  shows "client_invar cfg (update_slot i f s)"
proof -
  have "ids_ok ((c_outbound s)[i := f (c_outbound s ! i)]) (c_pending s)"
  proof (cases "sl_phase (f (c_outbound s ! i)) = Free")
    case True
    then show ?thesis using assms(1) by (intro ids_update_release) (simp_all add: client_invar_def)
  next
    case False
    then show ?thesis using assms(1,4)
      by (intro ids_update_same) (auto simp: client_invar_def slot_ids_def)
  qed
  then show ?thesis using assms(1) slots_update [OF _ assms(2,3)]
    by (simp add: client_invar_def update_slot_def)
qed

lemma update_slot_take:
  assumes "client_invar cfg s" and "slot_ok cfg (f (c_outbound s ! i))" and "i < max_inflight_out cfg"
    and "sl_phase (c_outbound s ! i) = Free" and "\<not> packet_id_in_use cfg s (sl_packet_id (f (c_outbound s ! i)))"
  shows "client_invar cfg (update_slot i f s)"
proof -
  have so: "slots_ok cfg (c_outbound s)" and io: "ids_ok (c_outbound s) (c_pending s)"
    using assms(1) by (simp_all add: client_invar_def)
  have "ids_ok ((c_outbound s)[i := f (c_outbound s ! i)]) (c_pending s)"
    using assms(5) packet_id_in_use_iff [OF so] by (intro ids_update_take [OF io assms(4)]) simp
  then show ?thesis using assms(1,3) slots_update [OF so assms(2)]
    by (simp add: client_invar_def update_slot_def)
qed

lemma client_invar_slot:
  assumes "client_invar cfg s" and "i < max_inflight_out cfg"
  shows "slot_ok cfg (c_outbound s ! i)" "i < length (c_outbound s)"
proof -
  have "slots_ok cfg (c_outbound s)" using assms by (simp add: client_invar_def)
  then show "i < length (c_outbound s)" using assms(2)
    by (simp add: slots_ok_def kOutSlots_def at_least_one_def)
  then show "slot_ok cfg (c_outbound s ! i)"
    using \<open>slots_ok cfg (c_outbound s)\<close> by (simp add: slots_ok_def list_all_length)
qed

lemma add_pending_invar:
  assumes "client_invar cfg s" and "\<not> ack_table_full cfg s" and "\<not> packet_id_in_use cfg s (pa_packet_id a)"
    and "length (pa_subs a) \<le> max_topics_per_request cfg" and "pa_packet_id a \<noteq> 0"
    and "pa_expected a \<in> {Suback, Unsuback}"
  shows "client_invar cfg (s\<lparr>c_pending := c_pending s @ [a]\<rparr>)"
proof -
  have so: "slots_ok cfg (c_outbound s)" using assms(1) by (simp add: client_invar_def)
  have "ids_ok (c_outbound s) (c_pending s @ [a])"
    using assms(1,3) packet_id_in_use_iff [OF so] by (intro ids_add_pending) (simp_all add: client_invar_def)
  then show ?thesis using assms by (auto simp: client_invar_def pend_ok_def ack_table_full_def)
qed

lemma remove_pending_invar: "client_invar cfg s \<Longrightarrow> client_invar cfg (remove_pending i s)"
  by (auto simp: client_invar_def remove_pending_def pend_ok_def ids_remove_pending list_all_iff
      dest: in_set_takeD in_set_dropD)

text \<open>A client with at most a scribbled free slot and an advanced packet identifier counter.\<close>

definition scribbled :: "config \<Rightarrow> 'e client \<Rightarrow> 'e client \<Rightarrow> bool" where
  "scribbled cfg s s' \<longleftrightarrow> (\<exists>i out q n. tx_ok cfg q \<and> peek q = peek (c_tx s)
     \<and> s' = update_slot i (\<lambda>slot. slot\<lparr>sl_packet := out\<rparr>) (s\<lparr>c_tx := q, c_next_packet_id := n\<rparr>)
     \<and> length out = length (sl_packet (c_outbound s ! i))
     \<and> (out = sl_packet (c_outbound s ! i)
         \<or> sl_phase (c_outbound s ! i) = Free \<and> i < max_inflight_out cfg))"

lemma scribbled_none:
  "tx_ok cfg q \<Longrightarrow> peek q = peek (c_tx s) \<Longrightarrow> scribbled cfg s (s\<lparr>c_tx := q, c_next_packet_id := n\<rparr>)"
  unfolding scribbled_def
  by (rule exI [of _ 0], rule exI [of _ "sl_packet (c_outbound s ! 0)"], rule exI [of _ q], rule exI [of _ n])
    (simp add: update_slot_def)

lemma scribbled_invar:
  assumes "scribbled cfg s s'" and "client_invar cfg s"
  shows "client_invar cfg s'"
proof -
  from assms(1) obtain i out q n where u: "tx_ok cfg q"
    "s' = update_slot i (\<lambda>slot. slot\<lparr>sl_packet := out\<rparr>) (s\<lparr>c_tx := q, c_next_packet_id := n\<rparr>)"
    "length out = length (sl_packet (c_outbound s ! i))"
    "out = sl_packet (c_outbound s ! i) \<or> sl_phase (c_outbound s ! i) = Free \<and> i < max_inflight_out cfg"
    by (auto simp: scribbled_def)
  have i: "client_invar cfg (s\<lparr>c_tx := q, c_next_packet_id := n\<rparr>)" using assms(2) u(1) client_invar_tx by simp
  from u(4) show ?thesis
  proof
    assume "out = sl_packet (c_outbound s ! i)"
    then show ?thesis using i by (simp add: u(2) update_slot_def)
  next
    assume "sl_phase (c_outbound s ! i) = Free \<and> i < max_inflight_out cfg"
    then show ?thesis unfolding u(2) using u(3) client_invar_slot(1) [OF assms(2), of i]
      by (intro update_slot_invar i) (simp_all add: slot_ok_def slot_ids_def)
  qed
qed

section \<open>Registration of subscriptions\<close>

definition requests_ok :: "config \<Rightarrow> TopicSubscription list \<Rightarrow> bool" where
  "requests_ok cfg subs \<longleftrightarrow>
     list_all (\<lambda>t. is_valid_filter (t_filter t) \<and> length (t_filter t) \<le> max_topic_len cfg \<and> t_qos t \<le> 2) subs"

definition new_filters :: "TopicSubscription list \<Rightarrow> 'e client \<Rightarrow> nat" where
  "new_filters subs s = length (filter (\<lambda>t. find_subscription (t_filter t) s = None) subs)"

lemma update_sub_invar:
  assumes "client_invar cfg s" and "su_filter (f (c_subscriptions s ! j)) = su_filter (c_subscriptions s ! j)"
    and "su_sub_id (f (c_subscriptions s ! j)) = su_sub_id (c_subscriptions s ! j)"
    and "su_requested_qos (f (c_subscriptions s ! j)) \<le> 2"
  shows "client_invar cfg (update_sub j f s)"
  using assms(1) subs_update [OF _ assms(2-4)] by (simp add: client_invar_def update_sub_def)

lemma alloc_sub_idD:
  assumes "alloc_sub_id s = (sid, s')"
  shows "\<exists>n. s' = s\<lparr>c_next_sub_id := n\<rparr>"
  using assms by (auto simp: alloc_sub_id_def split: prod.splits)

lemma alloc_sub_id_fresh:
  assumes "alloc_sub_id s = (sid, s')" and "length (c_subscriptions s) < 65535"
  shows "sid \<noteq> 0" "sid \<notin> su_sub_id ` set (c_subscriptions s)"
proof -
  have "fst (alloc_sub_id s) \<noteq> 0"
    using assms(2) sub_ids.alloc_succeeds [of s "map su_sub_id (c_subscriptions s)"]
    by (simp add: find_by_sub_id_None)
  then show "sid \<noteq> 0" using assms(1) by simp
  then show "sid \<notin> su_sub_id ` set (c_subscriptions s)"
    using sub_ids.fresh [OF assms(1)] by (simp add: find_by_sub_id_None)
qed

lemma new_filters_mono:
  assumes "su_filter ` set (c_subscriptions s) \<subseteq> su_filter ` set (c_subscriptions s')"
  shows "new_filters subs s' \<le> new_filters subs s"
  unfolding new_filters_def using assms
  by (induction subs) (auto simp: find_subscription_None)

lemma add_sub_invar:
  assumes "client_invar cfg s" and "alloc_sub_id s = (sid, s1)" and "find_subscription (t_filter t) s = None"
    and "length (c_subscriptions s) < max_subscriptions cfg" and "max_subscriptions cfg \<le> 65535"
    and "requests_ok cfg [t]"
  shows "client_invar cfg (s1\<lparr>c_subscriptions := c_subscriptions s1 @ [\<lparr>su_filter = t_filter t, su_handler = h,
    su_sub_id = sid, su_requested_qos = t_qos t, su_granted_qos = 0, su_needs_resub = False\<rparr>]\<rparr>)"
proof -
  obtain n where s1: "s1 = s\<lparr>c_next_sub_id := n\<rparr>" using alloc_sub_idD [OF assms(2)] by blast
  have "subs_ok cfg (c_subscriptions s @ [\<lparr>su_filter = t_filter t, su_handler = h,
    su_sub_id = sid, su_requested_qos = t_qos t, su_granted_qos = 0, su_needs_resub = False\<rparr>])"
    using assms alloc_sub_id_fresh [OF assms(2)]
    by (intro subs_add) (auto simp: client_invar_def sub_ok_def requests_ok_def find_subscription_None)
  then show ?thesis using assms(1) by (simp add: client_invar_def s1)
qed

lemma register_subs_invar:
  assumes "register_subs h subs (sids, s) = (sids', s')" and "client_invar cfg s" and "requests_ok cfg subs"
    and "length (c_subscriptions s) + new_filters subs s \<le> max_subscriptions cfg"
    and "max_subscriptions cfg \<le> 65535"
  shows "client_invar cfg s' \<and> length sids' = length sids + length subs
    \<and> (\<exists>us n. s' = s\<lparr>c_subscriptions := us, c_next_sub_id := n\<rparr>)"
  using assms
proof (induction subs arbitrary: sids s)
  case Nil
  have "\<exists>us n. s = s\<lparr>c_subscriptions := us, c_next_sub_id := n\<rparr>"
    by (rule exI [of _ "c_subscriptions s"], rule exI [of _ "c_next_sub_id s"]) simp
  then show ?case using Nil by simp
next
  case (Cons t subs)
  have rt: "requests_ok cfg [t]" "requests_ok cfg subs" using Cons.prems(3) by (simp_all add: requests_ok_def)
  show ?case
  proof (cases "find_subscription (t_filter t) s")
    case (Some i)
    let ?f = "\<lambda>u. u\<lparr>su_requested_qos := t_qos t, su_handler := h, su_needs_resub := False\<rparr>"
    have "map su_filter (c_subscriptions (update_sub i ?f s)) = map su_filter (c_subscriptions s)"
      by (simp add: update_sub_def map_update_same)
    then have "set (map su_filter (c_subscriptions (update_sub i ?f s))) = set (map su_filter (c_subscriptions s))"
      by (rule arg_cong)
    then have n: "new_filters subs (update_sub i ?f s) \<le> new_filters subs s" by (intro new_filters_mono) simp
    have "client_invar cfg (update_sub i ?f s)"
      using Cons.prems(2) rt(1) by (intro update_sub_invar) (auto simp: requests_ok_def)
    from Cons.IH [OF _ this rt(2), of "sids @ [su_sub_id (c_subscriptions s ! i)]"] show ?thesis
      using Cons.prems n by (fastforce simp: Some update_sub_def new_filters_def)
  next
    case None
    obtain sid s1 where a: "alloc_sub_id s = (sid, s1)" by fastforce
    obtain n where s1: "s1 = s\<lparr>c_next_sub_id := n\<rparr>" using alloc_sub_idD [OF a] by blast
    let ?s2 = "s1\<lparr>c_subscriptions := c_subscriptions s1 @ [\<lparr>su_filter = t_filter t, su_handler = h,
      su_sub_id = sid, su_requested_qos = t_qos t, su_granted_qos = 0, su_needs_resub = False\<rparr>]\<rparr>"
    have room: "length (c_subscriptions s) + 1 + new_filters subs s \<le> max_subscriptions cfg"
      using Cons.prems(4) None by (simp add: new_filters_def)
    then have "client_invar cfg ?s2" using Cons.prems rt None a by (intro add_sub_invar) auto
    moreover have "new_filters subs ?s2 \<le> new_filters subs s" by (rule new_filters_mono) (auto simp: s1)
    ultimately show ?thesis
      using Cons.IH [of "sids @ [sid]" ?s2] rt(2) Cons.prems room
      by (fastforce simp: None a s1)
  qed
qed

end
