(* ===== verification/Client_World.thy ===== *)
theory Client_World
  imports Client_Invar "HOL-Library.Sublist"
begin

text \<open>
  The client in its environment. \<open>client_env\<close> collects what the class relies on: byte streams and
  a transport that keep their contracts, and a configuration in range. In it, every call of the
  application keeps the invariant. \<open>client_world\<close> adds handlers that do what the documentation
  allows them, and lifts what the calls keep to whatever a handler does.
\<close>

section \<open>The environment\<close>

locale client_env =
  fixes cx :: "('w, 'r, 'e) client_ctx"
  assumes streams: "byte_streams (cx_etl cx)"
    and transport: "transport_contract (cx_pl cx)"
    and config: "wf_config (cx_cfg cx)"
begin

lemma send_ack_queues:
  assumes "tx_ok (cx_cfg cx) (c_tx s)" and "ty \<in> {Puback, Pubrec, Pubrel, Pubcomp}" and "pid \<noteq> 0"
  shows "queues (cx_cfg cx) (packet_wire (plain_header ty) (be16 pid)) s (send_ack cx ty pid s)"
  unfolding send_ack_def using packet_size_wire [of "be16 pid" "plain_header ty"]
  by (intro enqueue_sized_queues assms byte_streams.encode_ack_spec(2) [OF streams]) simp

lemma empty_queues:
  assumes "tx_ok (cx_cfg cx) (c_tx s)" and "ty \<in> {Pingreq, Disconnect}"
  shows "queues (cx_cfg cx) (packet_wire (plain_header ty) []) s
    (enqueue_sized (cx_cfg cx) (packet_size 0) (\<lambda>out. encode_empty (cx_etl cx) out ty) s)"
  using packet_size_wire [of "[]" "plain_header ty"]
  by (intro enqueue_sized_queues assms byte_streams.encode_empty_spec(2) [OF streams]) simp

lemma connect_queues:
  assumes "tx_ok (cx_cfg cx) (c_tx s)" and "connect_ok opts"
  shows "queues (cx_cfg cx) (packet_wire (plain_header Connect) (connect_body opts)) s
    (enqueue_sized (cx_cfg cx) (packet_size (word_of_nat (length (connect_body opts))))
      (\<lambda>out. encode_connect (cx_etl cx) out opts) s)"
  using packet_size_wire [of "connect_body opts" "plain_header Connect"] connect_body_bound [OF assms(2)]
  by (intro enqueue_sized_queues assms byte_streams.encode_connect_spec(2) [OF streams]) simp

lemma subscribe_queues:
  assumes "tx_ok (cx_cfg cx) (c_tx s)" and "subscribe_remaining_length subs = Inr rl" and "pid \<noteq> 0"
  shows "queues (cx_cfg cx) (packet_wire (plain_header Subscribe) (subscribe_body pid subs)) s
    (enqueue_sized (cx_cfg cx) (packet_size rl) (\<lambda>out. encode_subscribe (cx_etl cx) out pid subs) s)"
proof -
  have ok: "subscribe_ok subs" "length (subscribe_body pid subs) \<le> max_body"
    "rl = word_of_nat (length (subscribe_body pid subs))"
    using assms(2) by (auto simp: subscribe_remaining_length_spec [of subs pid] split: if_splits)
  show ?thesis using packet_size_wire [OF ok(2), of "plain_header Subscribe"] ok(3)
    by (intro enqueue_sized_queues assms byte_streams.encode_subscribe_spec(2) [OF streams] ok) simp
qed

lemma unsubscribe_queues:
  assumes "tx_ok (cx_cfg cx) (c_tx s)" and "unsubscribe_remaining_length fs = Inr rl" and "pid \<noteq> 0"
  shows "queues (cx_cfg cx) (packet_wire (plain_header Unsubscribe) (unsubscribe_body pid fs)) s
    (enqueue_sized (cx_cfg cx) (packet_size rl) (\<lambda>out. encode_unsubscribe (cx_etl cx) out pid fs) s)"
proof -
  have ok: "unsubscribe_ok fs" "length (unsubscribe_body pid fs) \<le> max_body"
    "rl = word_of_nat (length (unsubscribe_body pid fs))"
    using assms(2) by (auto simp: unsubscribe_remaining_length_spec [of fs pid] split: if_splits)
  show ?thesis using packet_size_wire [OF ok(2), of "plain_header Unsubscribe"] ok(3)
    by (intro enqueue_sized_queues assms byte_streams.encode_unsubscribe_spec(2) [OF streams] ok) simp
qed

text \<open>A PUBLISH of quality of service 0 is encoded straight into the queue.\<close>

lemma publish_queues:
  assumes "tx_ok (cx_cfg cx) (c_tx s)" and "length payload < 2 ^ 63"
    and "publish_remaining_length topic (length payload) AtMostOnce = Inr rl"
    and m_def: "m = \<lparr>m_topic = topic, m_payload = payload, m_qos = AtMostOnce, m_retain = retain,
      m_dup = False, m_packet_id = 0\<rparr>"
  shows "queues (cx_cfg cx) (packet_wire (publish_header m) (publish_body m)) s
    (enqueue_sized (cx_cfg cx) (packet_size rl)
      (\<lambda>out. encode_publish (cx_etl cx) out topic payload AtMostOnce retain False 0) s)"
proof -
  have ok: "publish_ok m" "length (publish_body m) \<le> max_body" "rl = word_of_nat (length (publish_body m))"
    using assms(3) publish_remaining_length_spec [OF assms(2), of topic AtMostOnce]
    by (auto simp: publish_ok_def publish_body_def m_def Let_def split: if_splits)
  show ?thesis using packet_size_wire [OF ok(2), of "publish_header m"] ok(3)
    by (intro enqueue_sized_queues assms(1) byte_streams.encode_publish_spec(3) [OF streams m_def assms(2)] ok) simp
qed

section \<open>Calls of the application\<close>

lemma connect_invar:
  assumes "connect cx opts s = (e, s')" and "client_invar (cx_cfg cx) s"
  shows "client_invar (cx_cfg cx) s'"
proof (cases "connect_ok opts")
  case True
  define s0 where "s0 = s\<lparr>c_tx := tx_clear (c_tx s), c_rx_len := 0\<rparr>"
  define s1 where "s1 = (if o_clean_session opts then reset_session_state s0 else s0)"
  have i1: "client_invar (cx_cfg cx) s1"
    using assms(2) by (auto simp: s1_def s0_def intro!: reset_invar client_invar_clear)
  obtain e1 s2 where q: "enqueue_sized (cx_cfg cx) (packet_size (word_of_nat (length (connect_body opts))))
      (\<lambda>out. encode_connect (cx_etl cx) out opts) s1 = (e1, s2)" by fastforce
  have "client_invar (cx_cfg cx) s2"
    using connect_queues [OF client_invar_txD [OF i1] True] client_invar_queues i1 by (simp add: q)
  then show ?thesis using assms q
    by (auto simp: connect_def connect_remaining_length_spec True then_do_def read_clock_def Let_def
        s1_def [symmetric] s0_def [symmetric] split: if_splits prod.splits)
next
  case False
  then show ?thesis using assms
    by (auto simp: connect_def connect_remaining_length_spec split: if_splits)
qed

text \<open>A PUBLISH encoded into the buffer of a slot.\<close>

lemma encode_publish_slot:
  assumes "encode_publish (cx_etl cx) out topic payload qos retain dup pid = (r, out')"
    and "length payload < 2 ^ 63"
    and m: "m = \<lparr>m_topic = topic, m_payload = payload, m_qos = qos, m_retain = retain, m_dup = dup,
      m_packet_id = pid\<rparr>"
  shows "length out' = length out"
    and "r = Inr n \<Longrightarrow> publish_ok m \<and> n \<le> length out
      \<and> take n out' = packet_wire (publish_header m) (publish_body m)"
    and "r \<noteq> Inl Ok"
  using byte_streams.encode_publish_spec [OF streams m assms(2), of out] assms(1)
  by (cases "publish_ok m"; cases "length (publish_body m) \<le> max_body";
      force simp: stores_def write_at_def split: if_splits)+

lemma free_slotD:
  assumes "free_outbound_slot (cx_cfg cx) s = Some i"
  shows "i < max_inflight_out (cx_cfg cx)" "sl_phase (c_outbound s ! i) = Free"
  using find_upt_Some [OF assms [unfolded free_outbound_slot_def]] by simp_all

lemma alloc_packet_idD:
  assumes "alloc_packet_id cfg s = (pid, s')"
  shows "\<exists>n. s' = s\<lparr>c_next_packet_id := n\<rparr>"
  using assms by (auto simp: alloc_packet_id_def split: prod.splits)

text \<open>The path of an accepted publish with an acknowledgement.\<close>

lemma publish_accepted:
  assumes "publish cx topic payload qos retain s = (Ok, res, s')" and "qos \<noteq> AtMostOnce"
    and inv: "client_invar (cx_cfg cx) s" and len: "length payload < 2 ^ 63"
  obtains i pid now q n env out m where
    "m = \<lparr>m_topic = topic, m_payload = payload, m_qos = qos, m_retain = retain, m_dup = False,
      m_packet_id = pid\<rparr>"
    "res = Some pid" "pid \<noteq> 0" "\<not> packet_id_in_use (cx_cfg cx) s pid"
    "free_outbound_slot (cx_cfg cx) s = Some i" "publish_ok m" "tx_ok (cx_cfg cx) q"
    "peek q = peek (c_tx s) @ packet_wire (publish_header m) (publish_body m)"
    "length (packet_wire (publish_header m) (publish_body m)) \<le> length out"
    "length out = kPersistSize (cx_cfg cx)"
    "take (length (packet_wire (publish_header m) (publish_body m))) out
       = packet_wire (publish_header m) (publish_body m)"
    "s' = update_slot i (\<lambda>slot. slot\<lparr>sl_packet := out, sl_packet_id := pid,
        sl_packet_len := word_of_nat (length (packet_wire (publish_header m) (publish_body m))),
        sl_qos := qos, sl_phase := (if qos = AtLeastOnce then WaitPuback else WaitPubrec),
        sl_last_sent_ms := now\<rparr>) (s\<lparr>c_tx := q, c_next_packet_id := n, c_env := env\<rparr>)"
proof -
  from assms(1,2) obtain i pid s1 r out where i: "free_outbound_slot (cx_cfg cx) s = Some i"
    and a: "alloc_packet_id (cx_cfg cx) s = (pid, s1)" and pid: "pid \<noteq> 0"
    and e: "encode_publish (cx_etl cx) (sl_packet (c_outbound s1 ! i)) topic payload qos retain False pid = (r, out)"
    by (auto simp: publish_def Let_def split: if_splits option.splits prod.splits)
  define s2 where "s2 = update_slot i (\<lambda>slot. slot\<lparr>sl_packet := out\<rparr>) s1"
  have r: "(case r of Inl e \<Rightarrow> (if e = BufferTooSmall then PayloadTooLarge else e, None, s2)
      | Inr n \<Rightarrow> (case enqueue (take n out) s2 of (e, s) \<Rightarrow>
          if e \<noteq> Ok then (e, None, s)
          else (case read_clock cx s of (now, s) \<Rightarrow> (Ok, Some pid, update_slot i (\<lambda>slot.
            slot\<lparr>sl_packet_id := pid, sl_packet_len := word_of_nat n, sl_qos := qos,
                 sl_phase := (if qos = AtLeastOnce then WaitPuback else WaitPubrec),
                 sl_last_sent_ms := now\<rparr>) s)))) = (Ok, res, s')"
    unfolding s2_def using assms(1,2) by (simp add: publish_def i a pid e Let_def split: if_splits)
  define m where "m = \<lparr>m_topic = topic, m_payload = payload, m_qos = qos, m_retain = retain, m_dup = False,
      m_packet_id = pid\<rparr>"
  define wire where "wire = packet_wire (publish_header m) (publish_body m)"
  note es = encode_publish_slot [OF e len m_def]
  obtain n where n: "s1 = s\<lparr>c_next_packet_id := n\<rparr>" using alloc_packet_idD [OF a] by blast
  note slot = client_invar_slot [OF inv free_slotD(1) [OF i]]
  from r obtain k where k: "r = Inr k" using es(3) by (cases r) (auto split: if_splits)
  with es have w: "publish_ok m" "k \<le> length out" "take k out = wire" by (simp_all add: wire_def)
  then have kw: "k = length wire" by auto
  obtain e3 s3 where q3: "enqueue wire s2 = (e3, s3)" by fastforce
  have tx: "c_tx s2 = c_tx s" by (simp add: s2_def n update_slot_def)
  have "queues (cx_cfg cx) wire s2 (e3, s3)"
    using enqueue_queues [of "cx_cfg cx" s2 wire] client_invar_txD [OF inv] by (simp add: q3 tx)
  moreover have "e3 = Ok" using r w(3) by (auto simp: k q3 split: if_splits prod.splits)
  ultimately obtain q where q: "s3 = s2\<lparr>c_tx := q\<rparr>" "tx_ok (cx_cfg cx) q" "peek q = peek (c_tx s) @ wire"
    by (auto elim!: queuesE simp: tx)
  obtain now env where t: "now_ms (cx_pl cx) (c_env s3) = (now, env)" by fastforce
  have "res = Some pid \<and> s' = update_slot i (\<lambda>slot. slot\<lparr>sl_packet_id := pid, sl_packet_len := word_of_nat k,
      sl_qos := qos, sl_phase := (if qos = AtLeastOnce then WaitPuback else WaitPubrec),
      sl_last_sent_ms := now\<rparr>) (s3\<lparr>c_env := env\<rparr>)"
    using r w(3) \<open>e3 = Ok\<close>
    by (auto simp: k q3 read_clock_def t split: if_splits)
  then have "s' = update_slot i (\<lambda>slot. slot\<lparr>sl_packet := out, sl_packet_id := pid, sl_packet_len := word_of_nat k,
      sl_qos := qos, sl_phase := (if qos = AtLeastOnce then WaitPuback else WaitPubrec),
      sl_last_sent_ms := now\<rparr>) (s\<lparr>c_tx := q, c_next_packet_id := n, c_env := env\<rparr>)" "res = Some pid"
    using slot(2) by (simp_all add: q(1) s2_def n update_slot_def)
  moreover have "length out = kPersistSize (cx_cfg cx)" using es(1) slot(1) by (simp add: n slot_ok_def)
  ultimately show ?thesis
    using that [where i = i and pid = pid and now = now and q = q and n = n and env = env and out = out and m = m] m_def pid packet_ids.fresh [OF a pid] i w q(2,3) kw
    by (simp add: wire_def)
qed

lemma publish_stored_invar:
  assumes "publish cx topic payload qos retain s = (Ok, res, s')" and "qos \<noteq> AtMostOnce"
    and inv: "client_invar (cx_cfg cx) s" and len: "length payload < 2 ^ 63"
  shows "client_invar (cx_cfg cx) s'"
  using assms(1-4)
proof (rule publish_accepted, goal_cases)
  case (1 i pid now q n env out m)
  let ?w = "packet_wire (publish_header m) (publish_body m)"
  have "length ?w \<le> 65535"
    using 1(9,10) config by (simp add: wf_config_def kPersistSize_def at_least_one_def split: if_splits)
  then have "unat (word_of_nat (length ?w) :: u16) = length ?w" by (simp add: unat_of_nat)
  moreover have "qos \<in> {AtLeastOnce, ExactlyOnce}"
    using 1(1,6) assms(2) qos_cases [of qos] by (auto simp: publish_ok_def)
  ultimately show ?case
    unfolding 1(12)
    by (intro update_slot_take) (use 1 inv free_slotD in \<open>auto simp: slot_ok_def holds_publish_def slot_bytes_def
        packet_id_in_use_def intro!: client_invar_tx\<close>)
qed

text \<open>A refused publish leaves at most a scribbled free slot and an advanced counter behind.\<close>

lemma publish_refused:
  assumes "publish cx topic payload qos retain s = (e, res, s')" and "e \<noteq> Ok"
    and inv: "client_invar (cx_cfg cx) s" and len: "length payload < 2 ^ 63"
  shows "res = None \<and> scribbled (cx_cfg cx) s s'"
proof -
  note tx = client_invar_txD [OF inv]
  have none: "scribbled (cx_cfg cx) s s" using scribbled_none [OF tx refl, of "c_next_packet_id s"] by simp
  consider (zero) "qos = AtMostOnce" | (full) "qos \<noteq> AtMostOnce" "free_outbound_slot (cx_cfg cx) s = None"
    | (slot) i where "qos \<noteq> AtMostOnce" "free_outbound_slot (cx_cfg cx) s = Some i" by fastforce
  then show ?thesis
  proof cases
    case zero
    show ?thesis
    proof (cases "publish_remaining_length topic (length payload) AtMostOnce")
      case (Inr rl)
      have "scribbled (cx_cfg cx) s s'" if "enqueue_sized (cx_cfg cx) (packet_size rl)
          (\<lambda>out. encode_publish (cx_etl cx) out topic payload AtMostOnce retain False 0) s = (e, s')"
        using publish_queues [OF tx len Inr refl, of retain] assms(2)
          scribbled_none [of "cx_cfg cx" _ s "c_next_packet_id s"] unfolding that by (auto elim!: queuesE)
      then show ?thesis using assms(1) zero Inr none by (auto simp: publish_def split: if_splits prod.splits)
    qed (use assms(1) zero none in \<open>auto simp: publish_def split: if_splits\<close>)
  next
    case full
    then show ?thesis using assms(1) none by (auto simp: publish_def split: if_splits)
  next
    case (slot i)
    obtain pid s1 where a: "alloc_packet_id (cx_cfg cx) s = (pid, s1)" by fastforce
    obtain n where n: "s1 = s\<lparr>c_next_packet_id := n\<rparr>" using alloc_packet_idD [OF a] by blast
    then have none1: "scribbled (cx_cfg cx) s s1" using scribbled_none [OF tx refl, of n] by simp
    obtain r out where en: "encode_publish (cx_etl cx) (sl_packet (c_outbound s ! i)) topic payload qos
        retain False pid = (r, out)" by fastforce
    let ?s2 = "update_slot i (\<lambda>slot. slot\<lparr>sl_packet := out\<rparr>) s1"
    have sc: "scribbled (cx_cfg cx) s (?s2\<lparr>c_tx := q\<rparr>)" if "tx_ok (cx_cfg cx) q" "peek q = peek (c_tx s)" for q
      unfolding scribbled_def using that encode_publish_slot(1) [OF en len refl] free_slotD [OF slot(2)]
      by (intro exI [of _ i] exI [of _ out] exI [of _ q] exI [of _ n]) (simp add: n update_slot_def)
    have txs: "c_tx ?s2 = c_tx s" by (simp add: update_slot_def n)
    have "scribbled (cx_cfg cx) s s3" if "enqueue bs ?s2 = (e, s3)" for bs s3
      using enqueue_queues [of "cx_cfg cx" ?s2 bs] tx assms(2) sc unfolding that txs by (auto elim!: queuesE simp: txs)
    moreover have "scribbled (cx_cfg cx) s ?s2" using sc [OF tx refl] by (simp add: txs [symmetric])
    moreover have "sl_packet (c_outbound s1 ! i) = sl_packet (c_outbound s ! i)" by (simp add: n)
    ultimately show ?thesis using assms(1,2) none none1
      by (auto simp: publish_def slot a en Let_def split: if_splits prod.splits sum.splits)
  qed
qed

lemma publish_invar:
  assumes "publish cx topic payload qos retain s = (e, res, s')" and inv: "client_invar (cx_cfg cx) s"
    and len: "length payload < 2 ^ 63"
  shows "client_invar (cx_cfg cx) s'"
proof (cases "e = Ok")
  case False
  then show ?thesis using publish_refused [OF assms(1) _ inv len] scribbled_invar inv by blast
next
  case ok: True
  show ?thesis
  proof (cases "qos = AtMostOnce")
    case False
    then show ?thesis using publish_stored_invar assms ok by blast
  next
    case True
    show ?thesis
    proof (cases "publish_remaining_length topic (length payload) AtMostOnce")
      case (Inr rl)
      then show ?thesis using publish_queues [OF client_invar_txD [OF inv] len Inr refl, of retain] assms(1) True inv
        by (auto simp: publish_def split: if_splits prod.splits elim: client_invar_queues)
    qed (use assms(1) True inv in \<open>auto simp: publish_def split: if_splits\<close>)
  qed
qed

lemma disconnect_leaves:
  assumes "enqueue_sized (cx_cfg cx) (packet_size 0) (\<lambda>out. encode_empty (cx_etl cx) out Disconnect) s = (e, s')"
    and inv: "client_invar (cx_cfg cx) s"
  shows "client_invar (cx_cfg cx) s'"
  using empty_queues [OF client_invar_txD [OF inv], of Disconnect] client_invar_queues inv by (simp add: assms(1))

lemma check_filters_ok:
  assumes "check_filters cfg subs = Ok" and "subscribe_remaining_length subs = Inr rl"
  shows "requests_ok cfg subs"
proof -
  have "list_all (\<lambda>t. is_valid_filter (t_filter t) \<and> length (t_filter t) \<le> max_topic_len cfg) subs"
    using assms(1) by (induction subs) (auto split: if_splits)
  moreover have "list_all (\<lambda>t. t_qos t \<le> 2) subs"
    using assms(2) subscribe_remaining_length_spec [of subs 0]
    by (auto simp: subscribe_ok_def list_all_iff split: if_splits)
  ultimately show ?thesis by (simp add: requests_ok_def list_all_iff)
qed

lemma subscribe_invar:
  assumes "subscribe cx subs h s = (e, res, s')" and inv: "client_invar (cx_cfg cx) s"
  shows "client_invar (cx_cfg cx) s'"
proof (cases "subscribe_remaining_length subs")
  case (Inr rl)
  obtain pid s1 where a: "alloc_packet_id (cx_cfg cx) s = (pid, s1)" by fastforce
  obtain n where n: "s1 = s\<lparr>c_next_packet_id := n\<rparr>" using alloc_packet_idD [OF a] by blast
  have i1: "client_invar (cx_cfg cx) s1" using inv by (simp add: n)
  obtain e2 s2 where q: "enqueue_sized (cx_cfg cx) (packet_size rl)
      (\<lambda>out. encode_subscribe (cx_etl cx) out pid subs) s1 = (e2, s2)" by fastforce
  obtain now s3 where t: "read_clock cx s2 = (now, s3)" by fastforce
  obtain sids s4 where r: "register_subs h subs ([], s3) = (sids, s4)" by fastforce
  note req = subscribe_queues [OF client_invar_txD [OF i1] Inr, of pid, unfolded q]
  have i2: "client_invar (cx_cfg cx) s2" if "pid \<noteq> 0" using client_invar_queues [OF req [OF that] i1] .
  have "client_invar (cx_cfg cx) (s4\<lparr>c_pending := c_pending s4 @
      [\<lparr>pa_subs = sids, pa_sent_ms = now, pa_packet_id = pid, pa_expected = Suback\<rparr>]\<rparr>)"
    if ok: "pid \<noteq> 0" "check_filters (cx_cfg cx) subs = Ok" "\<not> ack_table_full (cx_cfg cx) s"
      "length (c_subscriptions s) + new_filters subs s \<le> max_subscriptions (cx_cfg cx)"
      "length subs \<le> max_topics_per_request (cx_cfg cx)"
  proof -
    obtain tq env where s3: "s3 = s\<lparr>c_next_packet_id := n, c_tx := tq, c_env := env\<rparr>"
      using req [OF ok(1)] t by (auto simp: queues_def n read_clock_def split: prod.splits)
    have i3: "client_invar (cx_cfg cx) s3" using i2 [OF ok(1)] t by (auto simp: read_clock_def split: prod.splits)
    have "new_filters subs s3 = new_filters subs s" by (simp add: new_filters_def find_subscription_def s3)
    then have "client_invar (cx_cfg cx) s4 \<and> length sids = length subs
        \<and> (\<exists>us m. s4 = s3\<lparr>c_subscriptions := us, c_next_sub_id := m\<rparr>)"
      using register_subs_invar [OF r i3 check_filters_ok [OF ok(2) Inr]] ok(4) config by (simp add: s3 wf_config_def)
    moreover have "\<not> packet_id_in_use (cx_cfg cx) s pid" using packet_ids.fresh [OF a ok(1)] .
    ultimately show ?thesis using ok
      by (intro add_pending_invar) (auto simp: s3 packet_id_in_use_def ack_table_full_def)
  qed
  then show ?thesis using assms(1) inv i1 i2
    by (auto simp: subscribe_def Inr a q t r Let_def new_filters_def [symmetric] split: if_splits)
qed (use assms in \<open>auto simp: subscribe_def Let_def split: if_splits\<close>)

lemma unsubscribe_invar:
  assumes "unsubscribe cx fs s = (e, res, s')" and inv: "client_invar (cx_cfg cx) s"
  shows "client_invar (cx_cfg cx) s'"
proof (cases "unsubscribe_remaining_length fs")
  case (Inr rl)
  obtain pid s1 where a: "alloc_packet_id (cx_cfg cx) s = (pid, s1)" by fastforce
  obtain n where n: "s1 = s\<lparr>c_next_packet_id := n\<rparr>" using alloc_packet_idD [OF a] by blast
  have i1: "client_invar (cx_cfg cx) s1" using inv by (simp add: n)
  obtain e2 s2 where q: "enqueue_sized (cx_cfg cx) (packet_size rl)
      (\<lambda>out. encode_unsubscribe (cx_etl cx) out pid fs) s1 = (e2, s2)" by fastforce
  obtain now s3 where t: "read_clock cx s2 = (now, s3)" by fastforce
  note req = unsubscribe_queues [OF client_invar_txD [OF i1] Inr, of pid, unfolded q]
  have i2: "client_invar (cx_cfg cx) s2" if "pid \<noteq> 0" using client_invar_queues [OF req [OF that] i1] .
  let ?sids = "concat (map (\<lambda>f. case find_subscription f s3 of
      None \<Rightarrow> [] | Some i \<Rightarrow> [su_sub_id (c_subscriptions s3 ! i)]) fs)"
  have "client_invar (cx_cfg cx) (s3\<lparr>c_pending := c_pending s3 @
      [\<lparr>pa_subs = ?sids, pa_sent_ms = now, pa_packet_id = pid, pa_expected = Unsuback\<rparr>]\<rparr>)"
    if ok: "pid \<noteq> 0" "\<not> ack_table_full (cx_cfg cx) s" "length fs \<le> max_topics_per_request (cx_cfg cx)"
  proof -
    obtain tq env where s3: "s3 = s\<lparr>c_next_packet_id := n, c_tx := tq, c_env := env\<rparr>"
      using req [OF ok(1)] t by (auto simp: queues_def n read_clock_def split: prod.splits)
    have i3: "client_invar (cx_cfg cx) s3" using i2 [OF ok(1)] t by (auto simp: read_clock_def split: prod.splits)
    have "length ?sids \<le> length fs" by (induction fs) (auto split: option.splits)
    moreover have "\<not> packet_id_in_use (cx_cfg cx) s pid" using packet_ids.fresh [OF a ok(1)] .
    ultimately show ?thesis using ok
      by (intro add_pending_invar i3) (auto simp: s3 packet_id_in_use_def ack_table_full_def)
  qed
  then show ?thesis using assms(1) inv i1 i2
    by (auto simp: unsubscribe_def Inr a q t Let_def split: if_splits)
qed (use assms in \<open>auto simp: unsubscribe_def Let_def split: if_splits\<close>)

end

section \<open>Handlers\<close>

text \<open>
  What a handler may do to the client it is called from, as the documentation of
  \<open>MessageHandler\<close> lists it: work on the application's own state, publish, rebind handlers, end
  the session gracefully or at once, and connect again after that. Ending the session runs
  \<open>on_disconnect\<close> inside, which has to finish as well. A nested \<open>step\<close> is refused and changes
  nothing, so it needs no rule; \<open>subscribe\<close> and \<open>unsubscribe\<close> are forbidden in a handler.
\<close>

text \<open>The calls that close the connection from inside a handler, up to the \<open>shutdown\<close> they make:
  \<open>abort()\<close>, and a \<open>disconnect()\<close> that finds no session to leave gracefully or no room for the
  DISCONNECT packet.\<close>

definition hard_close :: "('w, 'r, 'e) client_ctx \<Rightarrow> 'e client \<Rightarrow> Error \<Rightarrow> 'e client \<Rightarrow> bool" where
  "hard_close cx s reason s0 \<longleftrightarrow>
     (reason = TransportClosed \<and> s0 = s) \<or>
     (reason = Ok \<and> c_state s \<notin> {Idle, Connected} \<and> s0 = s) \<or>
     (reason = Ok \<and> c_state s = Connected \<and>
        (\<exists>e. e \<noteq> Ok \<and> enqueue_sized (cx_cfg cx) (packet_size 0)
               (\<lambda>out. encode_empty (cx_etl cx) out Disconnect) s = (e, s0)))"

inductive handler_run :: "('w, 'r, 'e) client_ctx \<Rightarrow> 'e client \<Rightarrow> 'e client \<Rightarrow> bool" for cx where
  finished: "handler_run cx s s"
| own_state: "handler_run cx (s\<lparr>c_env := env\<rparr>) t \<Longrightarrow> handler_run cx s t"
| rebind: "handler_run cx (s\<lparr>c_on_message := h1, c_on_connect := h2, c_on_disconnect := h3,
      c_on_delivery := h4, c_on_suback := h5\<rparr>) t \<Longrightarrow> handler_run cx s t"
| publishing: "length payload < 2 ^ 63 \<Longrightarrow> publish cx topic payload qos retain s = (e, pid, s1) \<Longrightarrow>
    handler_run cx s1 t \<Longrightarrow> handler_run cx s t"
| connecting: "connect cx opts s = (e, s1) \<Longrightarrow> handler_run cx s1 t \<Longrightarrow> handler_run cx s t"
| leaving: "c_state s = Connected \<Longrightarrow> enqueue_sized (cx_cfg cx) (packet_size 0)
      (\<lambda>out. encode_empty (cx_etl cx) out Disconnect) s = (Ok, s1) \<Longrightarrow>
    handler_run cx (s1\<lparr>c_state := Disconnecting\<rparr>) t \<Longrightarrow> handler_run cx s t"
| closing: "hard_close cx s reason s0 \<Longrightarrow> s1 = end_session cx reason s0 \<Longrightarrow>
    c_state s0 = Idle \<or> c_on_disconnect s1 = None \<Longrightarrow>
    handler_run cx s1 t \<Longrightarrow> handler_run cx s t"
| closing_notify: "hard_close cx s reason s0 \<Longrightarrow> s1 = end_session cx reason s0 \<Longrightarrow>
    c_state s0 \<noteq> Idle \<Longrightarrow> c_on_disconnect s1 = Some k \<Longrightarrow> ev = OnDisconnect k reason \<Longrightarrow>
    handler_run cx (s1\<lparr>c_log := c_log s1 @ [ev]\<rparr>) (run_handler cx ev s1) \<Longrightarrow>
    handler_run cx (run_handler cx ev s1) t \<Longrightarrow> handler_run cx s t"

definition handlers_ok :: "('w, 'r, 'e) client_ctx \<Rightarrow> bool" where
  "handlers_ok cx \<longleftrightarrow> (\<forall>ev s. handler_run cx s (cx_app cx ev s))"

text \<open>The rules are the calls of the model: a hard close ends in \<open>shutdown\<close>.\<close>

lemma hard_close_shutdown:
  assumes "s1 = end_session cx reason s0"
  shows "snd (shutdown cx reason s0) =
    (if c_state s0 = Idle then s1
     else case c_on_disconnect s1 of None \<Rightarrow> s1 | Some k \<Rightarrow> run_handler cx (OnDisconnect k reason) s1)"
  by (simp add: assms shutdown_def Let_def call_if_def split: option.split)

lemma hard_close_disconnect:
  assumes "c_state s \<noteq> Idle" and "c_state (snd (disconnect cx s)) \<noteq> Disconnecting"
  shows "\<exists>s0. hard_close cx s Ok s0 \<and> snd (disconnect cx s) = snd (shutdown cx Ok s0)"
  using assms by (auto simp: disconnect_def hard_close_def split: prod.splits if_splits)

text \<open>So the calls that close a session are runs of a handler when \<open>on_disconnect\<close>, which finds the
  client idle, finishes.\<close>

definition disconnect_run :: "('w, 'r, 'e) client_ctx \<Rightarrow> bool" where
  "disconnect_run cx \<longleftrightarrow> (\<forall>k reason s. c_state s = Idle \<longrightarrow>
     handler_run cx (s\<lparr>c_log := c_log s @ [OnDisconnect k reason]\<rparr>) (run_handler cx (OnDisconnect k reason) s))"

lemma shutdown_run:
  assumes "disconnect_run cx" and "hard_close cx s reason s0" and "handler_run cx (snd (shutdown cx reason s0)) t"
  shows "handler_run cx s t"
proof (cases "c_state s0 = Idle \<or> c_on_disconnect (end_session cx reason s0) = None")
  case True
  then show ?thesis using assms(2,3) by (intro handler_run.closing [OF assms(2) refl])
      (auto simp: hard_close_shutdown [OF refl] split: option.splits)
next
  case False
  then obtain k where k: "c_on_disconnect (end_session cx reason s0) = Some k" by auto
  have "c_state (end_session cx reason s0) = Idle" by (simp add: end_session_def mark_resub_def Let_def)
  then show ?thesis using assms False k
    by (intro handler_run.closing_notify [OF assms(2) refl _ k refl])
      (auto simp: hard_close_shutdown [OF refl] disconnect_run_def)
qed

lemma abort_run: "disconnect_run cx \<Longrightarrow> handler_run cx (abort cx s) t \<Longrightarrow> handler_run cx s t"
  using shutdown_run [of cx s TransportClosed s t] by (simp add: abort_def hard_close_def)

lemma leave_run:
  assumes "disconnect_run cx" and "handler_run cx (snd (disconnect cx s)) t"
  shows "handler_run cx s t"
proof -
  obtain e s1 where q: "enqueue_sized (cx_cfg cx) (packet_size 0) (\<lambda>out. encode_empty (cx_etl cx) out Disconnect) s = (e, s1)"
    by fastforce
  consider "c_state s = Idle" | "c_state s = Connected" "e = Ok"
    | "c_state s \<noteq> Idle" "\<not> (c_state s = Connected \<and> e = Ok)" by blast
  then show ?thesis
  proof cases
    case 2
    then show ?thesis using handler_run.leaving [of s cx s1 t] q assms(2) by (simp add: disconnect_def)
  next
    case 3
    let ?s0 = "if c_state s = Connected then s1 else s"
    have "hard_close cx s Ok ?s0" using 3 q by (auto simp: hard_close_def)
    moreover have "snd (disconnect cx s) = snd (shutdown cx Ok ?s0)" using 3 q by (auto simp: disconnect_def)
    ultimately show ?thesis using shutdown_run [OF assms(1)] assms(2) by simp
  qed (use assms in \<open>simp add: disconnect_def\<close>)
qed

section \<open>The world of a client\<close>

locale client_world = client_env cx
  for cx :: "('w, 'r, 'e) client_ctx" +
  assumes handlers: "handlers_ok cx"

text \<open>A predicate on clients that the helpers and API calls keep is kept by handlers.\<close>

locale handler_stable = client_world cx
  for cx :: "('w, 'r, 'e) client_ctx" +
  fixes I :: "'e client \<Rightarrow> bool"
  assumes env: "I s \<Longrightarrow> I (s\<lparr>c_env := env\<rparr>)"
    and bind: "I s \<Longrightarrow> I (s\<lparr>c_on_message := h1, c_on_connect := h2, c_on_disconnect := h3,
      c_on_delivery := h4, c_on_suback := h5\<rparr>)"
    and logged: "I s \<Longrightarrow> I (s\<lparr>c_log := c_log s @ [ev]\<rparr>)"
    and pub: "length payload < 2 ^ 63 \<Longrightarrow> publish cx topic payload qos retain s = (e, pid, s1) \<Longrightarrow> I s \<Longrightarrow> I s1"
    and con: "connect cx opts s = (e, s1) \<Longrightarrow> I s \<Longrightarrow> I s1"
    and lea: "c_state s = Connected \<Longrightarrow> enqueue_sized (cx_cfg cx) (packet_size 0)
      (\<lambda>out. encode_empty (cx_etl cx) out Disconnect) s = (Ok, s1) \<Longrightarrow> I s \<Longrightarrow>
      I (s1\<lparr>c_state := Disconnecting\<rparr>)"
    and clo: "hard_close cx s reason s0 \<Longrightarrow> I s \<Longrightarrow> I (end_session cx reason s0)"
begin

lemma handler_run_stable: "handler_run cx s t \<Longrightarrow> I s \<Longrightarrow> I t"
  by (induction rule: handler_run.induct) (blast intro: env bind pub con lea clo logged)+

lemma run_handler_stable: "I s \<Longrightarrow> I (run_handler cx ev s)"
  unfolding run_handler_def
  using handlers logged handler_run_stable unfolding handlers_ok_def by blast

lemma call_if_stable: "I s \<Longrightarrow> I (call_if cx h ev s)"
  by (auto simp: call_if_def run_handler_stable split: option.splits)

lemma dispatch_loop_stable: "I s \<Longrightarrow> I (dispatch_loop cx m is handled s)"
  by (induction "is" arbitrary: handled s)
    (auto simp: call_if_stable run_handler_stable Let_def split: option.splits)

lemma dispatch_stable: "I s \<Longrightarrow> I (dispatch cx m s)"
  by (simp add: dispatch_def dispatch_loop_stable)

end

lemma hard_close_tx:
  "hard_close cx s reason s0 \<Longrightarrow> \<exists>q. s0 = s\<lparr>c_tx := q\<rparr>"
proof -
  have "\<exists>q. s = s\<lparr>c_tx := q\<rparr>" by (rule exI [of _ "c_tx s"]) simp
  then show "hard_close cx s reason s0 \<Longrightarrow> ?thesis"
    by (auto simp: hard_close_def enqueue_sized_def split: prod.splits)
qed

text \<open>What the calls leave alone: the members a call of a handler must not disturb in the middle
  of a step.\<close>

definition same_frame :: "'e client \<Rightarrow> 'e client \<Rightarrow> bool" where
  "same_frame s s' \<longleftrightarrow> c_rx s' = c_rx s \<and> c_rx_len s' = c_rx_len s \<and> c_state s' = c_state s
     \<and> c_in_step s' = c_in_step s \<and> c_log s' = c_log s \<and> c_inbound_ids s' = c_inbound_ids s
     \<and> c_subscriptions s' = c_subscriptions s \<and> c_pending s' = c_pending s"

lemma same_frame_simps [simp]: "same_frame s s"
  "same_frame s (t\<lparr>c_tx := q\<rparr>) = same_frame s t" "same_frame s (t\<lparr>c_next_packet_id := n\<rparr>) = same_frame s t"
  "same_frame s (update_slot i f t) = same_frame s t" "same_frame s (t\<lparr>c_env := env\<rparr>) = same_frame s t"
  "same_frame (update_slot i f s) t = same_frame s t"
  by (simp_all add: same_frame_def update_slot_def)

lemma same_frame_trans [trans]: "same_frame s t \<Longrightarrow> same_frame t u \<Longrightarrow> same_frame s u"
  by (simp add: same_frame_def)

lemma enqueue_frame: "enqueue bs s = (e, s') \<Longrightarrow> same_frame s s'"
  by (auto simp: enqueue_def split: prod.splits)

lemma enqueue_sized_frame: "enqueue_sized cfg sz enc s = (e, s') \<Longrightarrow> same_frame s s'"
  by (auto simp: enqueue_sized_def split: prod.splits)

lemma read_clock_frame: "read_clock cx s = (now, s') \<Longrightarrow> same_frame s s'"
  by (auto simp: read_clock_def split: prod.splits)

lemma alloc_packet_id_frame: "alloc_packet_id cfg s = (pid, s') \<Longrightarrow> same_frame s s'"
  by (auto simp: alloc_packet_id_def split: prod.splits)

lemma publish_frame:
  assumes "publish cx topic payload qos retain s = (e, res, s')"
  shows "same_frame s s'"
  using assms unfolding publish_def
  by (auto simp: Let_def split: if_splits option.splits prod.splits sum.splits
      dest!: enqueue_frame enqueue_sized_frame read_clock_frame alloc_packet_id_frame)
    (meson same_frame_trans)+

lemma connect_frame:
  assumes "connect cx opts s = (e, s')"
  shows "c_in_step s' = c_in_step s \<and> c_log s' = c_log s \<and> c_rx s' = c_rx s \<and> c_rx_len s' \<le> c_rx_len s
    \<and> (c_state s' = c_state s \<or> c_state s = Idle \<and> c_state s' = Connecting)"
  using assms unfolding connect_def
  by (auto simp: Let_def then_do_def same_frame_def reset_session_state_def mark_resub_def
      split: if_splits prod.splits sum.splits dest!: enqueue_sized_frame read_clock_frame)

text \<open>Facts about the members of a client that every handler keeps.\<close>

lemma end_session_fields [simp]:
  "c_in_step (end_session cx reason s) = c_in_step s" "c_rx (end_session cx reason s) = c_rx s" "c_log (end_session cx reason s) = c_log s"
  "c_rx_len (end_session cx reason s) = 0" "c_state (end_session cx reason s) = Idle"
  "c_last_error (end_session cx reason s) = reason" "peek (c_tx (end_session cx reason s)) = []"
  by (simp_all add: end_session_def Let_def mark_resub_def)

sublocale client_world \<subseteq> inv: handler_stable cx "client_invar (cx_cfg cx)"
proof (unfold_locales, goal_cases)
  case (7 s reason s0)
  then show ?case
    by (auto simp: hard_close_def intro!: end_session_invar intro: disconnect_leaves)
qed (auto intro: publish_invar connect_invar disconnect_leaves)

lemmas call_frames = publish_frame connect_frame enqueue_sized_frame hard_close_tx

text \<open>
  A predicate on the receive buffer, the step flag and the history of handler calls alone. No
  packet handler touches these members except by running an application handler.
\<close>

definition core :: "'e client \<Rightarrow> bytes \<times> nat \<times> bool \<times> event list" where
  "core s = (c_rx s, c_rx_len s, c_in_step s, c_log s)"

locale core_stable = handler_stable cx I
  for cx :: "('w, 'r, 'e) client_ctx" and I +
  assumes core_only: "I s \<Longrightarrow> core s' = core s \<Longrightarrow> I s'"

sublocale client_world \<subseteq> in_step: core_stable cx "\<lambda>s. c_in_step s = b" for b
  by unfold_locales (auto dest!: call_frames simp: same_frame_def core_def)

sublocale client_world \<subseteq> rx_len: core_stable cx "\<lambda>s. c_rx_len s \<le> n" for n
  by unfold_locales (auto dest!: call_frames simp: same_frame_def core_def)

sublocale client_world \<subseteq> rx_bytes: core_stable cx "\<lambda>s. c_rx s = bs" for bs
  by unfold_locales (auto dest!: call_frames simp: same_frame_def core_def)

sublocale client_world \<subseteq> history: core_stable cx "\<lambda>s. prefix evs (c_log s)" for evs
  by unfold_locales (auto dest!: call_frames simp: same_frame_def core_def)

sublocale client_world \<subseteq> closed: handler_stable cx "\<lambda>s. c_state s \<in> {Idle, Connecting}"
  by unfold_locales (auto dest!: call_frames simp: same_frame_def)

end
