(* ===== verification/Client_Progress.thy ===== *)
theory Client_Progress
  imports Client_World
begin

text \<open>
  The receive path and the step keep the invariant, and every loop of them ends: the transmit loop
  because each turn takes bytes off the queue, the receive loop because each turn takes a packet off
  the buffer whatever the handlers do in between.
\<close>

section \<open>One turn of the receive loop\<close>

text \<open>The buffer after a packet of \<open>n\<close> bytes has been taken off its front.\<close>

definition after_packet :: "nat \<Rightarrow> 'e client \<Rightarrow> 'e client" where
  "after_packet n s = s\<lparr>c_rx := (if c_rx_len s - n > 0
     then write_at (c_rx s) 0 (take (c_rx_len s - n) (drop n (c_rx s))) else c_rx s), c_rx_len := c_rx_len s - n\<rparr>"

lemma drain_rx_unfold:
  "drain_rx cx s =
     (if c_rx_len s = 0 then Some (Ok, s)
      else case peek_header (take (c_rx_len s) (c_rx s)) of
        Inl e \<Rightarrow> if e = Incomplete then Some (Ok, s) else Some (e, s)
      | Inr p \<Rightarrow>
          if p_total_bytes p > rx_buffer_size (cx_cfg cx) then Some (PacketTooLarge, s)
          else if c_rx_len s < p_total_bytes p then Some (Ok, s)
          else (case handle_packet cx (p_header p)
              (take (unat (h_remaining_length (p_header p))) (drop (p_header_bytes p) (c_rx s))) s of
            (e, s) \<Rightarrow>
              if c_rx_len s < p_total_bytes p then Some (if e \<noteq> Ok then e else c_last_error s, s\<lparr>c_rx_len := 0\<rparr>)
              else if e \<noteq> Ok then Some (e, after_packet (p_total_bytes p) s)
              else drain_rx cx (after_packet (p_total_bytes p) s)))"
  by (subst drain_rx.simps) (simp only: Let_def after_packet_def)

lemma after_packet_invar: "client_invar cfg s \<Longrightarrow> client_invar cfg (after_packet n s)"
  by (auto simp: after_packet_def client_invar_def rx_ok_def write_at_def)

section \<open>Packet handlers and the members they leave alone\<close>

lemma core_updates [simp]:
  "core (s\<lparr>c_env := env\<rparr>) = core s" "core (s\<lparr>c_tx := q\<rparr>) = core s"
  "core (s\<lparr>c_inbound_ids := pids\<rparr>) = core s" "core (s\<lparr>c_pending := ps\<rparr>) = core s"
  "core (s\<lparr>c_connack := info\<rparr>) = core s" "core (s\<lparr>c_state := st\<rparr>) = core s"
  "core (s\<lparr>c_ping_outstanding := b\<rparr>) = core s" "core (s\<lparr>c_retransmit_now := b\<rparr>) = core s"
  "core (s\<lparr>c_inbound_overflow_count := n\<rparr>) = core s"
  "core (update_slot i f s) = core s" "core (update_sub i g s) = core s" "core (mark_resub s) = core s"
  "core (count_backpressure s) = core s" "core (inbound_remove pid s) = core s"
  "core (remove_pending i s) = core s" "core (erase_subscription pid s) = core s"
  by (simp_all add: core_def update_slot_def update_sub_def mark_resub_def count_backpressure_def
      inbound_remove_def remove_pending_def erase_subscription_def)

lemma apply_return_codes_core [simp]: "core (apply_return_codes rcs s) = core s"
  by (induction rcs arbitrary: s) (auto split: option.splits prod.splits)

lemma fold_erase_core [simp]: "core (fold erase_subscription sids s) = core s"
  by (induction sids arbitrary: s) auto

lemma same_frame_core: "same_frame s s' \<Longrightarrow> core s' = core s"
  by (simp add: same_frame_def core_def)

lemma resend_slot_core [simp]: "core (resend_slot cx i s) = core s"
  by (auto simp: resend_slot_def split: prod.splits dest!: enqueue_frame read_clock_frame same_frame_core)

lemma send_ack_core: "send_ack cx ty pid s = (e, s') \<Longrightarrow> core s' = core s"
  by (auto simp: send_ack_def dest!: enqueue_sized_frame same_frame_core)

context core_stable
begin

lemma core_keeps: "core s' = core s \<Longrightarrow> I s \<Longrightarrow> I s'"
  using core_only by blast

lemma call_if_core: "core s' = core s \<Longrightarrow> I s \<Longrightarrow> I (call_if cx h ev s')"
  using core_only call_if_stable by blast

lemma dispatch_core: "core s' = core s \<Longrightarrow> I s \<Longrightarrow> I (dispatch cx m s')"
  using core_only dispatch_stable by blast

lemma handle_connack_core: "handle_connack cx body s = (e, s') \<Longrightarrow> I s \<Longrightarrow> I s'"
  by (auto simp: handle_connack_def Let_def split: if_splits sum.splits
      intro: core_keeps call_if_core)

lemma handle_publish_core: "handle_publish cx h body s = (e, s') \<Longrightarrow> I s \<Longrightarrow> I s'"
  by (auto simp: handle_publish_def Let_def split: if_splits sum.splits prod.splits dest!: send_ack_core
      intro: core_keeps dispatch_core)

lemma handle_acks_core:
  "handle_puback cx body s = (e, s') \<Longrightarrow> I s \<Longrightarrow> I s'"
  "handle_pubrec cx body s = (e, s') \<Longrightarrow> I s \<Longrightarrow> I s'"
  "handle_pubrel cx body s = (e, s') \<Longrightarrow> I s \<Longrightarrow> I s'"
  "handle_pubcomp cx body s = (e, s') \<Longrightarrow> I s \<Longrightarrow> I s'"
  by (auto simp: handle_puback_def handle_pubrec_def handle_pubrel_def handle_pubcomp_def Let_def
      split: if_splits sum.splits option.splits prod.splits dest!: send_ack_core intro: core_keeps call_if_core)

lemma handle_subs_core:
  "handle_suback cx body s = (e, s') \<Longrightarrow> I s \<Longrightarrow> I s'"
  "handle_unsuback cx body s = (e, s') \<Longrightarrow> I s \<Longrightarrow> I s'"
  by (auto simp: handle_suback_def handle_unsuback_def Let_def
      split: if_splits sum.splits option.splits intro: core_keeps call_if_core)

lemma handle_packet_core: "handle_packet cx h body s = (e, s') \<Longrightarrow> I s \<Longrightarrow> I s'"
  by (cases "h_type h") (auto simp: handle_packet_def split: if_splits
      intro: core_keeps handle_connack_core handle_publish_core handle_acks_core handle_subs_core)

end

section \<open>Packet handlers keep the invariant\<close>

context client_world
begin

lemma shutdown_invar: "shutdown cx reason s = (e, s') \<Longrightarrow> client_invar (cx_cfg cx) s \<Longrightarrow> client_invar (cx_cfg cx) s'"
  by (auto simp: shutdown_def Let_def intro!: inv.call_if_stable end_session_invar split: if_splits)

lemma handle_connack_invar:
  "handle_connack cx body s = (e, s') \<Longrightarrow> client_invar (cx_cfg cx) s \<Longrightarrow> client_invar (cx_cfg cx) s'"
  by (auto simp: handle_connack_def Let_def split: if_splits sum.splits
      intro!: inv.call_if_stable mark_resub_invar)

lemma send_ack_invar:
  assumes "send_ack cx ty pid s = (e, s')" and "ty \<in> {Puback, Pubrec, Pubrel, Pubcomp}" and "pid \<noteq> 0"
    and "client_invar (cx_cfg cx) s"
  shows "client_invar (cx_cfg cx) s'" "same_frame s s'"
proof -
  show "client_invar (cx_cfg cx) s'"
    using send_ack_queues [OF client_invar_txD [OF assms(4)] assms(2,3)] client_invar_queues assms(4)
    by (simp add: assms(1))
  show "same_frame s s'" using assms(1) by (auto simp: send_ack_def dest: enqueue_sized_frame)
qed

lemma inbound_add_invar:
  assumes "client_invar cfg s" and "\<not> inbound_contains pid s" and "\<not> inbound_table_full cfg s" and "pid \<noteq> 0"
  shows "client_invar cfg (s\<lparr>c_inbound_ids := c_inbound_ids s @ [pid]\<rparr>)"
  using assms by (auto simp: client_invar_def inbound_ok_def inbound_contains_def inbound_table_full_def list_ex_iff)

lemma count_backpressure_invar [simp]: "client_invar cfg (count_backpressure s) = client_invar cfg s"
  by (simp add: count_backpressure_def)

lemma handle_publish_invar:
  assumes "handle_publish cx h body s = (e, s')" and inv: "client_invar (cx_cfg cx) s" and "h_qos h \<le> 2"
  shows "client_invar (cx_cfg cx) s'"
proof (cases "decode_publish (cx_etl cx) h body")
  case (Inr m)
  have pid: "m_packet_id m \<noteq> 0" if "m_qos m \<noteq> AtMostOnce"
    using byte_streams.decode_publish_sound [OF streams Inr assms(3)] that by (simp add: publish_ok_def)
  obtain e1 s1 where a1: "send_ack cx Puback (m_packet_id m) s = (e1, s1)" by fastforce
  obtain e2 s2 where a2: "send_ack cx Pubrec (m_packet_id m) s = (e2, s2)" by fastforce
  have i1: "client_invar (cx_cfg cx) s1" if "m_qos m \<noteq> AtMostOnce" using send_ack_invar(1) [OF a1 _ pid inv] that by simp
  have i2: "client_invar (cx_cfg cx) s2" "same_frame s s2" if "m_qos m \<noteq> AtMostOnce"
    using send_ack_invar [OF a2 _ pid inv] that by simp_all
  have "client_invar (cx_cfg cx) (s2\<lparr>c_inbound_ids := c_inbound_ids s2 @ [m_packet_id m]\<rparr>)"
    if "m_qos m = ExactlyOnce" "\<not> inbound_contains (m_packet_id m) s" "\<not> inbound_table_full (cx_cfg cx) s"
    using that i2 pid
    by (intro inbound_add_invar) (auto simp: same_frame_def inbound_contains_def inbound_table_full_def)
  then show ?thesis using assms(1) inv i1 i2(1)
    by (auto simp: handle_publish_def Inr a1 a2 split: if_splits intro!: inv.dispatch_stable)
qed (use assms in \<open>auto simp: handle_publish_def split: if_splits\<close>)

lemma find_outboundD:
  "find_outbound cfg pid s = Some i \<Longrightarrow>
     i < max_inflight_out cfg \<and> sl_phase (c_outbound s ! i) \<noteq> Free \<and> sl_packet_id (c_outbound s ! i) = pid"
  unfolding find_outbound_def by (drule find_upt_Some) simp

lemma release_invar:
  assumes "client_invar cfg s" and "i < max_inflight_out cfg"
  shows "client_invar cfg (update_slot i release_slot s)"
  using client_invar_slot(1) [OF assms] by (intro update_slot_invar assms)
    (simp_all add: release_slot_def slot_ok_def slot_ids_def assms)

lemma handle_delivery_invar:
  "handle_puback cx body s = (e, s') \<Longrightarrow> client_invar (cx_cfg cx) s \<Longrightarrow> client_invar (cx_cfg cx) s'"
  "handle_pubcomp cx body s = (e, s') \<Longrightarrow> client_invar (cx_cfg cx) s \<Longrightarrow> client_invar (cx_cfg cx) s'"
  by (auto simp: handle_puback_def handle_pubcomp_def Let_def split: if_splits sum.splits option.splits
      dest!: find_outboundD intro!: inv.call_if_stable release_invar)

lemma stamp_slot_invar:
  assumes "client_invar cfg s" and "i < max_inflight_out cfg"
  shows "client_invar cfg (update_slot i (\<lambda>slot. slot\<lparr>sl_last_sent_ms := now\<rparr>) s)"
  using client_invar_slot(1) [OF assms] by (intro update_slot_invar assms)
    (simp_all add: slot_ok_def slot_ids_def holds_publish_def holds_pubrel_def slot_bytes_def assms)

lemma resend_slot_invar:
  assumes inv: "client_invar (cx_cfg cx) s" and "i < max_inflight_out (cx_cfg cx)"
  shows "client_invar (cx_cfg cx) (resend_slot cx i s)"
proof -
  obtain e1 s1 where q: "enqueue (slot_bytes (c_outbound s ! i)) s = (e1, s1)" by fastforce
  have "client_invar (cx_cfg cx) s1"
    using enqueue_queues [OF client_invar_txD [OF inv]] client_invar_queues inv by (metis q)
  then show ?thesis using assms(2)
    by (auto simp: resend_slot_def q read_clock_def split: prod.splits intro!: stamp_slot_invar)
qed

text \<open>The PUBREL replaces the PUBLISH in the slot; a slot always has room for it.\<close>

lemma pubrel_slot:
  assumes "slot_ok (cx_cfg cx) x" and "sl_phase x = WaitPubrec" and "max_inflight_out (cx_cfg cx) \<noteq> 0"
  shows "\<exists>out. encode_ack (cx_etl cx) (sl_packet x) Pubrel (sl_packet_id x) = (Inr 4, out)
    \<and> slot_ok (cx_cfg cx) (x\<lparr>sl_packet := out, sl_packet_len := 4, sl_phase := WaitPubcomp\<rparr>)
    \<and> slot_bytes (x\<lparr>sl_packet := out, sl_packet_len := 4, sl_phase := WaitPubcomp\<rparr>)
        = packet_wire (plain_header Pubrel) (be16 (sl_packet_id x))"
proof -
  let ?w = "packet_wire (plain_header Pubrel) (be16 (sl_packet_id x))"
  obtain m where "holds_publish ExactlyOnce x m" using assms(1,2) by (auto simp: slot_ok_def)
  then have pid: "sl_packet_id x \<noteq> 0" by (auto simp: holds_publish_def publish_ok_def)
  have w: "length ?w = 4" by (simp add: packet_wire_length vbi_size_def kMaxRemainingLength_def)
  have "8 \<le> length (sl_packet x)"
    using assms config by (auto simp: slot_ok_def wf_config_def config_check_def kPersistSize_def at_least_one_def)
  with byte_streams.encode_ack_spec(2) [OF streams, of Pubrel "sl_packet_id x" "sl_packet x"] pid w
  have e: "encode_ack (cx_etl cx) (sl_packet x) Pubrel (sl_packet_id x) = (Inr 4, write_at (sl_packet x) 0 ?w)"
    by (simp add: stores_def)
  have "take 4 (write_at (sl_packet x) 0 ?w) = ?w" using w by (simp add: write_at_def)
  then have "slot_bytes (x\<lparr>sl_packet := write_at (sl_packet x) 0 ?w, sl_packet_len := 4, sl_phase := WaitPubcomp\<rparr>) = ?w"
    by (simp add: slot_bytes_def)
  moreover from this have
    "slot_ok (cx_cfg cx) (x\<lparr>sl_packet := write_at (sl_packet x) 0 ?w, sl_packet_len := 4, sl_phase := WaitPubcomp\<rparr>)"
    using assms(1) pid w \<open>8 \<le> length (sl_packet x)\<close> by (simp add: slot_ok_def holds_pubrel_def write_at_def)
  ultimately show ?thesis using e by blast
qed

lemma update_slot_twice:
  "i < length (c_outbound s) \<Longrightarrow> update_slot i f (update_slot i g s) = update_slot i (\<lambda>x. f (g x)) s"
  by (simp add: update_slot_def)

lemma handle_pubrec_invar:
  assumes "handle_pubrec cx body s = (e, s')" and inv: "client_invar (cx_cfg cx) s"
  shows "client_invar (cx_cfg cx) s'"
proof (cases "\<exists>pid i. decode_packet_id body = Inr pid \<and> find_outbound (cx_cfg cx) pid s = Some i
    \<and> sl_phase (c_outbound s ! i) = WaitPubrec")
  case True
  then obtain pid i where d: "decode_packet_id body = Inr pid" "find_outbound (cx_cfg cx) pid s = Some i"
    "sl_phase (c_outbound s ! i) = WaitPubrec" by blast
  note fo = find_outboundD [OF d(2)]
  note sl = client_invar_slot [OF inv conjunct1 [OF fo]]
  obtain out where out: "encode_ack (cx_etl cx) (sl_packet (c_outbound s ! i)) Pubrel pid = (Inr 4, out)"
    "slot_ok (cx_cfg cx) ((c_outbound s ! i)\<lparr>sl_packet := out, sl_packet_len := 4, sl_phase := WaitPubcomp\<rparr>)"
    using pubrel_slot [OF sl(1) d(3)] fo by auto
  let ?s1 = "update_slot i (\<lambda>x. x\<lparr>sl_packet := out, sl_packet_len := 4, sl_phase := WaitPubcomp\<rparr>) s"
  have "s' = resend_slot cx i ?s1"
    using assms(1) d out(1) sl(2) by (simp add: handle_pubrec_def update_slot_twice)
  moreover have "client_invar (cx_cfg cx) ?s1"
    using out(2) fo d(3) by (intro update_slot_invar inv) (simp_all add: slot_ids_def)
  ultimately show ?thesis using resend_slot_invar fo by simp
next
  case False
  then show ?thesis using assms
    by (auto simp: handle_pubrec_def split: sum.splits option.splits if_splits
        dest!: find_outboundD intro!: resend_slot_invar)
qed

lemma handle_pubrel_invar:
  assumes "handle_pubrel cx body s = (e, s')" and inv: "client_invar (cx_cfg cx) s"
  shows "client_invar (cx_cfg cx) s'"
proof (cases "decode_packet_id body")
  case (Inr pid)
  then have "pid \<noteq> 0" by (simp add: decode_packet_id_iff)
  obtain e1 s1 where a: "send_ack cx Pubcomp pid s = (e1, s1)" by fastforce
  have "client_invar (cx_cfg cx) s1" using send_ack_invar(1) [OF a _ \<open>pid \<noteq> 0\<close> inv] by simp
  then show ?thesis using assms(1)
    by (auto simp: handle_pubrel_def Inr a inbound_remove_def client_invar_def inbound_erase count_backpressure_def
        split: if_splits)
qed (use assms in \<open>auto simp: handle_pubrel_def\<close>)

lemma erase_subscription_invar: "client_invar cfg s \<Longrightarrow> client_invar cfg (erase_subscription sid s)"
  by (simp add: client_invar_def erase_subscription_def subs_erase)

lemma granted_invar:
  assumes "client_invar cfg s" and "find_by_sub_id sid s = Some j"
  shows "client_invar cfg (update_sub j (\<lambda>u. u\<lparr>su_granted_qos := rc, su_needs_resub := False\<rparr>) s)"
    "client_invar cfg (update_sub j (\<lambda>u. u\<lparr>su_needs_resub := False\<rparr>) s)"
proof -
  have "su_requested_qos (c_subscriptions s ! j) \<le> 2"
    using assms(1) find_by_sub_id_Some [OF assms(2)]
    by (auto simp: client_invar_def subs_ok_def list_all_length sub_ok_def)
  then show "client_invar cfg (update_sub j (\<lambda>u. u\<lparr>su_granted_qos := rc, su_needs_resub := False\<rparr>) s)"
    "client_invar cfg (update_sub j (\<lambda>u. u\<lparr>su_needs_resub := False\<rparr>) s)"
    by (auto intro!: update_sub_invar assms(1))
qed

lemma apply_return_codes_invar: "client_invar cfg s \<Longrightarrow> client_invar cfg (apply_return_codes rcs s)"
  by (induction rcs s rule: apply_return_codes.induct)
    (auto simp: erase_subscription_invar granted_invar split: option.splits)

lemma fold_erase_invar: "client_invar cfg s \<Longrightarrow> client_invar cfg (fold erase_subscription sids s)"
  by (induction sids arbitrary: s) (auto intro: erase_subscription_invar)

lemma handle_subs_invar:
  "handle_suback cx body s = (e, s') \<Longrightarrow> client_invar (cx_cfg cx) s \<Longrightarrow> client_invar (cx_cfg cx) s'"
  "handle_unsuback cx body s = (e, s') \<Longrightarrow> client_invar (cx_cfg cx) s \<Longrightarrow> client_invar (cx_cfg cx) s'"
  by (auto simp: handle_suback_def handle_unsuback_def Let_def split: if_splits sum.splits option.splits
      intro!: inv.call_if_stable remove_pending_invar apply_return_codes_invar fold_erase_invar)

lemma handle_packet_invar:
  assumes "handle_packet cx h body s = (e, s')" and "client_invar (cx_cfg cx) s" and "h_qos h \<le> 2"
  shows "client_invar (cx_cfg cx) s'"
  using assms by (cases "h_type h")
    (auto simp: handle_packet_def split: if_splits intro: handle_connack_invar handle_publish_invar
      handle_delivery_invar handle_pubrec_invar handle_pubrel_invar handle_subs_invar)

section \<open>The receive loop ends\<close>

lemma drain_rx_total:
  assumes "client_invar (cx_cfg cx) s" and "c_in_step s = b" and "prefix evs (c_log s)"
  shows "\<exists>e s'. drain_rx cx s = Some (e, s') \<and> client_invar (cx_cfg cx) s' \<and> c_in_step s' = b
    \<and> prefix evs (c_log s')"
  using assms
proof (induction "c_rx_len s" arbitrary: s rule: less_induct)
  case less
  show ?case
  proof (cases "c_rx_len s = 0 \<or> (\<exists>e. peek_header (take (c_rx_len s) (c_rx s)) = Inl e)")
    case True
    then show ?thesis using less.prems by (subst drain_rx_unfold) auto
  next
    case False
    then obtain p where p: "peek_header (take (c_rx_len s) (c_rx s)) = Inr p" by (metis sum.exhaust)
    note pk = peek_sound [OF p]
    obtain e1 s1 where h: "handle_packet cx (p_header p)
        (take (unat (h_remaining_length (p_header p))) (drop (p_header_bytes p) (c_rx s))) s = (e1, s1)" by fastforce
    have "h_qos (p_header p) \<le> 2" using pk(1) by (auto simp: header_ok_def split: if_splits)
    then have i1: "client_invar (cx_cfg cx) s1" "c_in_step s1 = b" "prefix evs (c_log s1)" "c_rx_len s1 \<le> c_rx_len s"
      using handle_packet_invar [OF h] less.prems in_step.handle_packet_core [OF h] history.handle_packet_core [OF h]
        rx_len.handle_packet_core [OF h order_refl] by blast+
    have i2: "client_invar (cx_cfg cx) (after_packet (p_total_bytes p) s1)" using i1 after_packet_invar by blast
    have same: "c_in_step (after_packet n t) = c_in_step t" "c_log (after_packet n t) = c_log t" for n and t :: "'e client"
      by (simp_all add: after_packet_def)
    have dec: "c_rx_len (after_packet (p_total_bytes p) s1) < c_rx_len s"
      using i1(4) pk(5,7) False by (simp add: after_packet_def) arith
    note IH = less.hyps [OF dec i2]
    show ?thesis using IH i1 i2 less.prems False
      by (subst drain_rx_unfold) (auto simp: p h same client_invar_clear(2))
  qed
qed

section \<open>The transmit loop ends\<close>

text \<open>The loop sends a prefix of the pending bytes, in order, and touches nothing but the queue, the
  environment and the time of the last transmission.\<close>

lemma pump_tx_total:
  assumes "tx_ok (cx_cfg cx) (c_tx s)"
  shows "\<exists>e q k env t. pump_tx cx s = Some (e, s\<lparr>c_tx := q, c_env := env, c_last_sent_ms := t\<rparr>)
    \<and> tx_ok (cx_cfg cx) q \<and> peek q = drop k (peek (c_tx s))
    \<and> e \<in> {Ok, TransportClosed, TransportFailure}"
  using assms
proof (induction "length (peek (c_tx s))" arbitrary: s rule: less_induct)
  case less
  obtain e n env where sd: "tr_send (cx_pl cx) (peek (c_tx s)) (c_env s) = (e, n, env)" by (metis prod_cases3)
  have c: "e \<in> {Ok, WouldBlock, TransportClosed, TransportFailure}" "n \<le> length (peek (c_tx s))"
    using transport_contract.send_codes [OF transport sd] transport_contract.send_written [OF transport sd] by auto
  show ?case
  proof (cases "tx_empty (c_tx s) \<or> e \<noteq> Ok \<or> n = 0")
    case True
    let ?e = "if tx_empty (c_tx s) \<or> e = WouldBlock then Ok else e"
    let ?env = "if tx_empty (c_tx s) then c_env s else env"
    have "pump_tx cx s = Some (?e, s\<lparr>c_env := ?env\<rparr>)" using True by (subst pump_tx.simps) (auto simp: sd Let_def)
    moreover have "?e \<in> {Ok, TransportClosed, TransportFailure}" using c(1) by auto
    ultimately show ?thesis using less.prems
      by (intro exI [of _ ?e] exI [of _ "c_tx s"] exI [of _ 0] exI [of _ ?env] exI [of _ "c_last_sent_ms s"]) simp
  next
    case False
    obtain now env' where t: "now_ms (cx_pl cx) env = (now, env')" by fastforce
    let ?q = "consume n (c_tx s)"
    let ?s = "s\<lparr>c_tx := ?q, c_env := env', c_last_sent_ms := now\<rparr>"
    have q: "tx_ok (cx_cfg cx) ?q" "peek ?q = drop n (peek (c_tx s))"
      using less.prems consume_spec [of "c_tx s" n] by (simp_all add: tx_ok_def)
    then have "length (peek (c_tx ?s)) < length (peek (c_tx s))" using False c(2) by (simp, linarith)
    from less.hyps [OF this] q(1) obtain e2 q2 k2 env2 t2 where
      "pump_tx cx ?s = Some (e2, ?s\<lparr>c_tx := q2, c_env := env2, c_last_sent_ms := t2\<rparr>)"
      "tx_ok (cx_cfg cx) q2" "peek q2 = drop k2 (peek ?q)" "e2 \<in> {Ok, TransportClosed, TransportFailure}" by auto
    moreover have "pump_tx cx s = pump_tx cx ?s"
      using False by (subst pump_tx.simps) (simp add: sd read_clock_def t)
    ultimately show ?thesis using q(2)
      by (intro exI [of _ e2] exI [of _ q2] exI [of _ "k2 + n"] exI [of _ env2] exI [of _ t2]) simp
  qed
qed

section \<open>Rounds and timers\<close>

text \<open>What every part of a step keeps, for a step flag \<open>b\<close> and a history \<open>evs\<close>.\<close>

definition kept :: "bool \<Rightarrow> event list \<Rightarrow> 'e client \<Rightarrow> bool" where
  "kept b evs s \<longleftrightarrow> client_invar (cx_cfg cx) s \<and> c_in_step s = b \<and> prefix evs (c_log s)"

lemma kept_updates [simp]:
  "kept b evs (s\<lparr>c_env := env\<rparr>) = kept b evs s" "kept b evs (s\<lparr>c_last_sent_ms := t\<rparr>) = kept b evs s"
  "kept b evs (s\<lparr>c_last_received_ms := t\<rparr>) = kept b evs s" "kept b evs (s\<lparr>c_state := st\<rparr>) = kept b evs s"
  by (simp_all add: kept_def)

lemma read_clock_kept: "read_clock cx s = (now, s') \<Longrightarrow> kept b evs s \<Longrightarrow> kept b evs s'"
  by (auto simp: read_clock_def split: prod.splits)

lemma queues_kept: "queues (cx_cfg cx) wire s (e, s') \<Longrightarrow> kept b evs s \<Longrightarrow> kept b evs s'"
  by (auto simp: kept_def elim!: queuesE intro: client_invar_tx)

lemma shutdown_kept: "kept b evs s \<Longrightarrow> kept b evs (snd (shutdown cx reason s))"
  by (auto simp: kept_def shutdown_def Let_def intro!: inv.call_if_stable in_step.call_if_stable
      history.call_if_stable end_session_invar)

lemma drain_rx_kept: "kept b evs s \<Longrightarrow> \<exists>e s'. drain_rx cx s = Some (e, s') \<and> kept b evs s'"
  using drain_rx_total by (simp add: kept_def)

lemma pump_tx_kept: "kept b evs s \<Longrightarrow> \<exists>e s'. pump_tx cx s = Some (e, s') \<and> kept b evs s'"
  using pump_tx_total [of s] client_invar_txD [of "cx_cfg cx" s] client_invar_tx
  unfolding kept_def by (elim conjE) fastforce

lemma received_kept:
  assumes "tr_recv (cx_pl cx) (drop (c_rx_len s) (c_rx s)) (c_env s) = (e, rd, buf, env)" and "kept b evs s"
  shows "kept b evs (s\<lparr>c_rx := take (c_rx_len s) (c_rx s) @ buf, c_env := env\<rparr>)"
    "kept b evs (s\<lparr>c_rx := take (c_rx_len s) (c_rx s) @ buf, c_env := env, c_rx_len := c_rx_len s + rd\<rparr>)"
proof -
  have "length buf = length (c_rx s) - c_rx_len s" "rd \<le> length (c_rx s) - c_rx_len s"
    using transport_contract.recv_read [OF transport assms(1)] by simp_all
  then show "kept b evs (s\<lparr>c_rx := take (c_rx_len s) (c_rx s) @ buf, c_env := env\<rparr>)"
    "kept b evs (s\<lparr>c_rx := take (c_rx_len s) (c_rx s) @ buf, c_env := env, c_rx_len := c_rx_len s + rd\<rparr>)"
    using assms(2) by (auto simp: kept_def client_invar_def rx_ok_def)
qed

lemma recv_rounds_kept: "kept b evs s \<Longrightarrow> \<exists>e s'. recv_rounds cx n s = Some (e, s') \<and> kept b evs s'"
proof (induction n arbitrary: s)
  case (Suc n)
  have after: "\<exists>e s'. (case drain_rx cx s of None \<Rightarrow> None | Some (e, s) \<Rightarrow>
      if e \<noteq> Ok then Some (e, s) else if c_state s = Connecting then Some (Ok, s)
      else if c_rx_len s = rx_buffer_size (cx_cfg cx) then Some (PacketTooLarge, s)
      else recv_rounds cx n s) = Some (e, s') \<and> kept b evs s'" if "kept b evs s" for s
    using drain_rx_kept [OF that] Suc.IH by auto
  obtain e rd buf env where r: "tr_recv (cx_pl cx) (drop (c_rx_len s) (c_rx s)) (c_env s) = (e, rd, buf, env)"
    by (metis prod_cases4)
  note k = received_kept [OF r Suc.prems]
  obtain now s2 where t: "read_clock cx (s\<lparr>c_rx := take (c_rx_len s) (c_rx s) @ buf, c_env := env,
      c_rx_len := c_rx_len s + rd\<rparr>) = (now, s2)" by fastforce
  show ?case
    using drain_rx_kept [OF k(1)] k(1) after [OF Suc.prems] after [of "s2\<lparr>c_last_received_ms := now\<rparr>"]
      read_clock_kept [OF t k(2)]
    by (simp add: Let_def r t)
qed simp

lemma pump_keep_alive_kept: "pump_keep_alive cx s = (e, s') \<Longrightarrow> kept b evs s \<Longrightarrow> kept b evs s'"
proof -
  assume pk: "pump_keep_alive cx s = (e, s')" and k: "kept b evs s"
  obtain now s1 where t: "read_clock cx s = (now, s1)" by fastforce
  note k1 = read_clock_kept [OF t k]
  obtain e2 s2 where q: "enqueue_sized (cx_cfg cx) (packet_size 0)
      (\<lambda>out. encode_empty (cx_etl cx) out Pingreq) s1 = (e2, s2)" by fastforce
  have "kept b evs s2" using empty_queues [of s1 Pingreq] k1 queues_kept client_invar_txD
    by (simp add: q kept_def) blast
  then show ?thesis using pk k k1
    by (auto simp: pump_keep_alive_def t q Let_def kept_def split: if_splits)
qed

lemma update_slot_kept:
  "client_invar (cx_cfg cx) (update_slot i f s) \<Longrightarrow> kept b evs s \<Longrightarrow> kept b evs (update_slot i f s)"
  by (simp add: kept_def) (simp add: update_slot_def)

lemma retransmit_slot_kept:
  assumes "i < max_inflight_out (cx_cfg cx)" and k: "kept b evs s"
  shows "kept b evs (retransmit_slot (cx_cfg cx) forced now i s)"
proof -
  have inv: "client_invar (cx_cfg cx) s" using k by (simp add: kept_def)
  let ?s1 = "update_slot i mark_dup s"
  have k1: "kept b evs ?s1"
    using client_invar_slot(1) [OF inv assms(1)] assms(1) mark_dup_ok k
    by (intro update_slot_kept update_slot_invar inv) (simp_all add: slot_ids_def)
  obtain e2 s2 where q: "enqueue (slot_bytes (c_outbound ?s1 ! i)) ?s1 = (e2, s2)" by fastforce
  have k2: "kept b evs s2"
    using enqueue_queues [of "cx_cfg cx" ?s1] k1 queues_kept client_invar_txD q unfolding kept_def by metis
  then have "kept b evs (update_slot i (\<lambda>slot. slot\<lparr>sl_last_sent_ms := now\<rparr>) s2)"
    using assms(1) by (intro update_slot_kept stamp_slot_invar) (simp_all add: kept_def)
  then show ?thesis using k k2 by (simp add: retransmit_slot_def q)
qed

lemma pump_retransmit_kept: "kept b evs s \<Longrightarrow> kept b evs (pump_retransmit cx s)"
proof -
  assume k: "kept b evs s"
  have "kept b evs (fold (retransmit_slot (cx_cfg cx) forced now) is t)"
    if "kept b evs t" "set is \<subseteq> {..<max_inflight_out (cx_cfg cx)}" for t forced now "is"
    using that by (induction "is" arbitrary: t) (simp_all add: retransmit_slot_kept)
  moreover have "set [0..<max_inflight_out (cx_cfg cx)] \<subseteq> {..<max_inflight_out (cx_cfg cx)}" by auto
  moreover have "kept b evs (s\<lparr>c_retransmit_now := False\<rparr>)" using k by (simp add: kept_def)
  ultimately show ?thesis
    by (auto simp: pump_retransmit_def Let_def split: prod.splits dest: read_clock_kept)
qed

lemma fold_clear_resub_kept:
  "kept b evs s \<Longrightarrow> kept b evs (fold clear_resub sids s)
     \<and> c_pending (fold clear_resub sids s) = c_pending s \<and> c_outbound (fold clear_resub sids s) = c_outbound s"
proof (induction sids arbitrary: s)
  case (Cons sid sids)
  have "kept b evs (clear_resub sid s)"
    using Cons.prems granted_invar(2) by (auto simp: kept_def clear_resub_def split: option.splits)
      (simp_all add: update_sub_def)
  moreover have "c_pending (clear_resub sid s) = c_pending s" "c_outbound (clear_resub sid s) = c_outbound s"
    by (simp_all add: clear_resub_def update_sub_def split: option.splits)
  ultimately show ?case using Cons.IH [of "clear_resub sid s"] by simp
qed simp

lemma pump_resubscribe_kept:
  assumes k: "kept b evs s"
  shows "kept b evs (pump_resubscribe cx s)"
proof -
  define chosen where "chosen = take (max_topics_per_request (cx_cfg cx)) (filter su_needs_resub (c_subscriptions s))"
  define batch where "batch = map (\<lambda>u. \<lparr>t_filter = su_filter u, t_qos = su_requested_qos u\<rparr>) chosen"
  have len: "length (map su_sub_id chosen) \<le> max_topics_per_request (cx_cfg cx)" by (simp add: chosen_def)
  show ?thesis
  proof (cases "subscribe_remaining_length batch")
    case (Inr rl)
    obtain pid s1 where a: "alloc_packet_id (cx_cfg cx) s = (pid, s1)" by fastforce
    obtain n where n: "s1 = s\<lparr>c_next_packet_id := n\<rparr>" using alloc_packet_idD [OF a] by blast
    have k1: "kept b evs s1" using k by (simp add: n kept_def)
    then have tx1: "tx_ok (cx_cfg cx) (c_tx s1)" by (simp add: kept_def client_invar_def)
    obtain e2 s2 where q: "enqueue_sized (cx_cfg cx) (packet_size rl)
        (\<lambda>out. encode_subscribe (cx_etl cx) out pid batch) s1 = (e2, s2)" by fastforce
    obtain now s3 where t: "read_clock cx s2 = (now, s3)" by fastforce
    note req = subscribe_queues [OF tx1 Inr, of pid, unfolded q]
    have k2: "kept b evs s2" if "pid \<noteq> 0" using queues_kept [OF req [OF that] k1] .
    let ?s4 = "fold clear_resub (map su_sub_id chosen) s3"
    have "kept b evs (?s4\<lparr>c_pending := c_pending ?s4 @
        [\<lparr>pa_subs = map su_sub_id chosen, pa_sent_ms = now, pa_packet_id = pid, pa_expected = Suback\<rparr>]\<rparr>)"
      if ok: "pid \<noteq> 0" "\<not> ack_table_full (cx_cfg cx) s"
    proof -
      obtain tq env where s3: "s3 = s\<lparr>c_next_packet_id := n, c_tx := tq, c_env := env\<rparr>"
        using req [OF ok(1)] t by (auto simp: queues_def n read_clock_def split: prod.splits)
      note k4 = fold_clear_resub_kept [OF read_clock_kept [OF t k2 [OF ok(1)]], of "map su_sub_id chosen"]
      have "client_invar (cx_cfg cx) (?s4\<lparr>c_pending := c_pending ?s4 @
          [\<lparr>pa_subs = map su_sub_id chosen, pa_sent_ms = now, pa_packet_id = pid, pa_expected = Suback\<rparr>]\<rparr>)"
        using k4 ok len packet_ids.fresh [OF a ok(1)]
        by (intro add_pending_invar) (auto simp: kept_def s3 packet_id_in_use_def ack_table_full_def)
      then show ?thesis using k4 by (simp add: kept_def)
    qed
    then show ?thesis using k k1 k2 unfolding pump_resubscribe_def chosen_def [symmetric] batch_def [symmetric] Let_def
      by (simp add: Inr a q t)
  qed (simp add: pump_resubscribe_def k batch_def chosen_def Let_def)
qed

section \<open>The step\<close>

text \<open>A part of a step returns, keeps what is to be kept, and reports an error only with the session closed.\<close>

definition returns :: "bool \<Rightarrow> event list \<Rightarrow> (Error \<times> 'e client) option \<Rightarrow> bool" where
  "returns b evs r \<longleftrightarrow> (\<exists>e s'. r = Some (e, s') \<and> kept b evs s' \<and> (e \<noteq> Ok \<longrightarrow> c_state s' \<in> {Idle, Connecting}))"

lemma returns_ok: "kept b evs s \<Longrightarrow> returns b evs (Some (Ok, s))"
  by (simp add: returns_def)

lemma returns_shutdown: "kept b evs s \<Longrightarrow> returns b evs (Some (shutdown cx reason s))"
proof -
  assume k: "kept b evs s"
  have "c_state (snd (shutdown cx reason s)) \<in> {Idle, Connecting}"
    using closed.call_if_stable [of "end_session cx reason s" "c_on_disconnect (end_session cx reason s)"
        "\<lambda>k. OnDisconnect k reason"] by (simp add: shutdown_def Let_def)
  then show ?thesis using shutdown_kept [OF k, of reason] by (cases "shutdown cx reason s") (simp add: returns_def)
qed

lemma flush_returns:
  assumes "kept b evs s"
  shows "returns b evs (case pump_tx cx s of None \<Rightarrow> None | Some (e, s) \<Rightarrow>
    if e \<noteq> Ok then Some (shutdown cx e s) else Some (Ok, s))"
  using pump_tx_kept [OF assms] by (auto intro: returns_ok returns_shutdown)

lemma step_timers_returns:
  assumes k: "kept b evs s"
  shows "returns b evs (step_timers cx s)"
proof -
  obtain now s1 where t: "read_clock cx s = (now, s1)" by fastforce
  obtain e2 s2 where p: "pump_keep_alive cx s = (e2, s2)" by fastforce
  note k1 = read_clock_kept [OF t k] and k2 = pump_keep_alive_kept [OF p k]
  show ?thesis unfolding step_timers_def Let_def t p
    using k k1 k2 flush_returns [OF k] flush_returns [OF pump_retransmit_kept [OF pump_resubscribe_kept [OF k2]]]
    by (simp add: returns_ok returns_shutdown)
qed

lemma step_io_returns:
  assumes k: "kept b evs s"
  shows "returns b evs (step_io cx s)"
proof -
  obtain e1 s1 where t: "pump_tx cx s = Some (e1, s1)" "kept b evs s1" using pump_tx_kept [OF k] by blast
  obtain e2 s2 where r: "pump_rx cx s1 = Some (e2, s2)" "kept b evs s2"
    using recv_rounds_kept [OF t(2)] unfolding pump_rx_def by blast
  show ?thesis using t(2) r(2) step_timers_returns [OF r(2)] by (simp add: step_io_def t(1) r(1) returns_shutdown)
qed

lemma step_once_returns:
  assumes k: "kept b evs s"
  shows "returns b evs (step_once cx s)"
proof -
  obtain e env where c: "tr_connect (cx_pl cx) (c_env s) = (e, env)" by fastforce
  obtain now s1 where t1: "read_clock cx (s\<lparr>c_env := env\<rparr>) = (now, s1)" by fastforce
  obtain now' s2 where t2: "read_clock cx (s\<lparr>c_env := env, c_state := AwaitingConnack\<rparr>) = (now', s2)" by fastforce
  have k1: "kept b evs s1" and k2: "kept b evs s2" using k read_clock_kept [OF t1] read_clock_kept [OF t2] by simp_all
  show ?thesis using k k1 k2 step_io_returns [of b evs "s2\<lparr>c_last_sent_ms := now'\<rparr>"] step_io_returns [OF k]
    by (simp add: step_once_def c t1 t2 Let_def returns_ok returns_shutdown)
qed

lemma step_returns:
  assumes "client_invar (cx_cfg cx) s"
  shows "\<exists>e s'. step cx s = Some (e, s') \<and> client_invar (cx_cfg cx) s' \<and> c_in_step s' = c_in_step s
    \<and> prefix (c_log s) (c_log s') \<and> (e \<noteq> Ok \<longrightarrow> \<not> c_in_step s \<longrightarrow> c_state s' \<in> {Idle, Connecting})"
proof (cases "c_in_step s")
  case False
  have "kept True (c_log s) (s\<lparr>c_in_step := True\<rparr>)" using assms by (simp add: kept_def)
  from step_once_returns [OF this] show ?thesis using False by (auto simp: returns_def step_def kept_def)
qed (use assms in \<open>simp add: step_def\<close>)

end

end
