(* ===== verification/Test_Bench.thy ===== *)
theory Test_Bench
  imports Client_World
begin

text \<open>
  The test bench of the repository: the broker side of the fake transport
  (\<^verbatim>\<open>tests/broker_sim.hpp\<close>) and the application whose handlers act on the client that calls them
  (\<^verbatim>\<open>tests/test_callback_reentrancy.cpp\<close>). It is the concrete world on which the contracts of the
  client are discharged.
\<close>

section \<open>Broker to client\<close>

definition push_connack :: "bool \<Rightarrow> ConnackCode \<Rightarrow> fake_env \<Rightarrow> fake_env" where
  "push_connack session_present code t =
     push_inbound [0x20, 0x02, if session_present then 1 else 0, connack_value code] t"

definition push_ack :: "PacketType \<Rightarrow> u16 \<Rightarrow> fake_env \<Rightarrow> fake_env" where
  "push_ack type pid t =
     (case encode_ack list_streams (replicate 8 0) type pid of
        (Inl _, _) \<Rightarrow> t
      | (Inr n, buf) \<Rightarrow> push_inbound (take n buf) t)"

definition push_pingresp :: "fake_env \<Rightarrow> fake_env" where
  "push_pingresp t = push_inbound [0xD0, 0x00] t"

definition push_suback :: "u16 \<Rightarrow> u8 list \<Rightarrow> fake_env \<Rightarrow> fake_env" where
  "push_suback pid codes t =
     push_inbound ([0x90, word_of_nat (2 + length codes), ucast (drop_bit 8 pid), ucast (pid AND 0xFF)] @ codes) t"

definition push_unsuback :: "u16 \<Rightarrow> fake_env \<Rightarrow> fake_env" where
  "push_unsuback pid t = push_inbound [0xB0, 0x02, ucast (drop_bit 8 pid), ucast (pid AND 0xFF)] t"

definition push_publish ::
  "bytes \<Rightarrow> bytes \<Rightarrow> QoS \<Rightarrow> u16 \<Rightarrow> bool \<Rightarrow> bool \<Rightarrow> fake_env \<Rightarrow> fake_env" where
  "push_publish topic payload qos pid dup retain t =
     (case encode_publish list_streams (replicate 512 0) topic payload qos retain dup pid of
        (Inl _, _) \<Rightarrow> t
      | (Inr n, buf) \<Rightarrow> push_inbound (take n buf) t)"

section \<open>Client to broker\<close>

text \<open>The packets the client wrote, from a position on.\<close>

function sent_packets :: "bytes \<Rightarrow> (FixedHeader \<times> bytes) list" where
  "sent_packets sent =
     (if sent = [] then []
      else
        (case peek_header sent of
           Inl _ \<Rightarrow> []
         | Inr p \<Rightarrow>
             if p_total_bytes p > length sent then []
             else (p_header p, take (unat (h_remaining_length (p_header p))) (drop (p_header_bytes p) sent))
               # sent_packets (drop (p_total_bytes p) sent)))"
  by pat_completeness auto

termination
proof (relation "measure length")
  fix sent p assume p: "peek_header sent = Inr p" and "sent \<noteq> []"
  then have "0 < length sent" "0 < p_total_bytes p" using peek_sound(5,7) [OF p] by simp_all
  then show "(drop (p_total_bytes p) sent, sent) \<in> measure length" by simp
qed simp

definition find_sent :: "fake_env \<Rightarrow> PacketType \<Rightarrow> nat \<Rightarrow> (FixedHeader \<times> bytes) option" where
  "find_sent t type index =
     (let ps = filter (\<lambda>(h, body). h_type h = type) (sent_packets (f_sent t))
      in if index < length ps then Some (ps ! index) else None)"

definition count_sent :: "fake_env \<Rightarrow> PacketType \<Rightarrow> nat" where
  "count_sent t type = length (filter (\<lambda>(h, body). h_type h = type) (sent_packets (f_sent t)))"

section \<open>The application\<close>

datatype Act = Nothing | Abort | DisconnectNow | StepNow | AbortThenConnect

definition act_of :: "nat \<Rightarrow> Act" where
  "act_of k = (if k = 1 then Abort else if k = 2 then DisconnectNow
     else if k = 3 then AbortThenConnect else if k = 4 then StepNow else Nothing)"

definition reconnect_options :: ConnectOptions where
  "reconnect_options = default_options\<lparr>o_client_id := lit ''cid2'', o_keep_alive_s := 10, o_clean_session := True\<rparr>"

text \<open>The context without its handlers: the calls of \<open>act\<close> run none but \<open>on_disconnect\<close>, which
  only counts.\<close>

definition bench_base :: "config \<Rightarrow> (list_writer, list_reader, fake_env) client_ctx" where
  "bench_base cfg = \<lparr>cx_cfg = cfg, cx_etl = list_streams, cx_pl = fake_platform, cx_app = (\<lambda>_ s. s)\<rparr>"

text \<open>A handler runs inside a step, where a nested step is refused, or on the idle client that a
  call of \<open>abort\<close> or \<open>disconnect\<close> has left, where a step does nothing. The client runs handlers at no
  other place.\<close>

definition step_in_handler :: "('w, 'r, 'e) client_ctx \<Rightarrow> 'e client \<Rightarrow> 'e client" where
  "step_in_handler cx s =
     (if c_in_step s \<or> c_state s = Idle then (case step cx s of Some (_, s) \<Rightarrow> s | None \<Rightarrow> s) else s)"

lemma step_in_handler [simp]: "step_in_handler cx s = s"
  by (simp add: step_in_handler_def step_def step_once_def)

definition act :: "config \<Rightarrow> Act \<Rightarrow> fake_env client \<Rightarrow> fake_env client" where
  "act cfg a s =
     (case a of
        Nothing \<Rightarrow> s
      | Abort \<Rightarrow> abort (bench_base cfg) s
      | DisconnectNow \<Rightarrow> snd (disconnect (bench_base cfg) s)
      | StepNow \<Rightarrow> step_in_handler (bench_base cfg) s
      | AbortThenConnect \<Rightarrow> snd (connect (bench_base cfg) reconnect_options (abort (bench_base cfg) s)))"

definition bench :: "config \<Rightarrow> (list_writer, list_reader, fake_env) client_ctx" where
  "bench cfg = (bench_base cfg)\<lparr>cx_app := (\<lambda>ev s. case ev of
       OnMessage k _ \<Rightarrow> act cfg (act_of k) s
     | OnConnect k _ \<Rightarrow> act cfg (act_of k) s
     | OnSuback k _ _ \<Rightarrow> act cfg (act_of k) s
     | OnDelivery k _ \<Rightarrow> act cfg (act_of k) s
     | OnDisconnect _ _ \<Rightarrow> s)\<rparr>"

lemma bench_simps [simp]:
  "cx_cfg (bench cfg) = cfg" "cx_etl (bench cfg) = list_streams" "cx_pl (bench cfg) = fake_platform"
  "cx_app (bench cfg) (OnDisconnect k e) s = s"
  "cx_cfg (bench_base cfg) = cfg" "cx_etl (bench_base cfg) = list_streams"
  "cx_pl (bench_base cfg) = fake_platform" "cx_app (bench_base cfg) ev s = s"
  by (simp_all add: bench_def bench_base_def)

text \<open>The calls do not depend on the handlers they do not run.\<close>

lemma bench_calls:
  "end_session (bench_base cfg) e s = end_session (bench cfg) e s"
  "shutdown (bench_base cfg) e s = shutdown (bench cfg) e s"
  "abort (bench_base cfg) s = abort (bench cfg) s"
  "disconnect (bench_base cfg) s = disconnect (bench cfg) s"
  "connect (bench_base cfg) opts s = connect (bench cfg) opts s"
proof -
  show es: "end_session (bench_base cfg) e s = end_session (bench cfg) e s" for e s
    by (simp add: end_session_def)
  show sh: "shutdown (bench_base cfg) e s = shutdown (bench cfg) e s" for e s
    by (simp add: shutdown_def es call_if_def run_handler_def Let_def split: option.split)
  show "abort (bench_base cfg) s = abort (bench cfg) s"
    "disconnect (bench_base cfg) s = disconnect (bench cfg) s"
    by (simp_all only: abort_def disconnect_def sh bench_simps)
  have "read_clock (bench_base cfg) = read_clock (bench cfg)" by (simp add: fun_eq_iff read_clock_def)
  then show "connect (bench_base cfg) opts s = connect (bench cfg) opts s" by (simp only: connect_def bench_simps)
qed

lemma bench_disconnect_run: "disconnect_run (bench cfg)"
  by (simp add: disconnect_run_def run_handler_def handler_run.finished)

lemma act_run: "handler_run (bench cfg) s (act cfg a s)"
proof (cases a)
  case Abort
  then show ?thesis using abort_run [OF bench_disconnect_run handler_run.finished]
    by (simp add: act_def bench_calls)
next
  case DisconnectNow
  then show ?thesis using leave_run [OF bench_disconnect_run handler_run.finished]
    by (simp add: act_def bench_calls)
next
  case AbortThenConnect
  have "handler_run (bench cfg) s' (snd (connect (bench cfg) reconnect_options s'))" for s'
    by (rule handler_run.connecting [OF prod.collapse [symmetric] handler_run.finished])
  then show ?thesis using abort_run [OF bench_disconnect_run] by (simp add: AbortThenConnect act_def bench_calls)
qed (simp_all add: act_def step_in_handler handler_run.finished)

lemma bench_handlers: "handlers_ok (bench cfg)"
  unfolding handlers_ok_def
proof (intro allI)
  fix ev s
  show "handler_run (bench cfg) s (cx_app (bench cfg) ev s)"
    by (cases ev) (simp_all add: bench_def act_run [unfolded bench_def] handler_run.finished)
qed

lemma bench_world: "wf_config cfg \<Longrightarrow> client_world (bench cfg)"
  by (intro client_world.intro client_env.intro client_world_axioms.intro)
    (simp_all add: lists.byte_streams_axioms fake.transport_contract_axioms bench_handlers)

interpretation bench_default: client_world "bench DefaultConfig"
  by (rule bench_world) (simp add: wf_config_def DefaultConfig_check, simp add: DefaultConfig_def)

section \<open>Bringing a client up\<close>

definition connect_client ::
  "(list_writer, list_reader, fake_env) client_ctx \<Rightarrow> fake_env client \<Rightarrow> (bool \<times> fake_env client) option" where
  "connect_client cx s =
     (case connect cx (default_options\<lparr>o_client_id := lit ''cid'', o_keep_alive_s := 10, o_clean_session := True\<rparr>) s of
        (e, s) \<Rightarrow>
          if e \<noteq> Ok then Some (False, s)
          else
            (case step cx s of
               None \<Rightarrow> None
             | Some (_, s) \<Rightarrow>
                 (case step cx (s\<lparr>c_env := push_connack False Accepted (c_env s)\<rparr>) of
                    None \<Rightarrow> None
                  | Some (_, s) \<Rightarrow> Some (is_connected s, s))))"

text \<open>A configuration with small buffers and every table in use.\<close>

definition bench_config :: config where
  "bench_config = DefaultConfig\<lparr>rx_buffer_size := 32, tx_buffer_size := 32, max_topic_len := 8,
     max_persisted_msg_size := 16, max_inflight_out := 2, max_inflight_in := 2, max_subscriptions := 2,
     max_pending_acks := 2, max_topics_per_request := 2\<rparr>"

lemma bench_config_wf: "wf_config bench_config"
  by (simp add: wf_config_def config_check_def bench_config_def DefaultConfig_def)

interpretation bench_small: client_world "bench bench_config"
  by (rule bench_world [OF bench_config_wf])

text \<open>A connected client with no session behind it.\<close>

definition bench_up :: "fake_env client" where
  "bench_up = (new_client bench_config (fake_env0\<lparr>f_connected := True\<rparr>))\<lparr>c_state := Connected\<rparr>"

lemma bench_up_invar: "client_invar bench_config bench_up"
  by (simp add: bench_up_def new_client_invar)

end
