(* ===== verification/Client_Runs.thy ===== *)
theory Client_Runs
  imports Client_Progress Test_Bench
begin

text \<open>
  Histories of a client: any sequence of calls of the application and of steps, with the network,
  the clock and the application's own state moving freely in between. Every state such a history
  reaches satisfies the invariant, and every step in it returns.
\<close>

inductive reachable :: "('w, 'r, 'e) client_ctx \<Rightarrow> 'e client \<Rightarrow> bool" for cx where
  fresh: "reachable cx (new_client (cx_cfg cx) env)"
| world: "reachable cx s \<Longrightarrow> reachable cx (s\<lparr>c_env := env\<rparr>)"
| bind_handlers: "reachable cx s \<Longrightarrow> reachable cx (on_message h1 (on_connect h2 (on_disconnect h3
    (on_delivery_complete h4 (on_suback h5 s)))))"
| call_connect: "reachable cx s \<Longrightarrow> connect cx opts s = (e, s') \<Longrightarrow> reachable cx s'"
| call_disconnect: "reachable cx s \<Longrightarrow> disconnect cx s = (e, s') \<Longrightarrow> reachable cx s'"
| call_abort: "reachable cx s \<Longrightarrow> reachable cx (abort cx s)"
| call_publish: "reachable cx s \<Longrightarrow> length payload < 2 ^ 63 \<Longrightarrow>
    publish cx topic payload qos retain s = (e, res, s') \<Longrightarrow> reachable cx s'"
| call_subscribe: "reachable cx s \<Longrightarrow> subscribe cx subs h s = (e, res, s') \<Longrightarrow> reachable cx s'"
| call_unsubscribe: "reachable cx s \<Longrightarrow> unsubscribe cx fs s = (e, res, s') \<Longrightarrow> reachable cx s'"
| call_step: "reachable cx s \<Longrightarrow> step cx s = Some (e, s') \<Longrightarrow> reachable cx s'"

context client_world
begin

lemma shutdown_in_step: "c_in_step (snd (shutdown cx reason s)) = c_in_step s"
  using in_step.call_if_stable [of "end_session cx reason s" "c_in_step s"] by (simp add: shutdown_def Let_def)

lemma disconnect_keeps:
  assumes "disconnect cx s = (e, s')" and inv: "client_invar (cx_cfg cx) s"
  shows "client_invar (cx_cfg cx) s' \<and> c_in_step s' = c_in_step s"
proof -
  obtain e1 s1 where q: "enqueue_sized (cx_cfg cx) (packet_size 0)
      (\<lambda>out. encode_empty (cx_etl cx) out Disconnect) s = (e1, s1)" by fastforce
  have s1: "client_invar (cx_cfg cx) s1" "c_in_step s1 = c_in_step s"
    using disconnect_leaves [OF q inv] enqueue_sized_frame [OF q] by (simp_all add: same_frame_def)
  have sh: "client_invar (cx_cfg cx) (snd (shutdown cx r t))" if "client_invar (cx_cfg cx) t" for r t
    using shutdown_invar [OF prod.collapse [symmetric] that] by simp
  show ?thesis using assms(1) s1 inv sh [OF inv] sh [OF s1(1)] shutdown_in_step
    by (auto simp: disconnect_def q split: if_splits)
qed

lemma register_subs_in_step: "c_in_step (snd (register_subs h subs st)) = c_in_step (snd st)"
proof (induction h subs st rule: register_subs.induct)
  case (2 h t subs sids s)
  obtain sid s1 where a: "alloc_sub_id s = (sid, s1)" by fastforce
  obtain n where "s1 = s\<lparr>c_next_sub_id := n\<rparr>" using alloc_sub_idD [OF a] by blast
  then show ?case using 2 by (simp add: a update_sub_def split: option.splits)
qed simp

lemma request_in_step:
  "subscribe cx subs h s = (e, res, s') \<Longrightarrow> c_in_step s' = c_in_step s"
  "unsubscribe cx fs s = (e, res, s') \<Longrightarrow> c_in_step s' = c_in_step s"
proof -
  have r: "register_subs h subs (sids, t) = (sids', t') \<Longrightarrow> c_in_step t' = c_in_step t" for sids sids' and t t' :: "'e client"
    using register_subs_in_step [of h subs "(sids, t)"] by simp
  show "subscribe cx subs h s = (e, res, s') \<Longrightarrow> c_in_step s' = c_in_step s"
    unfolding subscribe_def
    by (auto simp: Let_def same_frame_def split: if_splits sum.splits prod.splits
        dest!: r enqueue_sized_frame read_clock_frame alloc_packet_id_frame)
  show "unsubscribe cx fs s = (e, res, s') \<Longrightarrow> c_in_step s' = c_in_step s"
    unfolding unsubscribe_def
    by (auto simp: Let_def same_frame_def split: if_splits sum.splits prod.splits
        dest!: enqueue_sized_frame read_clock_frame alloc_packet_id_frame)
qed

lemma reachable_keeps: "reachable cx s \<Longrightarrow> client_invar (cx_cfg cx) s \<and> \<not> c_in_step s"
proof (induction rule: reachable.induct)
  case (fresh env)
  then show ?case using new_client_invar by (simp add: new_client_def)
next
  case (bind_handlers s)
  then show ?case
    by (simp add: on_message_def on_connect_def on_disconnect_def on_delivery_complete_def on_suback_def)
next
  case (call_connect s opts e s')
  then show ?case using connect_invar connect_frame by blast
next
  case (call_disconnect s e s')
  then show ?case using disconnect_keeps by blast
next
  case (call_abort s)
  then show ?case using shutdown_invar [OF prod.collapse [symmetric]] shutdown_in_step by (simp add: abort_def)
next
  case (call_publish s payload topic qos retain e res s')
  then show ?case using publish_invar [OF call_publish(3)] publish_frame [OF call_publish(3)] by (simp add: same_frame_def)
next
  case (call_subscribe s subs h e res s')
  then show ?case using subscribe_invar request_in_step(1) by blast
next
  case (call_unsubscribe s fs e res s')
  then show ?case using unsubscribe_invar request_in_step(2) by blast
next
  case (call_step s e s')
  then show ?case using step_returns [of s] by auto
qed simp

end

section \<open>A client of the test bench\<close>

definition bench_connecting :: "fake_env \<Rightarrow> fake_env client" where
  "bench_connecting env = snd (connect (bench bench_config)
     (default_options\<lparr>o_client_id := lit ''cid'', o_keep_alive_s := 10, o_clean_session := True\<rparr>)
     (new_client bench_config env))"

lemma bench_connecting_reachable: "reachable (bench bench_config) (bench_connecting env)"
  unfolding bench_connecting_def
  by (rule reachable.call_connect [OF reachable.fresh prod.collapse [symmetric], of "bench bench_config" _ env, simplified])

section \<open>Properties\<close>

text \<open>C1: Every state of a client that any history of calls and steps can reach is well formed,
  whatever the broker sends, however the transport splits or blocks the traffic and whatever the
  handlers do within their contract: the transmit queue and the receive buffer are within their
  arrays, the tables within their configured limits, every occupied outbound slot holds exactly
  the packet it has to retransmit, and no two outstanding exchanges share a packet identifier.\<close>

theorem reachable_client_invar:
  assumes "client_world cx" and "reachable cx s"
  shows "client_invar (cx_cfg cx) s"
  using client_world.reachable_keeps [OF assms] by blast

theorem reachable_client_invar_witness:
  "client_invar bench_config (bench_connecting fake_env0) \<and> c_state (bench_connecting fake_env0) = Connecting
   \<and> tx_pending (bench_connecting fake_env0) = 17"
proof (intro conjI)
  show "client_invar bench_config (bench_connecting fake_env0)"
    using reachable_client_invar [OF bench_world [OF bench_config_wf] bench_connecting_reachable] by simp
  have "(c_state (bench_connecting fake_env0), tx_pending (bench_connecting fake_env0)) = (Connecting, 17)" by code_simp
  then show "c_state (bench_connecting fake_env0) = Connecting" "tx_pending (bench_connecting fake_env0) = 17" by simp_all
qed

text \<open>C2: Every step returns. From any reachable state \<open>step\<close> comes back with a client that is
  again reachable: the receive loop ends although handlers run inside it, the transmit loop ends
  although the transport takes as little as it likes, and the history of handler calls is only
  ever extended.\<close>

theorem step_terminates:
  assumes "client_world cx" and "reachable cx s"
  shows "\<exists>e s'. step cx s = Some (e, s') \<and> reachable cx s' \<and> prefix (c_log s) (c_log s')"
  using client_world.step_returns [OF assms(1)] client_world.reachable_keeps [OF assms] reachable.call_step [OF assms(2)]
  by blast

theorem step_terminates_witness:
  "\<exists>e s'. step (bench bench_config) (bench_connecting fake_env0) = Some (e, s') \<and> reachable (bench bench_config) s'
     \<and> prefix (c_log (bench_connecting fake_env0)) (c_log s')"
  using step_terminates [OF bench_world [OF bench_config_wf] bench_connecting_reachable] .



end
