(* ===== verification/Client_Exchange.thy ===== *)
theory Client_Exchange
  imports Client_Progress Test_Bench
begin

text \<open>
  What the single exchanges of the protocol do: publishing, the acknowledgement handshakes of both
  directions, retransmission, keep-alive and delivery. The lemmas before the properties are the
  refinements they rest on.
\<close>

section \<open>Outbound handshakes\<close>

text \<open>The state machine of an outbound message, by the acknowledgement that arrives.\<close>

fun outbound_next :: "Phase \<Rightarrow> PacketType \<Rightarrow> Phase" where
  "outbound_next WaitPuback Puback = Free"
| "outbound_next WaitPubrec Pubrec = WaitPubcomp"
| "outbound_next WaitPubcomp Pubcomp = Free"
| "outbound_next ph _ = ph"

lemma update_slot_nth:
  "j \<noteq> i \<Longrightarrow> c_outbound (update_slot i f s) ! j = c_outbound s ! j"
  "i < length (c_outbound s) \<Longrightarrow> c_outbound (update_slot i f s) ! i = f (c_outbound s ! i)"
  "length (c_outbound (update_slot i f s)) = length (c_outbound s)"
  by (simp_all add: update_slot_def)

lemma enqueue_outbound: "enqueue bs s = (e, s') \<Longrightarrow> c_outbound s' = c_outbound s"
  by (auto simp: enqueue_def split: prod.splits)

lemma read_clock_outbound: "read_clock cx s = (now, s') \<Longrightarrow> c_outbound s' = c_outbound s \<and> c_tx s' = c_tx s"
  by (auto simp: read_clock_def split: prod.splits)

lemma count_backpressure_frame [simp]: "c_outbound (count_backpressure s) = c_outbound s"
  "same_frame s (count_backpressure t) = same_frame s t"
  by (simp_all add: count_backpressure_def same_frame_def)

lemma resend_slot_spec:
  assumes "i < length (c_outbound s)"
  shows "\<exists>t. c_outbound (resend_slot cx i s) ! i = (c_outbound s ! i)\<lparr>sl_last_sent_ms := t\<rparr>"
    "j \<noteq> i \<Longrightarrow> c_outbound (resend_slot cx i s) ! j = c_outbound s ! j" "same_frame s (resend_slot cx i s)"
proof -
  obtain e s1 where q: "enqueue (slot_bytes (c_outbound s ! i)) s = (e, s1)" by fastforce
  obtain now s2 where t: "read_clock cx s1 = (now, s2)" by fastforce
  have o: "c_outbound s1 = c_outbound s" "c_outbound s2 = c_outbound s" "same_frame s s1" "same_frame s s2"
    using enqueue_outbound [OF q] read_clock_outbound [OF t] enqueue_frame [OF q] read_clock_frame [OF t]
    by (auto intro: same_frame_trans)
  have "c_outbound s ! i = (c_outbound s ! i)\<lparr>sl_last_sent_ms := sl_last_sent_ms (c_outbound s ! i)\<rparr>" by simp
  then have same: "\<exists>t. c_outbound s ! i = (c_outbound s ! i)\<lparr>sl_last_sent_ms := t\<rparr>" by blast
  show "\<exists>t. c_outbound (resend_slot cx i s) ! i = (c_outbound s ! i)\<lparr>sl_last_sent_ms := t\<rparr>"
    using same o assms by (auto simp: resend_slot_def q t update_slot_nth)
  show "j \<noteq> i \<Longrightarrow> c_outbound (resend_slot cx i s) ! j = c_outbound s ! j"
    using o by (simp add: resend_slot_def q t update_slot_nth)
  show "same_frame s (resend_slot cx i s)" using o by (simp add: resend_slot_def q t)
qed

text \<open>What a retransmission of an occupied slot has to put on the wire.\<close>

definition resends :: "OutboundSlot \<Rightarrow> bytes \<Rightarrow> bool" where
  "resends x w \<longleftrightarrow>
     (\<exists>m q. q \<in> {AtLeastOnce, ExactlyOnce} \<and> holds_publish q x m
        \<and> w = packet_wire (publish_header (m\<lparr>m_dup := True\<rparr>)) (publish_body m))
     \<or> (holds_pubrel x \<and> w = packet_wire (plain_header Pubrel) (be16 (sl_packet_id x)))"

context client_world
begin

lemma release_slot_spec:
  assumes inv: "client_invar (cx_cfg cx) s" and "i < max_inflight_out (cx_cfg cx)"
  defines "s1 \<equiv> update_slot i release_slot s"
  shows "client_invar (cx_cfg cx) s1" "sl_phase (c_outbound s1 ! i) = Free"
    "j \<noteq> i \<Longrightarrow> c_outbound s1 ! j = c_outbound s ! j" "same_frame s s1" "c_on_delivery s1 = c_on_delivery s"
  using release_invar [OF assms(1,2)] client_invar_slot(2) [OF assms(1,2)]
  by (simp_all add: s1_def update_slot_nth release_slot_def) (simp add: update_slot_def)

text \<open>A PUBREC in the phase that waits for it.\<close>

lemma pubrec_spec:
  assumes inv: "client_invar (cx_cfg cx) s" and "pid \<noteq> 0"
    and i: "find_outbound (cx_cfg cx) pid s = Some i" and "sl_phase (c_outbound s ! i) = WaitPubrec"
  obtains s1 where "handle_pubrec cx (be16 pid) s = (Ok, s1)" "sl_phase (c_outbound s1 ! i) = WaitPubcomp"
    "slot_bytes (c_outbound s1 ! i) = packet_wire (plain_header Pubrel) (be16 pid)"
    "\<forall>j. j \<noteq> i \<longrightarrow> c_outbound s1 ! j = c_outbound s ! j" "same_frame s s1"
proof -
  note fo = find_outboundD [OF i]
  note sl = client_invar_slot [OF inv conjunct1 [OF fo]]
  obtain out where out: "encode_ack (cx_etl cx) (sl_packet (c_outbound s ! i)) Pubrel pid = (Inr 4, out)"
    "slot_bytes ((c_outbound s ! i)\<lparr>sl_packet := out, sl_packet_len := 4, sl_phase := WaitPubcomp\<rparr>)
       = packet_wire (plain_header Pubrel) (be16 pid)"
    using pubrel_slot [OF sl(1) assms(4)] fo by auto
  let ?s1 = "update_slot i (\<lambda>x. x\<lparr>sl_packet := out, sl_packet_len := 4, sl_phase := WaitPubcomp\<rparr>) s"
  have d: "decode_packet_id (be16 pid) = Inr pid" using assms(2) by (simp add: decode_packet_id_iff)
  have h: "handle_pubrec cx (be16 pid) s = (Ok, resend_slot cx i ?s1)"
    using assms(4) i out(1) sl(2) by (simp add: handle_pubrec_def d update_slot_twice)
  have len: "i < length (c_outbound ?s1)" using sl(2) by (simp add: update_slot_nth)
  note r = resend_slot_spec [OF len, where cx = cx]
  obtain t where t: "c_outbound (resend_slot cx i ?s1) ! i = (c_outbound ?s1 ! i)\<lparr>sl_last_sent_ms := t\<rparr>"
    using r(1) by blast
  show ?thesis
  proof (rule that [OF h])
    show "sl_phase (c_outbound (resend_slot cx i ?s1) ! i) = WaitPubcomp" using t sl(2) by (simp add: update_slot_nth)
    show "slot_bytes (c_outbound (resend_slot cx i ?s1) ! i) = packet_wire (plain_header Pubrel) (be16 pid)"
      using t sl(2) out(2) by (simp add: update_slot_nth slot_bytes_def)
    show "\<forall>j. j \<noteq> i \<longrightarrow> c_outbound (resend_slot cx i ?s1) ! j = c_outbound s ! j"
      using r(2) by (simp add: update_slot_nth)
    show "same_frame s (resend_slot cx i ?s1)" using r(3) by simp
  qed
qed

lemma ack_refines:
  assumes inv: "client_invar (cx_cfg cx) s" and ty: "h_type h \<in> {Puback, Pubrec, Pubcomp}"
    and pid: "pid \<noteq> 0" and i: "find_outbound (cx_cfg cx) pid s = Some i"
    and hp: "handle_packet cx h (be16 pid) s = (e, s')"
  shows "\<exists>s1. e = Ok \<and> sl_phase (c_outbound s1 ! i) = outbound_next (sl_phase (c_outbound s ! i)) (h_type h)
    \<and> (\<forall>j. j \<noteq> i \<longrightarrow> c_outbound s1 ! j = c_outbound s ! j) \<and> same_frame s s1
    \<and> s' = (if sl_phase (c_outbound s1 ! i) = Free then call_if cx (c_on_delivery s) (\<lambda>k. OnDelivery k pid) s1 else s1)"
proof -
  have d: "decode_packet_id (be16 pid) = Inr pid" using pid by (simp add: decode_packet_id_iff)
  note fo = find_outboundD [OF i]
  have nf: "sl_phase (c_outbound s ! i) \<noteq> Free" using fo by simp
  note rel = release_slot_spec [OF inv conjunct1 [OF fo]]
  note len = client_invar_slot(2) [OF inv conjunct1 [OF fo]]
  let ?ph = "sl_phase (c_outbound s ! i)"
  consider (done1) "(h_type h, ?ph) \<in> {(Puback, WaitPuback), (Pubcomp, WaitPubcomp)}"
    | (rec) "h_type h = Pubrec" "?ph = WaitPubrec" | (again) "h_type h = Pubrec" "?ph = WaitPubcomp"
    | (ignored) "s' = s" "e = Ok" "outbound_next ?ph (h_type h) = ?ph"
    using ty nf hp by (cases ?ph) (auto simp: handle_packet_def handle_puback_def handle_pubrec_def
        handle_pubcomp_def d i)
  then show ?thesis
  proof cases
    case done1
    then show ?thesis using hp rel
      by (intro exI [of _ "update_slot i release_slot s"])
        (auto simp: handle_packet_def handle_puback_def handle_pubcomp_def d i Let_def)
  next
    case rec
    from pubrec_spec [OF inv pid i rec(2)] obtain s1 where "handle_pubrec cx (be16 pid) s = (Ok, s1)"
      "sl_phase (c_outbound s1 ! i) = WaitPubcomp" "\<forall>j. j \<noteq> i \<longrightarrow> c_outbound s1 ! j = c_outbound s ! j" "same_frame s s1" .
    then show ?thesis using hp rec by (intro exI [of _ s1]) (simp add: handle_packet_def)
  next
    case again
    note r = resend_slot_spec [OF len, where cx = cx]
    obtain t where "c_outbound (resend_slot cx i s) ! i = (c_outbound s ! i)\<lparr>sl_last_sent_ms := t\<rparr>" using r(1) by blast
    moreover have "e = Ok" "s' = resend_slot cx i s" using hp again by (simp_all add: handle_packet_def handle_pubrec_def d i)
    ultimately show ?thesis using r(2,3) again by (intro exI [of _ "resend_slot cx i s"]) simp
  next
    case ignored
    then show ?thesis using nf by (intro exI [of _ s]) simp
  qed
qed

section \<open>Inbound messages\<close>

lemma receive_qos2:
  assumes inv: "client_invar (cx_cfg cx) s" and "c_state s = Connected" and "h_qos h \<le> 2"
    and m: "decode_publish (cx_etl cx) h body = Inr m" and "m_qos m = ExactlyOnce"
    and h: "handle_publish cx h body s = (e, s')"
  defines "ack \<equiv> packet_wire (plain_header Pubrec) (be16 (m_packet_id m))"
  defines "room \<equiv> length (peek (c_tx s)) + length ack \<le> tx_buffer_size (cx_cfg cx)"
  shows "e = Ok \<and>
    (if m_packet_id m \<in> set (c_inbound_ids s)
     then same_frame s s' \<and> peek (c_tx s') = (if room then peek (c_tx s) @ ack else peek (c_tx s))
     else if \<not> length (c_inbound_ids s) < max_inflight_in (cx_cfg cx) \<or> \<not> room
     then same_frame s s' \<and> peek (c_tx s') = peek (c_tx s)
     else \<exists>q. peek q = peek (c_tx s) @ ack
       \<and> s' = dispatch cx m (s\<lparr>c_tx := q, c_inbound_ids := c_inbound_ids s @ [m_packet_id m]\<rparr>))"
proof -
  have pid: "m_packet_id m \<noteq> 0"
    using byte_streams.decode_publish_sound [OF streams m assms(3)] assms(5) by (simp add: publish_ok_def)
  obtain e2 s2 where a2: "send_ack cx Pubrec (m_packet_id m) s = (e2, s2)" by fastforce
  have "queues (cx_cfg cx) ack s (e2, s2)"
    using send_ack_queues [OF client_invar_txD [OF inv] _ pid, of Pubrec] by (simp add: a2 ack_def)
  then obtain q where q: "s2 = s\<lparr>c_tx := q\<rparr>" "e2 = Ok \<longleftrightarrow> room"
    "peek q = (if room then peek (c_tx s) @ ack else peek (c_tx s))"
    by (auto simp: room_def elim!: queuesE)
  have c: "inbound_contains (m_packet_id m) s \<longleftrightarrow> m_packet_id m \<in> set (c_inbound_ids s)"
    by (auto simp: inbound_contains_def list_ex_iff)
  have f: "inbound_table_full (cx_cfg cx) s \<longleftrightarrow> \<not> length (c_inbound_ids s) < max_inflight_in (cx_cfg cx)"
    by (auto simp: inbound_table_full_def)
  have o: "same_frame s (s\<lparr>c_inbound_overflow_count := n\<rparr>)" for n by (simp add: same_frame_def)
  have tx: "c_tx (count_backpressure t) = c_tx t" for t :: "'e client" by (simp add: count_backpressure_def)
  have hp: "(e, s') = (if m_packet_id m \<in> set (c_inbound_ids s) then (Ok, if e2 \<noteq> Ok then count_backpressure s2 else s2)
      else if \<not> length (c_inbound_ids s) < max_inflight_in (cx_cfg cx)
      then (Ok, s\<lparr>c_inbound_overflow_count := c_inbound_overflow_count s + 1\<rparr>)
      else if e2 \<noteq> Ok then (Ok, count_backpressure s2)
      else (Ok, dispatch cx m (s2\<lparr>c_inbound_ids := c_inbound_ids s2 @ [m_packet_id m]\<rparr>)))"
    using h assms(2,5) m by (simp add: handle_publish_def a2 c f split: if_splits)
  show ?thesis
  proof (cases "m_packet_id m \<in> set (c_inbound_ids s)")
    case True
    then show ?thesis using hp q by (cases room) (simp_all add: tx)
  next
    case new: False
    show ?thesis
    proof (cases "length (c_inbound_ids s) < max_inflight_in (cx_cfg cx) \<and> room")
      case True
      then show ?thesis using new hp q by auto
    next
      case False
      then show ?thesis using new hp q o by (cases "length (c_inbound_ids s) < max_inflight_in (cx_cfg cx)") (simp_all add: tx)
    qed
  qed
qed

section \<open>Keep-alive\<close>

lemma keep_alive_spec:
  assumes inv: "client_invar (cx_cfg cx) s" and "pump_keep_alive cx s = (e, s')"
  defines "now \<equiv> fst (now_ms (cx_pl cx) (c_env s))" and "k \<equiv> c_keep_alive_ms s"
  defines "ping \<equiv> k \<noteq> 0 \<and> \<not> c_ping_outstanding s \<and> elapsed_ms now (c_last_sent_ms s) \<ge> k - k div 4
    \<and> length (peek (c_tx s)) + 2 \<le> tx_buffer_size (cx_cfg cx)"
  shows "e = (if k \<noteq> 0 \<and> c_ping_outstanding s \<and> elapsed_ms now (c_ping_sent_ms s) > k then KeepAliveTimeout else Ok)
    \<and> peek (c_tx s') = (if ping then peek (c_tx s) @ [0xC0, 0] else peek (c_tx s))
    \<and> (c_ping_outstanding s' \<longleftrightarrow> c_ping_outstanding s \<or> ping) \<and> (ping \<longrightarrow> c_ping_sent_ms s' = now)"
proof -
  obtain env where t: "now_ms (cx_pl cx) (c_env s) = (now, env)" by (cases "now_ms (cx_pl cx) (c_env s)") (simp add: now_def)
  let ?s1 = "s\<lparr>c_env := env\<rparr>"
  have tc: "read_clock cx s = (now, ?s1)" by (simp add: read_clock_def t)
  have w: "packet_wire (plain_header Pingreq) [] = [0xC0, 0]" by code_simp
  obtain e2 s2 where q: "enqueue_sized (cx_cfg cx) (packet_size 0)
      (\<lambda>out. encode_empty (cx_etl cx) out Pingreq) ?s1 = (e2, s2)" by fastforce
  have "queues (cx_cfg cx) [0xC0, 0] ?s1 (e2, s2)"
    using empty_queues [of ?s1 Pingreq] client_invar_txD [OF inv] by (simp add: q w)
  then obtain q' where q': "s2 = ?s1\<lparr>c_tx := q'\<rparr>"
    "e2 = Ok \<longleftrightarrow> length (peek (c_tx s)) + 2 \<le> tx_buffer_size (cx_cfg cx)"
    "peek q' = (if e2 = Ok then peek (c_tx s) @ [0xC0, 0] else peek (c_tx s))"
    by (auto elim!: queuesE)
  have "elapsed_ms now (c_last_sent_ms s) < k - k div 4 \<longleftrightarrow> \<not> elapsed_ms now (c_last_sent_ms s) \<ge> k - k div 4" by auto
  then show ?thesis using assms(2) q'
    unfolding ping_def pump_keep_alive_def tc k_def [symmetric]
    by (cases "k = 0"; cases "c_ping_outstanding s"; cases "elapsed_ms now (c_last_sent_ms s) < k - k div 4"; cases "e2 = Ok")
      (auto simp: Let_def q k_def split: if_splits)
qed

section \<open>Retransmission\<close>

lemma mark_dup_resends:
  assumes "slot_ok cfg x" and "sl_phase x \<noteq> Free"
  shows "resends x (slot_bytes (mark_dup x))"
proof (cases "sl_phase x = WaitPubcomp")
  case True
  then have "holds_pubrel x" using assms by (simp add: slot_ok_def)
  then show ?thesis using mark_dup_pubrel [of x] by (simp add: resends_def holds_pubrel_def)
next
  case False
  then obtain q m where q: "q \<in> {AtLeastOnce, ExactlyOnce}" "holds_publish q x m"
    using assms by (cases "sl_phase x") (auto simp: slot_ok_def)
  have b: "publish_body (m\<lparr>m_dup := True\<rparr>) = publish_body m" by (simp add: publish_body_def)
  have "slot_bytes (mark_dup x) = packet_wire (publish_header (m\<lparr>m_dup := True\<rparr>)) (publish_body m)"
    using mark_dup_publish [OF q(2,1)] by (simp add: holds_publish_def b)
  then show ?thesis using q unfolding resends_def by blast
qed

lemma retransmit_slot_spec:
  assumes inv: "client_invar cfg s" and i: "i < max_inflight_out cfg" and "sl_phase (c_outbound s ! i) \<noteq> Free"
    and room: "length (peek (c_tx s)) + length (slot_bytes (mark_dup (c_outbound s ! i))) \<le> tx_buffer_size cfg"
    and s1_def: "s1 = retransmit_slot cfg True now i s"
  shows "peek (c_tx s1) = peek (c_tx s) @ slot_bytes (mark_dup (c_outbound s ! i))"
    "j \<noteq> i \<Longrightarrow> c_outbound s1 ! j = c_outbound s ! j" "sl_last_sent_ms (c_outbound s1 ! i) = now"
proof -
  note len = client_invar_slot(2) [OF inv i]
  let ?t = "update_slot i mark_dup s"
  have t: "c_tx ?t = c_tx s" "c_outbound ?t ! i = mark_dup (c_outbound s ! i)" "i < length (c_outbound ?t)"
    using len by (simp_all add: update_slot_def)
  obtain e u where q: "enqueue (slot_bytes (mark_dup (c_outbound s ! i))) ?t = (e, u)" by fastforce
  have "queues cfg (slot_bytes (mark_dup (c_outbound s ! i))) ?t (e, u)"
    using enqueue_queues [of cfg ?t] client_invar_txD [OF inv] q t(1) by metis
  then have u: "e = Ok" "peek (c_tx u) = peek (c_tx s) @ slot_bytes (mark_dup (c_outbound s ! i))"
    using room by (auto elim!: queuesE simp: t(1))
  have o: "c_outbound u = c_outbound ?t" using enqueue_outbound [OF q] .
  have s1: "s1 = update_slot i (\<lambda>slot. slot\<lparr>sl_last_sent_ms := now\<rparr>) u"
    using assms(3) u(1) q by (simp add: s1_def retransmit_slot_def t(2) Let_def)
  show "peek (c_tx s1) = peek (c_tx s) @ slot_bytes (mark_dup (c_outbound s ! i))"
    using u(2) by (simp add: s1 update_slot_def)
  show "j \<noteq> i \<Longrightarrow> c_outbound s1 ! j = c_outbound s ! j" by (simp add: s1 update_slot_nth o)
  show "sl_last_sent_ms (c_outbound s1 ! i) = now" using t(3) by (simp add: s1 update_slot_nth o)
qed

text \<open>The whole loop, when everything to resend fits.\<close>

lemma retransmit_all_spec:
  fixes s :: "'e client"
  assumes "distinct is" and "set is \<subseteq> {..<max_inflight_out (cx_cfg cx)}" and "client_invar (cx_cfg cx) s"
  defines "ws \<equiv> \<lambda>s. concat (map (\<lambda>i. if sl_phase (c_outbound s ! i) = Free then []
      else slot_bytes (mark_dup (c_outbound s ! i))) is)"
  assumes "length (peek (c_tx s)) + length (ws s) \<le> tx_buffer_size (cx_cfg cx)"
  shows "peek (c_tx (fold (retransmit_slot (cx_cfg cx) True now) is s)) = peek (c_tx s) @ ws s"
  using assms(1-3,5) unfolding ws_def
proof (induction "is" arbitrary: s)
  case (Cons i "is")
  let ?cfg = "cx_cfg cx" and ?s1 = "retransmit_slot (cx_cfg cx) True now i s"
  have i: "i < max_inflight_out ?cfg" "i \<notin> set is" using Cons.prems by auto
  have inv1: "client_invar ?cfg ?s1"
    using retransmit_slot_kept [OF i(1), of "c_in_step s" "[]" s] Cons.prems(3) by (simp add: kept_def)
  show ?case
  proof (cases "sl_phase (c_outbound s ! i) = Free")
    case True
    then have "?s1 = s" by (simp add: retransmit_slot_def)
    then show ?thesis using Cons True by simp
  next
    case False
    have room: "length (peek (c_tx s)) + length (slot_bytes (mark_dup (c_outbound s ! i))) \<le> tx_buffer_size ?cfg"
      using Cons.prems(4) False by simp
    note sp = retransmit_slot_spec [OF Cons.prems(3) i(1) False room refl, where now = now]
    have oth: "c_outbound ?s1 ! j = c_outbound s ! j" if "j \<in> set is" for j
      using sp(2) that i(2) by (cases "j = i") auto
    have eq: "map (\<lambda>i. if sl_phase (c_outbound ?s1 ! i) = Free then [] else slot_bytes (mark_dup (c_outbound ?s1 ! i))) is
      = map (\<lambda>i. if sl_phase (c_outbound s ! i) = Free then [] else slot_bytes (mark_dup (c_outbound s ! i))) is"
      by (rule map_cong) (simp_all add: oth)
    have "peek (c_tx (fold (retransmit_slot ?cfg True now) is ?s1)) = peek (c_tx ?s1) @ concat (map (\<lambda>i.
        if sl_phase (c_outbound ?s1 ! i) = Free then [] else slot_bytes (mark_dup (c_outbound ?s1 ! i))) is)"
      using Cons.prems inv1 sp(1) False by (intro Cons.IH) (auto simp: eq)
    then show ?thesis using sp(1) False by (simp add: eq)
  qed
qed simp

lemma slot_bytes_dup_length: "length (slot_bytes (mark_dup x)) \<le> unat (sl_packet_len x)"
  by (simp add: slot_bytes_def mark_dup_def Let_def)

lemma retransmit_slot_flag [simp]: "c_retransmit_now (retransmit_slot cfg forced now i s) = c_retransmit_now s"
  by (auto simp: retransmit_slot_def update_slot_def enqueue_def Let_def split: prod.splits)

lemma retransmit_flag [simp]: "c_retransmit_now (fold (retransmit_slot cfg forced now) is s) = c_retransmit_now s"
  by (induction "is" arbitrary: s) simp_all

lemma concat_occupied:
  "n \<le> length xs \<Longrightarrow> concat (map (\<lambda>i. if sl_phase (xs ! i) = Free then [] else f (xs ! i)) [0..<n])
     = concat (map f (filter (\<lambda>x. sl_phase x \<noteq> Free) (take n xs)))"
proof (induction n)
  case (Suc n)
  then show ?case by (simp add: take_Suc_conv_app_nth)
qed simp

lemma pump_retransmit_spec:
  assumes inv: "client_invar (cx_cfg cx) s" and "c_retransmit_now s"
  defines "occ \<equiv> filter (\<lambda>x. sl_phase x \<noteq> Free) (take (max_inflight_out (cx_cfg cx)) (c_outbound s))"
  assumes room: "length (peek (c_tx s)) + (\<Sum>x \<leftarrow> occ. unat (sl_packet_len x)) \<le> tx_buffer_size (cx_cfg cx)"
  shows "peek (c_tx (pump_retransmit cx s)) = peek (c_tx s) @ concat (map (\<lambda>x. slot_bytes (mark_dup x)) occ)
    \<and> \<not> c_retransmit_now (pump_retransmit cx s)"
proof -
  let ?n = "max_inflight_out (cx_cfg cx)"
  obtain now s1 where t: "read_clock cx (s\<lparr>c_retransmit_now := False\<rparr>) = (now, s1)" by fastforce
  then have s1: "c_outbound s1 = c_outbound s" "c_tx s1 = c_tx s" "client_invar (cx_cfg cx) s1" "\<not> c_retransmit_now s1"
    using inv by (auto simp: read_clock_def split: prod.splits)
  have n: "?n \<le> length (c_outbound s)" using inv by (simp add: client_invar_def slots_ok_def kOutSlots_def)
  have w: "concat (map (\<lambda>i. if sl_phase (c_outbound s1 ! i) = Free then [] else slot_bytes (mark_dup (c_outbound s1 ! i))) [0..<?n])
      = concat (map (\<lambda>x. slot_bytes (mark_dup x)) occ)"
    unfolding s1(1) occ_def by (rule concat_occupied [OF n])
  have "length (concat (map (\<lambda>x. slot_bytes (mark_dup x)) occ)) \<le> (\<Sum>x \<leftarrow> occ. unat (sl_packet_len x))"
    by (simp add: length_concat o_def sum_list_mono slot_bytes_dup_length)
  then have "peek (c_tx (fold (retransmit_slot (cx_cfg cx) True now) [0..<?n] s1)) = peek (c_tx s1) @
      concat (map (\<lambda>x. slot_bytes (mark_dup x)) occ)"
    using room s1(2) unfolding w [symmetric] by (intro retransmit_all_spec [OF _ _ s1(3)]) auto
  then show ?thesis using assms(2) t s1 by (simp add: pump_retransmit_def Let_def)
qed

lemma occupied_resends:
  assumes inv: "client_invar (cx_cfg cx) s"
  shows "list_all2 resends (filter (\<lambda>x. sl_phase x \<noteq> Free) (take n (c_outbound s)))
    (map (\<lambda>x. slot_bytes (mark_dup x)) (filter (\<lambda>x. sl_phase x \<noteq> Free) (take n (c_outbound s))))"
proof -
  have "resends x (slot_bytes (mark_dup x))" if "x \<in> set (c_outbound s)" "sl_phase x \<noteq> Free" for x
    using mark_dup_resends [of "cx_cfg cx" x] that inv by (auto simp: client_invar_def slots_ok_def list_all_iff)
  then show ?thesis by (auto simp: list_all2_map2 list_all2_same dest: in_set_takeD)
qed

end

end
