(* ===== verification/Client_Protocol.thy ===== *)
theory Client_Protocol
  imports Client_Exchange
begin

text \<open>
  The properties of the single exchanges of the protocol, stated over the operations of the client:
  publishing, the acknowledgement handshakes of both directions, retransmission and keep-alive.
\<close>

section \<open>Clients of the test bench\<close>

definition bench_pub :: "QoS \<Rightarrow> Error \<times> u16 option \<times> fake_env client" where
  "bench_pub qos = publish (bench bench_config) (lit ''a'') (lit ''x'') qos False bench_up"

definition bench_dup :: "fake_env client" where
  "bench_dup = bench_up\<lparr>c_inbound_ids := [7], c_on_message := Some 0\<rparr>"

definition bench_dup_header :: FixedHeader where
  "bench_dup_header = default_header\<lparr>h_type := Publish, h_qos := 2\<rparr>"

definition bench_dup_message :: Message where
  "bench_dup_message = \<lparr>m_topic = lit ''a'', m_payload = lit ''x'', m_qos = 2, m_retain = False, m_dup = False, m_packet_id = 7\<rparr>"

lemma bench_pub_result: "map (\<lambda>q. (fst (bench_pub q), fst (snd (bench_pub q)))) [1, 2] = [(Ok, Some 1), (Ok, Some 1)]"
  by code_simp

lemma bench_pub_stored:
  "publish (bench bench_config) (lit ''a'') (lit ''x'') 1 False bench_up = (Ok, Some 1, snd (snd (bench_pub 1)))"
  "publish (bench bench_config) (lit ''a'') (lit ''x'') 2 False bench_up = (Ok, Some 1, snd (snd (bench_pub 2)))"
  using bench_pub_result by (auto simp: bench_pub_def prod_eq_iff)

lemma bench_pub_invar: "client_invar bench_config (snd (snd (bench_pub 1)))" "client_invar bench_config (snd (snd (bench_pub 2)))"
  using bench_small.publish_invar bench_pub_stored bench_up_invar by (auto simp: lit_def)

section \<open>Properties\<close>

text \<open>C6: An accepted publish at quality of service 1 or 2 is stored and queued as one. The packet
  identifier it returns is non-zero and in use by nothing else; the bytes appended to the transmit
  queue are the encoded PUBLISH, and the same bytes are kept in a slot that was free, under that
  identifier and in the phase that waits for the right acknowledgement. No other slot and no other
  table changes.\<close>

theorem publish_stored:
  assumes "client_env cx" and "client_invar (cx_cfg cx) s" and "length payload < 2 ^ 63"
    and "qos \<noteq> AtMostOnce" and "publish cx topic payload qos retain s = (Ok, res, s')"
  shows "\<exists>i pid m. m = \<lparr>m_topic = topic, m_payload = payload, m_qos = qos, m_retain = retain, m_dup = False,
      m_packet_id = pid\<rparr>
    \<and> res = Some pid \<and> pid \<noteq> 0 \<and> \<not> packet_id_in_use (cx_cfg cx) s pid
    \<and> sl_phase (c_outbound s ! i) = Free
    \<and> peek (c_tx s') = peek (c_tx s) @ packet_wire (publish_header m) (publish_body m)
    \<and> slot_bytes (c_outbound s' ! i) = packet_wire (publish_header m) (publish_body m)
    \<and> sl_packet_id (c_outbound s' ! i) = pid
    \<and> sl_phase (c_outbound s' ! i) = (if qos = AtLeastOnce then WaitPuback else WaitPubrec)
    \<and> (\<forall>j. j \<noteq> i \<longrightarrow> c_outbound s' ! j = c_outbound s ! j) \<and> same_frame s s'"
  using assms(1,5,4,2,3)
proof (rule client_env.publish_accepted, goal_cases)
  case (1 i pid now q n env out m)
  let ?w = "packet_wire (publish_header m) (publish_body m)"
  note fs = client_env.free_slotD [OF assms(1) 1(5)]
  note len = client_invar_slot(2) [OF assms(2) fs(1)]
  have "length ?w \<le> 65535"
    using 1(9,10) client_env.config [OF assms(1)]
    by (simp add: wf_config_def kPersistSize_def at_least_one_def split: if_splits)
  then have w: "unat (word_of_nat (length ?w) :: u16) = length ?w" by (simp add: unat_of_nat)
  show ?case
    by (intro exI [of _ i] exI [of _ pid] exI [of _ m])
      (use 1 w len fs(2) publish_frame [OF assms(5)] in \<open>simp add: update_slot_def slot_bytes_def\<close>)
qed

theorem publish_stored_witness:
  "\<exists>i pid m. m = \<lparr>m_topic = lit ''a'', m_payload = lit ''x'', m_qos = 2, m_retain = False, m_dup = False,
      m_packet_id = pid\<rparr>
    \<and> Some 1 = Some pid \<and> pid \<noteq> 0 \<and> \<not> packet_id_in_use bench_config bench_up pid
    \<and> sl_phase (c_outbound bench_up ! i) = Free
    \<and> peek (c_tx (snd (snd (bench_pub 2)))) = peek (c_tx bench_up) @ packet_wire (publish_header m) (publish_body m)
    \<and> slot_bytes (c_outbound (snd (snd (bench_pub 2))) ! i) = packet_wire (publish_header m) (publish_body m)"
  using publish_stored [OF bench_small.client_env_axioms, of bench_up "lit ''x''" 2 "lit ''a''" False "Some 1" "snd (snd (bench_pub 2))"]
    bench_up_invar bench_pub_stored(2) by (simp add: lit_def) blast

text \<open>C7: A refused publish leaves no trace that matters. Whatever the reason - not connected, a bad
  topic, no free slot, a payload that does not fit a slot, a full transmit queue - no packet
  identifier is handed out, nothing is queued, the tables keep their entries and every occupied
  slot keeps its packet; at most the buffer of a free slot and the identifier counter differ.\<close>

theorem publish_refused_clean:
  assumes "client_env cx" and "client_invar (cx_cfg cx) s" and "length payload < 2 ^ 63"
    and "publish cx topic payload qos retain s = (e, res, s')" and "e \<noteq> Ok"
  shows "res = None \<and> peek (c_tx s') = peek (c_tx s) \<and> same_frame s s'
    \<and> map sl_phase (c_outbound s') = map sl_phase (c_outbound s)
    \<and> (\<forall>i. sl_phase (c_outbound s ! i) \<noteq> Free \<longrightarrow> c_outbound s' ! i = c_outbound s ! i)"
proof -
  from client_env.publish_refused [OF assms(1,4,5,2,3)] obtain i out q n where u: "res = None" "peek q = peek (c_tx s)"
    "s' = update_slot i (\<lambda>slot. slot\<lparr>sl_packet := out\<rparr>) (s\<lparr>c_tx := q, c_next_packet_id := n\<rparr>)"
    "out = sl_packet (c_outbound s ! i) \<or> sl_phase (c_outbound s ! i) = Free" by (auto simp: scribbled_def)
  have "c_outbound s' ! j = c_outbound s ! j" if "sl_phase (c_outbound s ! j) \<noteq> Free" for j
    using u(4) that by (cases "j = i"; cases "j < length (c_outbound s)") (auto simp: u(3) update_slot_def list_update_beyond)
  moreover have "map sl_phase (c_outbound s') = map sl_phase (c_outbound s)"
    by (simp add: u(3) update_slot_def map_update_same)
  ultimately show ?thesis using u(1,2) publish_frame [OF assms(4)] by (simp add: u(3) update_slot_def)
qed

theorem publish_refused_clean_witness:
  "let r = publish (bench bench_config) (lit ''a'') (replicate 20 0) 1 False bench_up in
     fst r = PayloadTooLarge \<and> fst (snd r) = None \<and> peek (c_tx (snd (snd r))) = peek (c_tx bench_up)"
proof -
  obtain e res s' where r: "publish (bench bench_config) (lit ''a'') (replicate 20 0) 1 False bench_up = (e, res, s')"
    by (metis prod_cases3)
  have "fst (publish (bench bench_config) (lit ''a'') (replicate 20 0) 1 False bench_up) = PayloadTooLarge" by code_simp
  then have "e = PayloadTooLarge" by (simp add: r)
  then show ?thesis
    using publish_refused_clean [OF bench_small.client_env_axioms _ _ r] bench_up_invar
    by (simp add: r Let_def)
qed

text \<open>C4: Exactly-once reception. A QoS 2 PUBLISH whose identifier is already recorded is
  acknowledged again but never delivered again. A new one is delivered only after its PUBREC is in
  the transmit queue and its identifier is recorded; when the table of identifiers is full, or the
  queue has no room for the PUBREC, it is neither acknowledged nor recorded nor delivered, so that
  the broker's retransmission can still be taken.\<close>

theorem exactly_once_receive:
  assumes "client_world cx" and "client_invar (cx_cfg cx) s" and "c_state s = Connected" and "h_qos h \<le> 2"
    and "decode_publish (cx_etl cx) h body = Inr m" and "m_qos m = ExactlyOnce"
    and "handle_publish cx h body s = (e, s')"
    and "ack = packet_wire (plain_header Pubrec) (be16 (m_packet_id m))"
    and "room \<longleftrightarrow> length (peek (c_tx s)) + length ack \<le> tx_buffer_size (cx_cfg cx)"
  shows "e = Ok \<and>
    (if m_packet_id m \<in> set (c_inbound_ids s)
     then same_frame s s' \<and> peek (c_tx s') = (if room then peek (c_tx s) @ ack else peek (c_tx s))
     else if \<not> length (c_inbound_ids s) < max_inflight_in (cx_cfg cx) \<or> \<not> room
     then same_frame s s' \<and> peek (c_tx s') = peek (c_tx s)
     else \<exists>q. peek q = peek (c_tx s) @ ack
       \<and> s' = dispatch cx m (s\<lparr>c_tx := q, c_inbound_ids := c_inbound_ids s @ [m_packet_id m]\<rparr>))"
  unfolding assms(8,9) by (rule client_world.receive_qos2 [OF assms(1-7)])

theorem exactly_once_receive_witness:
  "c_log (snd (handle_publish (bench bench_config) bench_dup_header (publish_body bench_dup_message) bench_dup)) = []
   \<and> peek (c_tx (snd (handle_publish (bench bench_config) bench_dup_header (publish_body bench_dup_message) bench_dup)))
       = peek (c_tx bench_dup) @ packet_wire (plain_header Pubrec) (be16 7)"
proof -
  let ?w = "packet_wire (plain_header Pubrec) (be16 7)"
  obtain e s' where h: "handle_publish (bench bench_config) bench_dup_header (publish_body bench_dup_message) bench_dup = (e, s')"
    by fastforce
  have inv: "client_invar bench_config bench_dup"
    using bench_up_invar
    by (simp add: bench_dup_def client_invar_def inbound_ok_def bench_config_def DefaultConfig_def bench_up_def new_client_def)
  have d: "decode_publish list_streams bench_dup_header (publish_body bench_dup_message) = Inr bench_dup_message" by code_simp
  have "(c_state bench_dup, c_inbound_ids bench_dup, c_log bench_dup, length (peek (c_tx bench_dup)) + length ?w) = (Connected, [7], [], 4)"
    by code_simp
  then show ?thesis
    using exactly_once_receive [OF bench_small.client_world_axioms, of bench_dup bench_dup_header
        "publish_body bench_dup_message" bench_dup_message e s' ?w True] inv d h
    by (simp add: bench_dup_header_def bench_dup_message_def same_frame_def bench_config_def DefaultConfig_def)
qed



text \<open>C8: After a reconnect every message still in flight is sent again, in slot order: each slot
  that holds a PUBLISH queues that PUBLISH with the DUP flag set and nothing else changed, each
  slot that holds a PUBREL queues it unaltered, and the request to do so is withdrawn. The queue
  is assumed to have room for them.\<close>

theorem reconnect_retransmits:
  assumes "client_world cx" and "client_invar (cx_cfg cx) s" and "c_retransmit_now s"
    and "occ = filter (\<lambda>x. sl_phase x \<noteq> Free) (take (max_inflight_out (cx_cfg cx)) (c_outbound s))"
    and "length (peek (c_tx s)) + (\<Sum>x \<leftarrow> occ. unat (sl_packet_len x)) \<le> tx_buffer_size (cx_cfg cx)"
  shows "\<exists>ws. list_all2 resends occ ws \<and> peek (c_tx (pump_retransmit cx s)) = peek (c_tx s) @ concat ws
    \<and> \<not> c_retransmit_now (pump_retransmit cx s)"
  using client_world.pump_retransmit_spec [OF assms(1,2,3)] assms(5)
    client_world.occupied_resends [OF assms(1,2), of "max_inflight_out (cx_cfg cx)"]
  unfolding assms(4) by blast

theorem reconnect_retransmits_witness:
  "\<exists>ws. list_all2 resends (filter (\<lambda>x. sl_phase x \<noteq> Free) (take 2 (c_outbound (snd (snd (bench_pub 1)))))) ws
     \<and> peek (c_tx (pump_retransmit (bench bench_config) ((snd (snd (bench_pub 1)))\<lparr>c_retransmit_now := True\<rparr>)))
       = peek (c_tx (snd (snd (bench_pub 1)))) @ concat ws"
proof -
  let ?s = "(snd (snd (bench_pub 1)))\<lparr>c_retransmit_now := True\<rparr>"
  have "length (peek (c_tx (snd (snd (bench_pub 1))))) + (\<Sum>x \<leftarrow> filter (\<lambda>x. sl_phase x \<noteq> Free)
      (take 2 (c_outbound (snd (snd (bench_pub 1))))). unat (sl_packet_len x)) = 16" by code_simp
  then show ?thesis
    using reconnect_retransmits [OF bench_small.client_world_axioms, of ?s] bench_pub_invar(1)
    by (auto simp: bench_config_def DefaultConfig_def)
qed

text \<open>C9: Keep-alive. The timeout is reported exactly when a ping has been outstanding for more
  than the negotiated interval, so a session is never given up without a ping having been queued.
  A PINGREQ is queued exactly when none is outstanding, the line has been idle for at least three
  quarters of the interval and the queue has room, and the time of the ping is taken then. With
  an interval of zero neither happens.\<close>

theorem keep_alive_exact:
  assumes "client_world cx" and "client_invar (cx_cfg cx) s" and "pump_keep_alive cx s = (e, s')"
    and "now = fst (now_ms (cx_pl cx) (c_env s))" and "k = c_keep_alive_ms s"
    and "ping \<longleftrightarrow> k \<noteq> 0 \<and> \<not> c_ping_outstanding s \<and> elapsed_ms now (c_last_sent_ms s) \<ge> k - k div 4
      \<and> length (peek (c_tx s)) + 2 \<le> tx_buffer_size (cx_cfg cx)"
  shows "e = (if k \<noteq> 0 \<and> c_ping_outstanding s \<and> elapsed_ms now (c_ping_sent_ms s) > k then KeepAliveTimeout else Ok)
    \<and> peek (c_tx s') = (if ping then peek (c_tx s) @ [0xC0, 0] else peek (c_tx s))
    \<and> (c_ping_outstanding s' \<longleftrightarrow> c_ping_outstanding s \<or> ping) \<and> (ping \<longrightarrow> c_ping_sent_ms s' = now)"
  unfolding assms(4-6) by (rule client_world.keep_alive_spec [OF assms(1-3)])

theorem keep_alive_exact_witness:
  "let s = bench_up\<lparr>c_keep_alive_ms := 1000, c_env := advance 800 (c_env bench_up)\<rparr>;
       r = pump_keep_alive (bench bench_config) s
   in fst r = Ok \<and> peek (c_tx (snd r)) = peek (c_tx s) @ [0xC0, 0] \<and> c_ping_outstanding (snd r)
     \<and> c_ping_sent_ms (snd r) = 800"
proof -
  let ?s = "bench_up\<lparr>c_keep_alive_ms := 1000, c_env := advance 800 (c_env bench_up)\<rparr>"
  obtain e s' where p: "pump_keep_alive (bench bench_config) ?s = (e, s')" by fastforce
  have "client_invar bench_config ?s" using bench_up_invar by simp
  moreover have "fst (now_ms fake_platform (c_env ?s)) = 800" "length (peek (c_tx ?s)) = 0"
    "\<not> c_ping_outstanding ?s" "c_last_sent_ms ?s = 0"
    by (simp_all add: bench_up_def fake_platform_def advance_def fake_env0_def new_client_def)
  ultimately show ?thesis
    using keep_alive_exact [OF bench_small.client_world_axioms, of ?s e s' 800 1000 True] p
    by (simp add: Let_def elapsed_ms_def bench_config_def DefaultConfig_def)
qed

end
