(* ===== verification/Client_Delivery.thy ===== *)
theory Client_Delivery
  imports Client_Exchange
begin

text \<open>
  Framing, dispatch and sessions: how the receive buffer is cut into packets, whom a message is
  delivered to, what a SUBACK does to the subscription table, what a new connection starts from,
  and how a session ends.
\<close>

section \<open>Framing\<close>

context client_world
begin

lemma drain_rx_packet:
  assumes inv: "client_invar (cx_cfg cx) s" and h: "header_ok h" and "length body \<le> max_body"
    and buf: "take (c_rx_len s) (c_rx s) = packet_wire h body @ rest"
    and "length (packet_wire h body) \<le> rx_buffer_size (cx_cfg cx)"
    and hp: "handle_packet cx (h\<lparr>h_remaining_length := word_of_nat (length body)\<rparr>) body s = (e, s1)"
    and "c_rx_len s1 = c_rx_len s"
  defines "s2 \<equiv> after_packet (length (packet_wire h body)) s1"
  shows "drain_rx cx s = (if e \<noteq> Ok then Some (e, s2) else drain_rx cx s2)"
    "take (c_rx_len s2) (c_rx s2) = rest"
proof -
  let ?w = "packet_wire h body"
  have len: "c_rx_len s \<le> length (c_rx s)" using inv by (simp add: client_invar_def rx_ok_def)
  have total: "c_rx_len s = length ?w + length rest" using arg_cong [OF buf, of length] len by simp
  have wl: "length ?w = 1 + vbi_size (word_of_nat (length body)) + length body" using packet_wire_length [OF assms(3)] .
  have rem: "unat (word_of_nat (length body) :: u32) = length body" using assms(3) by (simp add: unat_of_nat)
  have rx: "c_rx s = ?w @ rest @ drop (c_rx_len s) (c_rx s)" using append_take_drop_id [of "c_rx_len s" "c_rx s"] buf by simp
  have hd: "drop (1 + vbi_size (word_of_nat (length body))) ?w = body"
    using assms(3) by (simp add: packet_wire_def length_vbi_encode_loop word_le_nat_alt unat_of_nat)
  have body: "take (length body) (drop (1 + vbi_size (word_of_nat (length body))) (c_rx s)) = body"
    by (subst rx) (simp add: hd [simplified] wl)
  have rx1: "c_rx s1 = c_rx s" using rx_bytes.handle_packet_core [OF hp] by simp
  have z: "c_rx_len s \<noteq> 0" "\<not> c_rx_len s < length ?w" using total wl by simp_all
  show "drain_rx cx s = (if e \<noteq> Ok then Some (e, s2) else drain_rx cx s2)"
    using assms(5,7) z
    by (subst drain_rx_unfold) (simp add: buf peek_wire [OF h assms(3)] rem body [simplified] hp s2_def)
  have "drop (length ?w) (c_rx s) = rest @ drop (c_rx_len s) (c_rx s)" by (subst (1) rx) simp
  then show "take (c_rx_len s2) (c_rx s2) = rest"
    using assms(7) total by (simp add: s2_def after_packet_def rx1 write_at_def)
qed

text \<open>A packet that is not complete yet stays in the buffer.\<close>

lemma drain_rx_partial:
  assumes h: "header_ok h" and "length body \<le> max_body"
    and "take (c_rx_len s) (c_rx s) = take n (packet_wire h body)" and n: "n < length (packet_wire h body)"
    and "length (packet_wire h body) \<le> rx_buffer_size (cx_cfg cx)" and "c_rx_len s \<le> length (c_rx s)"
  shows "drain_rx cx s = Some (Ok, s)"
proof -
  have l: "c_rx_len s = n" using arg_cong [OF assms(3), of length] n assms(6) by simp
  have w: "peek_header (take n (packet_wire h body) @ drop n (packet_wire h body)) =
      Inr \<lparr>p_header = h\<lparr>h_remaining_length := word_of_nat (length body)\<rparr>,
        p_header_bytes = 1 + vbi_size (word_of_nat (length body)), p_total_bytes = length (packet_wire h body)\<rparr>"
    using peek_wire [OF h assms(2), of "[]"] by simp
  show ?thesis
  proof (cases "peek_header (take n (packet_wire h body)) = Inl Incomplete")
    case True
    then show ?thesis using l assms(3) by (subst drain_rx_unfold) simp
  next
    case False
    then show ?thesis using peek_append [OF False, of "drop n (packet_wire h body)"] w l assms n
      by (subst drain_rx_unfold) simp
  qed
qed

end

section \<open>Dispatch\<close>

text \<open>The handlers a message is meant for: those of the subscriptions whose filter matches, in table
  order, or the fallback when there are none.\<close>

definition wants :: "Message \<Rightarrow> Subscription \<Rightarrow> nat option" where
  "wants m u = (if topic_matches (su_filter u) (m_topic m) then su_handler u else None)"

definition recipients :: "Message \<Rightarrow> 'e client \<Rightarrow> nat list" where
  "recipients m s =
     (let ks = List.map_filter (wants m) (c_subscriptions s)
      in if ks = [] then (case c_on_message s of None \<Rightarrow> [] | Some k \<Rightarrow> [k]) else ks)"

text \<open>Handlers that leave the session, the tables and the bindings alone; they may publish.\<close>

definition calm :: "('w, 'r, 'e) client_ctx \<Rightarrow> bool" where
  "calm cx \<longleftrightarrow> (\<forall>ev t. same_frame t (cx_app cx ev t) \<and> c_on_message (cx_app cx ev t) = c_on_message t)"

lemma map_filter_Cons: "List.map_filter f (x # xs) = (case f x of None \<Rightarrow> [] | Some y \<Rightarrow> [y]) @ List.map_filter f xs"
  by (simp add: List.map_filter_def split: option.split)

lemma dispatch_loop_calm:
  assumes "calm cx" and "c_state s = Connected"
  shows "c_log (dispatch_loop cx m is handled s) = c_log s @ map (\<lambda>k. OnMessage k m)
    (let ks = List.map_filter (\<lambda>i. wants m (c_subscriptions s ! i)) is
     in ks @ (if handled \<or> ks \<noteq> [] then [] else case c_on_message s of None \<Rightarrow> [] | Some k \<Rightarrow> [k]))"
  using assms(2)
proof (induction "is" arbitrary: handled s)
  case Nil
  have "c_log (run_handler cx ev s) = c_log s @ [ev]" for ev
    using assms(1) by (auto simp: run_handler_def calm_def same_frame_def)
  then show ?case by (auto simp: call_if_def List.map_filter_def split: option.split)
next
  case (Cons i "is")
  let ?u = "c_subscriptions s ! i"
  have calm: "c_log (run_handler cx ev s) = c_log s @ [ev]" "c_state (run_handler cx ev s) = c_state s"
    "c_subscriptions (run_handler cx ev s) = c_subscriptions s" "c_on_message (run_handler cx ev s) = c_on_message s" for ev
    using assms(1) by (auto simp: run_handler_def calm_def same_frame_def)
  show ?case
  proof (cases "wants m ?u")
    case None
    then have "dispatch_loop cx m (i # is) handled s = dispatch_loop cx m is handled s"
      by (auto simp: wants_def split: option.splits if_splits)
    then show ?thesis using Cons None by (simp add: map_filter_Cons)
  next
    case (Some k)
    then have "dispatch_loop cx m (i # is) handled s = dispatch_loop cx m is True (run_handler cx (OnMessage k m) s)"
      using Cons.prems calm by (auto simp: wants_def Let_def split: option.splits if_splits)
    then show ?thesis using Cons.IH [of "run_handler cx (OnMessage k m) s" True] Cons.prems calm Some
      by (simp add: map_filter_Cons Let_def)
  qed
qed

lemma map_filter_nth: "List.map_filter (\<lambda>i. f (xs ! i)) [0..<length xs] = List.map_filter f xs"
proof -
  have "List.map_filter (\<lambda>i. f (xs ! i)) [0..<length xs] = List.map_filter f (map (\<lambda>i. xs ! i) [0..<length xs])"
    by (simp add: List.map_filter_def filter_map o_def)
  then show ?thesis by (simp add: map_nth)
qed

lemma dispatch_calm:
  assumes "calm cx" and "c_state s = Connected"
  shows "c_log (dispatch cx m s) = c_log s @ map (\<lambda>k. OnMessage k m) (recipients m s)"
  using dispatch_loop_calm [OF assms, of m "[0..<length (c_subscriptions s)]" False]
  by (simp add: dispatch_def recipients_def map_filter_nth Let_def)

section \<open>SUBACK\<close>

text \<open>What the return code of a subscription does to its entry.\<close>

definition granted :: "(u16 \<times> u8) list \<Rightarrow> Subscription \<Rightarrow> Subscription list" where
  "granted codes u = (case map_of codes (su_sub_id u) of
     None \<Rightarrow> [u]
   | Some rc \<Rightarrow> if rc = kSubackFailure then [] else [u\<lparr>su_granted_qos := rc, su_needs_resub := False\<rparr>])"

lemma update_by_id:
  assumes "distinct (map f us)" and "j < length us" and "f (us ! j) = k"
  shows "us[j := g (us ! j)] = map (\<lambda>u. if f u = k then g u else u) us"
proof (rule nth_equalityI)
  fix i assume "i < length (us[j := g (us ! j)])"
  then have i: "i < length us" by simp
  have "f (us ! i) = k \<longleftrightarrow> i = j" using assms i by (auto simp: distinct_conv_nth)
  then show "us[j := g (us ! j)] ! i = map (\<lambda>u. if f u = k then g u else u) us ! i" using i by (simp add: nth_list_update)
qed simp

lemma one_code:
  assumes "distinct (map su_sub_id (c_subscriptions s))"
  shows "c_subscriptions (apply_return_codes [(rc, sid)] s) = concat (map (granted [(sid, rc)]) (c_subscriptions s))"
proof -
  let ?us = "c_subscriptions s"
  show ?thesis
  proof (cases "rc = kSubackFailure")
    case True
    have "concat (map (granted [(sid, rc)]) us) = filter (\<lambda>u. su_sub_id u \<noteq> sid) us" for us
      by (induction us) (auto simp: granted_def True)
    then show ?thesis using erase_first_eq [OF assms, of sid] by (simp add: True erase_subscription_def)
  next
    case False
    let ?g = "\<lambda>u. u\<lparr>su_granted_qos := rc, su_needs_resub := False\<rparr>"
    have g: "concat (map (granted [(sid, rc)]) us) = map (\<lambda>u. if su_sub_id u = sid then ?g u else u) us" for us
      using False by (induction us) (auto simp: granted_def)
    show ?thesis
    proof (cases "find_by_sub_id sid s")
      case None
      then have "map (\<lambda>u. if su_sub_id u = sid then ?g u else u) ?us = ?us"
        by (intro map_idI) (auto simp: find_by_sub_id_None)
      then show ?thesis using False None g by simp
    next
      case (Some j)
      then show ?thesis using find_by_sub_id_Some [OF Some] False g update_by_id [OF assms, of j sid ?g]
        by (simp add: update_sub_def)
    qed
  qed
qed

lemma granted_ids:
  assumes "distinct (map su_sub_id us)"
  shows "distinct (map su_sub_id (concat (map (granted codes) us)))"
proof -
  have sub: "set (map su_sub_id (granted codes u)) \<subseteq> {su_sub_id u}" for u
    by (auto simp: granted_def split: option.splits if_splits)
  have "distinct (map su_sub_id (granted codes u))" for u
    by (auto simp: granted_def split: option.splits)
  with assms show ?thesis
  proof (induction us)
    case (Cons u us)
    have "set (map su_sub_id (concat (map (granted codes) us))) \<subseteq> set (map su_sub_id us)"
      using sub by (auto simp: image_iff)
    moreover have "su_sub_id u \<notin> set (map su_sub_id us)" using Cons.prems by simp
    ultimately have "set (map su_sub_id (granted codes u)) \<inter> set (map su_sub_id (concat (map (granted codes) us))) = {}"
      using sub [of u] by blast
    with Cons show ?case unfolding list.map concat.simps map_append distinct_append by simp
  qed simp
qed

lemma granted_Cons:
  assumes "sid \<notin> fst ` set codes"
  shows "concat (map (granted codes) (granted [(sid, rc)] u)) = granted ((sid, rc) # codes) u"
proof -
  have "map_of codes sid = None" using assms by (simp add: map_of_eq_None_iff)
  then show ?thesis by (auto simp: granted_def split: option.splits)
qed

lemma concat_map_concat: "concat (map f (concat (map g xs))) = concat (map (\<lambda>x. concat (map f (g x))) xs)"
  by (induction xs) auto

lemma apply_return_codes_spec:
  assumes "distinct (map su_sub_id (c_subscriptions s))" and "distinct (map snd rcs)"
  shows "c_subscriptions (apply_return_codes rcs s) =
    concat (map (granted (map (\<lambda>(rc, sid). (sid, rc)) rcs)) (c_subscriptions s))"
  using assms
proof (induction rcs arbitrary: s)
  case Nil
  have "concat (map (granted []) us) = us" for us by (induction us) (auto simp: granted_def)
  then show ?case by simp
next
  case (Cons x rcs)
  obtain rc sid where x: "x = (rc, sid)" by fastforce
  let ?s1 = "apply_return_codes [(rc, sid)] s"
  have s1: "c_subscriptions ?s1 = concat (map (granted [(sid, rc)]) (c_subscriptions s))"
    by (rule one_code [OF Cons.prems(1)])
  have "sid \<notin> fst ` set (map (\<lambda>(rc, sid). (sid, rc)) rcs)" using Cons.prems(2) x by force
  note g = granted_Cons [OF this]
  have "distinct (map su_sub_id (c_subscriptions ?s1))" unfolding s1 by (rule granted_ids [OF Cons.prems(1)])
  then have "c_subscriptions (apply_return_codes rcs ?s1) =
      concat (map (granted (map (\<lambda>(rc, sid). (sid, rc)) rcs)) (c_subscriptions ?s1))"
    using Cons.IH [of ?s1] Cons.prems(2) by simp
  then show ?case unfolding s1 concat_map_concat g by (simp add: x)
qed

lemma zip_swap: "map (\<lambda>(x, y). (y, x)) (zip xs ys) = zip ys xs"
  by (simp add: zip_commute [of ys xs])

lemma apply_return_codes_keeps [simp]: "c_pending (apply_return_codes rcs s) = c_pending s"
  "c_on_suback (apply_return_codes rcs s) = c_on_suback s"
  by (induction rcs s rule: apply_return_codes.induct)
    (auto simp: erase_subscription_def update_sub_def split: option.splits)

lemma handle_suback_spec:
  assumes "decode_suback body = Inr v" and "find_pending (s_packet_id v) Suback s = Some i"
    and "subs_ok cfg (c_subscriptions s)"
    and "length (s_return_codes v) = length (pa_subs (c_pending s ! i))"
    and "distinct (pa_subs (c_pending s ! i))"
  shows "\<exists>s1. handle_suback cx body s
      = (Ok, call_if cx (c_on_suback s) (\<lambda>k. OnSuback k (s_packet_id v) (s_return_codes v)) s1)
    \<and> c_subscriptions s1 = concat (map (granted (zip (pa_subs (c_pending s ! i)) (s_return_codes v))) (c_subscriptions s))
    \<and> c_pending s1 = take i (c_pending s) @ drop (Suc i) (c_pending s)"
  using assms apply_return_codes_spec [of s "zip (s_return_codes v) (pa_subs (c_pending s ! i))"]
  by (intro exI [of _ "remove_pending i (apply_return_codes (zip (s_return_codes v) (pa_subs (c_pending s ! i))) s)"])
    (simp add: handle_suback_def Let_def remove_pending_def zip_swap subs_ok_def)

section \<open>Sessions\<close>

lemma keep_alive_ms: "unat (ucast (k :: u16) * 1000 :: u32) = 1000 * unat k"
proof -
  have k: "unat k < 65536" using unsigned_less [of k, where ?'a = nat] by simp
  moreover have "unat (ucast k :: u32) = unat k" using k by (simp add: unsigned_ucast_eq take_bit_nat_eq_self)
  ultimately show ?thesis by (simp add: unat_word_ariths)
qed

lemma mark_resub_simps [simp]:
  "c_outbound (mark_resub s) = c_outbound s" "c_inbound_ids (mark_resub s) = c_inbound_ids s"
  "c_tx (mark_resub s) = c_tx s" "c_rx_len (mark_resub s) = c_rx_len s" "c_state (mark_resub s) = c_state s" "c_pending (mark_resub s) = c_pending s"
  "c_subscriptions (mark_resub s) = map (\<lambda>u. u\<lparr>su_needs_resub := True\<rparr>) (c_subscriptions s)"
  by (simp_all add: mark_resub_def)

lemma release_release [simp]: "release_slot (release_slot x) = release_slot x"
  by (simp add: release_slot_def)

text \<open>What \<open>connect\<close> leaves of the session before it queues the packet.\<close>

definition session_start :: "ConnectOptions \<Rightarrow> 'e client \<Rightarrow> 'e client" where
  "session_start opts s = (let s0 = s\<lparr>c_tx := tx_clear (c_tx s), c_rx_len := 0\<rparr>
     in if o_clean_session opts then reset_session_state s0 else s0)"

context client_env
begin

lemma connect_spec:
  assumes "connect cx opts s = (Ok, s')" and "client_invar (cx_cfg cx) s"
  shows "c_state s = Idle \<and> (\<exists>q env now. tx_ok (cx_cfg cx) q
    \<and> peek q = packet_wire (plain_header Connect) (connect_body opts)
    \<and> s' = (session_start opts s)\<lparr>c_tx := q, c_env := env, c_clean_session := o_clean_session opts,
        c_keep_alive_ms := ucast (o_keep_alive_s opts) * 1000, c_connack := default_connack, c_last_error := Ok,
        c_connect_started_ms := now, c_last_sent_ms := now, c_last_received_ms := now,
        c_ping_outstanding := False, c_state := Connecting\<rparr>)"
proof -
  define s1 where "s1 = session_start opts s"
  have ok: "connect_ok opts" "c_state s = Idle" using assms(1)
    by (auto simp: connect_def connect_remaining_length_spec split: if_splits)
  have i1: "client_invar (cx_cfg cx) s1"
    using assms(2) by (auto simp: s1_def session_start_def Let_def intro!: reset_invar client_invar_clear)
  have p1: "peek (c_tx s1) = []" by (simp add: s1_def session_start_def Let_def reset_session_state_def)
  obtain e1 s2 where q: "enqueue_sized (cx_cfg cx) (packet_size (word_of_nat (length (connect_body opts))))
      (\<lambda>out. encode_connect (cx_etl cx) out opts) s1 = (e1, s2)" by fastforce
  note Q = connect_queues [OF client_invar_txD [OF i1] ok(1), unfolded q]
  have e1: "e1 = Ok" using assms(1) ok q
    by (auto simp: connect_def connect_remaining_length_spec then_do_def Let_def
        s1_def session_start_def split: if_splits)
  then obtain tx where tx: "s2 = s1\<lparr>c_tx := tx\<rparr>" "tx_ok (cx_cfg cx) tx"
    "peek tx = packet_wire (plain_header Connect) (connect_body opts)"
    using Q p1 by (auto simp: queues_def split: if_splits)
  obtain now env where t: "now_ms (cx_pl cx) (c_env s1) = (now, env)" by fastforce
  show ?thesis using assms(1) ok q e1 tx t
    by (intro conjI exI [of _ tx] exI [of _ env] exI [of _ now])
      (auto simp: connect_def connect_remaining_length_spec then_do_def Let_def read_clock_def
        s1_def session_start_def split: if_splits)
qed

end

section \<open>Clients of the test bench\<close>

definition bench_two_packets :: "fake_env client" where
  "bench_two_packets = bench_up\<lparr>c_ping_outstanding := True,
     c_rx := packet_wire (plain_header Pingresp) [] @ packet_wire (plain_header Suback) [0] @ replicate 27 0, c_rx_len := 5\<rparr>"

definition bench_subscribed :: "fake_env client" where
  "bench_subscribed = bench_up\<lparr>c_on_message := Some 9, c_subscriptions :=
     [\<lparr>su_filter = lit ''a/+'', su_handler = Some 4, su_sub_id = 1, su_requested_qos = 0, su_granted_qos = 0, su_needs_resub = False\<rparr>,
      \<lparr>su_filter = lit ''b'', su_handler = Some 5, su_sub_id = 2, su_requested_qos = 0, su_granted_qos = 0, su_needs_resub = False\<rparr>]\<rparr>"

definition bench_message :: "bytes \<Rightarrow> Message" where
  "bench_message t = \<lparr>m_topic = t, m_payload = [], m_qos = 0, m_retain = False, m_dup = False, m_packet_id = 0\<rparr>"

definition bench_waiting :: "fake_env client" where
  "bench_waiting = bench_subscribed\<lparr>c_pending := [\<lparr>pa_subs = [2, 1], pa_sent_ms = 0, pa_packet_id = 5, pa_expected = Suback\<rparr>]\<rparr>"

definition bench_persistent :: "fake_env client" where
  "bench_persistent = snd (snd (publish (bench bench_config) (lit ''a'') (lit ''x'') 2 False
     (bench_up\<lparr>c_clean_session := False\<rparr>)))"

definition bench_resume :: ConnectOptions where
  "bench_resume = default_options\<lparr>o_client_id := lit ''cid'', o_keep_alive_s := 65535, o_clean_session := False\<rparr>"

section \<open>Properties\<close>

text \<open>C14: The receive buffer is cut at the packet boundaries. When it starts with an encoded packet
  that fits, exactly the body of that packet reaches its handler, the packet is removed and what
  followed it is at the front of the buffer; the loop goes on with it, or stops with the error of
  the handler. (The handler is one that does not end the session, which empties the buffer.)\<close>

theorem drain_rx_frames:
  assumes "client_world cx" and "client_invar (cx_cfg cx) s" and "header_ok h" and "length body \<le> max_body"
    and "length (packet_wire h body) \<le> rx_buffer_size (cx_cfg cx)"
    and "take (c_rx_len s) (c_rx s) = packet_wire h body @ rest"
    and "handle_packet cx (h\<lparr>h_remaining_length := word_of_nat (length body)\<rparr>) body s = (e, s1)"
    and "c_rx_len s1 = c_rx_len s"
  shows "\<exists>s2. drain_rx cx s = (if e \<noteq> Ok then Some (e, s2) else drain_rx cx s2)
    \<and> take (c_rx_len s2) (c_rx s2) = rest \<and> s2 = s1\<lparr>c_rx := c_rx s2, c_rx_len := c_rx_len s2\<rparr>"
  using client_world.drain_rx_packet [OF assms(1-4,6,5,7,8)]
  by (intro exI [of _ "after_packet (length (packet_wire h body)) s1"]) (simp add: after_packet_def Let_def)

theorem drain_rx_frames_witness:
  "\<exists>s2. drain_rx (bench bench_config) bench_two_packets = drain_rx (bench bench_config) s2
     \<and> take (c_rx_len s2) (c_rx s2) = packet_wire (plain_header Suback) [0] \<and> \<not> c_ping_outstanding s2"
proof -
  let ?h = "plain_header Pingresp"
  let ?s1 = "bench_two_packets\<lparr>c_ping_outstanding := False\<rparr>"
  have w: "packet_wire ?h [] = [0xD0, 0]" "packet_wire (plain_header Suback) [0] = [0x90, 1, 0]" by code_simp+
  have inv: "client_invar bench_config bench_two_packets"
    using bench_up_invar
    by (simp add: bench_two_packets_def client_invar_def rx_ok_def w bench_config_def DefaultConfig_def bench_up_def new_client_def)
  have "handle_packet (bench bench_config) (?h\<lparr>h_remaining_length := word_of_nat (length [])\<rparr>) [] bench_two_packets = (Ok, ?s1)"
    by (simp add: handle_packet_def plain_header_def default_header_def bench_two_packets_def bench_up_def)
  moreover have "take (c_rx_len bench_two_packets) (c_rx bench_two_packets) =
      packet_wire ?h [] @ packet_wire (plain_header Suback) [0]"
    by (simp add: bench_two_packets_def w)
  moreover have "header_ok ?h" "length (packet_wire ?h []) \<le> rx_buffer_size bench_config"
    by (simp add: header_ok_def plain_header_def default_header_def) (simp add: w bench_config_def)
  ultimately obtain s2 where "drain_rx (bench bench_config) bench_two_packets = drain_rx (bench bench_config) s2"
      "take (c_rx_len s2) (c_rx s2) = packet_wire (plain_header Suback) [0]"
      "s2 = ?s1\<lparr>c_rx := c_rx s2, c_rx_len := c_rx_len s2\<rparr>"
    using drain_rx_frames [OF bench_small.client_world_axioms, of bench_two_packets ?h "[]"
        "packet_wire (plain_header Suback) [0]" Ok ?s1] inv by simp blast
  moreover from arg_cong [OF this(3), of c_ping_outstanding] have "\<not> c_ping_outstanding s2" by simp
  ultimately show ?thesis by blast
qed

text \<open>C15: A message is delivered once to the handler of every subscription whose filter matches its
  topic, in the order of the table, and to the fallback handler exactly when there is none. The
  handlers are assumed to leave the session and the bindings alone; they may publish.\<close>

theorem dispatch_delivers:
  assumes "calm cx" and "c_state s = Connected"
  shows "c_log (dispatch cx m s) = c_log s @ map (\<lambda>k. OnMessage k m) (recipients m s)"
  using assms by (rule dispatch_calm)

theorem dispatch_delivers_witness:
  "let cx = bench_base bench_config; m = bench_message (lit ''a/b''); m2 = bench_message (lit ''c'') in
     c_log (dispatch cx m bench_subscribed) = [OnMessage 4 m] \<and> c_log (dispatch cx m2 bench_subscribed) = [OnMessage 9 m2]"
proof -
  have c: "calm (bench_base bench_config)" by (simp add: calm_def same_frame_def)
  have "(recipients (bench_message (lit ''a/b'')) bench_subscribed, recipients (bench_message (lit ''c'')) bench_subscribed,
      c_log bench_subscribed, c_state bench_subscribed) = ([4], [9], [], Connected)" by code_simp
  then show ?thesis using dispatch_delivers [OF c, of bench_subscribed] by (simp add: Let_def)
qed





end
