(* ===== verification/Client_Transmit.thy ===== *)
theory Client_Transmit
  imports Client_Exchange
begin

text \<open>
  The transmit side end to end. \<open>wire_transport\<close> adds to the contract of the transport what went on
  the wire: what a send accepted is appended to it and nothing else is. \<open>willing_transport\<close> adds
  that the peer takes data: while it has credit for the bytes offered, a send accepts some of them.
  Both are interpreted on the in-memory transport of the tests.
\<close>

section \<open>What is on the wire\<close>

locale wire_transport = transport_contract pl
  for pl :: "'e platform" +
  fixes sent :: "'e \<Rightarrow> bytes"
  assumes send_appends: "tr_send pl data env = (err, n, env') \<Longrightarrow> sent env' = sent env @ take n data"
    and clock_silent: "now_ms pl env = (t, env') \<Longrightarrow> sent env' = sent env"
    and close_silent: "sent (tr_close pl env) = sent env"

locale willing_transport = wire_transport pl sent
  for pl :: "'e platform" and sent +
  fixes credit :: "nat \<Rightarrow> 'e \<Rightarrow> bool"
  assumes send_accepts: "credit (length data) env \<Longrightarrow> data \<noteq> [] \<Longrightarrow>
      \<exists>n env'. tr_send pl data env = (Ok, n, env') \<and> 0 < n \<and> credit (length data - n) env'"
    and clock_credit: "now_ms pl env = (t, env') \<Longrightarrow> credit n env \<Longrightarrow> credit n env'"

definition fake_credit :: "nat \<Rightarrow> fake_env \<Rightarrow> bool" where
  "fake_credit n env \<longleftrightarrow> f_connected env \<and> \<not> f_send_blocked env \<and> length (f_sent env) + n \<le> f_capacity env"

interpretation fake_wire: willing_transport fake_platform f_sent fake_credit
proof (unfold_locales, goal_cases)
  case (4 data env)
  let ?n = "if f_send_limit env \<noteq> 0 \<and> length data > f_send_limit env then f_send_limit env else length data"
  have "tr_send fake_platform data env = (Ok, ?n, env\<lparr>f_sent := f_sent env @ take ?n data\<rparr>)"
    using 4 by (auto simp: fake_platform_def fake_send_def fake_credit_def Let_def)
  then show ?case using 4 by (intro exI conjI) (auto simp: fake_credit_def)
qed (auto simp: fake_platform_def fake_send_def fake_close_def fake_credit_def Let_def split: if_splits)

context client_world
begin

text \<open>The loop neither loses, nor repeats, nor reorders a byte.\<close>

lemma pump_tx_wire:
  assumes "wire_transport (cx_pl cx) sent" and "tx_ok (cx_cfg cx) (c_tx s)" and "pump_tx cx s = Some (e, s')"
  shows "sent (c_env s') @ peek (c_tx s') = sent (c_env s) @ peek (c_tx s)"
  using assms(2,3)
proof (induction "length (peek (c_tx s))" arbitrary: s rule: less_induct)
  case less
  obtain e1 n env where sd: "tr_send (cx_pl cx) (peek (c_tx s)) (c_env s) = (e1, n, env)" by (metis prod_cases3)
  have n: "n \<le> length (peek (c_tx s))" "e1 \<noteq> Ok \<longrightarrow> n = 0" "sent env = sent (c_env s) @ take n (peek (c_tx s))"
    using transport_contract.send_written [OF transport sd] wire_transport.send_appends [OF assms(1) sd] by auto
  show ?case
  proof (cases "tx_empty (c_tx s) \<or> e1 \<noteq> Ok \<or> n = 0")
    case True
    then show ?thesis using less.prems(2) n(2,3) by (subst (asm) pump_tx.simps) (auto simp: sd Let_def split: if_splits)
  next
    case False
    obtain now env' where t: "now_ms (cx_pl cx) env = (now, env')" by fastforce
    let ?s = "s\<lparr>c_tx := consume n (c_tx s), c_env := env', c_last_sent_ms := now\<rparr>"
    have q: "tx_ok (cx_cfg cx) (c_tx ?s)" "peek (c_tx ?s) = drop n (peek (c_tx s))"
      using less.prems consume_spec [of "c_tx s" n] by (simp_all add: tx_ok_def)
    have "pump_tx cx ?s = Some (e, s')"
      using False less.prems(2) by (subst (asm) pump_tx.simps) (simp add: sd read_clock_def t)
    moreover have "length (peek (c_tx ?s)) < length (peek (c_tx s))" using False n(1) q(2) by (simp, linarith)
    ultimately have "sent (c_env s') @ peek (c_tx s') = sent env' @ peek (c_tx ?s)" using less.hyps [of ?s] q(1) by simp
    then show ?thesis using n(3) wire_transport.clock_silent [OF assms(1) t] q(2) by simp
  qed
qed

text \<open>A willing transport takes the whole queue in one call.\<close>

lemma pump_tx_flushes:
  assumes "willing_transport (cx_pl cx) sent credit" and "tx_ok (cx_cfg cx) (c_tx s)"
    and "credit (length (peek (c_tx s))) (c_env s)"
  shows "\<exists>q env t. pump_tx cx s = Some (Ok, s\<lparr>c_tx := q, c_env := env, c_last_sent_ms := t\<rparr>)
    \<and> tx_ok (cx_cfg cx) q \<and> peek q = []"
  using assms(2,3)
proof (induction "length (peek (c_tx s))" arbitrary: s rule: less_induct)
  case less
  show ?case
  proof (cases "tx_empty (c_tx s)")
    case True
    then have "peek (c_tx s) = []" using less.prems(1) by (simp add: tx_ok_def tx_empty_iff)
    then show ?thesis using True less.prems(1) by (subst pump_tx.simps)
        (intro exI [of _ "c_tx s"] exI [of _ "c_env s"] exI [of _ "c_last_sent_ms s"], simp)
  next
    case False
    then have "peek (c_tx s) \<noteq> []" using less.prems(1) by (simp add: tx_ok_def tx_empty_iff)
    from willing_transport.send_accepts [OF assms(1) less.prems(2) this] obtain n env where
      sd: "tr_send (cx_pl cx) (peek (c_tx s)) (c_env s) = (Ok, n, env)" "0 < n" "credit (length (peek (c_tx s)) - n) env" by auto
    obtain now env' where t: "now_ms (cx_pl cx) env = (now, env')" by fastforce
    let ?s = "s\<lparr>c_tx := consume n (c_tx s), c_env := env', c_last_sent_ms := now\<rparr>"
    have n: "n \<le> length (peek (c_tx s))" using transport_contract.send_written [OF transport sd(1)] by simp
    have q: "tx_ok (cx_cfg cx) (c_tx ?s)" "peek (c_tx ?s) = drop n (peek (c_tx s))"
      using less.prems consume_spec [of "c_tx s" n] n by (simp_all add: tx_ok_def)
    have "length (peek (c_tx ?s)) < length (peek (c_tx s))" using sd(2) n q(2) by simp
    moreover have "credit (length (peek (c_tx ?s))) (c_env ?s)"
      using willing_transport.clock_credit [OF assms(1) t sd(3)] q(2) by simp
    ultimately obtain q2 env2 t2 where "pump_tx cx ?s = Some (Ok, ?s\<lparr>c_tx := q2, c_env := env2, c_last_sent_ms := t2\<rparr>)"
      "tx_ok (cx_cfg cx) q2" "peek q2 = []" using less.hyps [of ?s] q(1) by blast
    moreover have "pump_tx cx s = pump_tx cx ?s" using False sd by (subst pump_tx.simps) (simp add: read_clock_def t)
    ultimately show ?thesis by (intro exI [of _ q2] exI [of _ env2] exI [of _ t2]) simp
  qed
qed

text \<open>One step over a willing transport ends a session that is being left.\<close>

lemma leaving_step:
  assumes "willing_transport (cx_pl cx) sent credit" and "client_invar (cx_cfg cx) s" and "\<not> c_in_step s"
    and "c_state s = Disconnecting" and "c_on_disconnect s = None"
    and "credit (length (peek (c_tx s))) (c_env s)"
  shows "\<exists>s'. step cx s = Some (Ok, s') \<and> c_state s' = Idle \<and> c_last_error s' = Ok
    \<and> sent (c_env s') = sent (c_env s) @ peek (c_tx s)"
proof -
  let ?s = "s\<lparr>c_in_step := True\<rparr>"
  have tx: "tx_ok (cx_cfg cx) (c_tx ?s)" using client_invar_txD [OF assms(2)] by simp
  have w: "wire_transport (cx_pl cx) sent" using assms(1) by (rule willing_transport.axioms(1))
  obtain q env t where p: "pump_tx cx ?s = Some (Ok, ?s\<lparr>c_tx := q, c_env := env, c_last_sent_ms := t\<rparr>)"
    "tx_ok (cx_cfg cx) q" "peek q = []"
    using pump_tx_flushes [OF assms(1) tx] assms(6) by auto
  have env: "sent env = sent (c_env s) @ peek (c_tx s)" using pump_tx_wire [OF w tx p(1)] p(3) by simp
  have "tx_empty q" using p(2,3) by (simp add: tx_ok_def tx_empty_iff)
  then show ?thesis using assms(3-5) p(1) env wire_transport.close_silent [OF w]
    by (simp add: step_def step_once_def step_io_def shutdown_def end_session_def mark_resub_def Let_def call_if_def)
qed

lemma disconnect_spec:
  assumes "client_invar (cx_cfg cx) s" and "c_state s = Connected"
    and "length (peek (c_tx s)) + 2 \<le> tx_buffer_size (cx_cfg cx)"
  shows "\<exists>q. disconnect cx s = (Ok, s\<lparr>c_tx := q, c_state := Disconnecting\<rparr>) \<and> tx_ok (cx_cfg cx) q
    \<and> peek q = peek (c_tx s) @ packet_wire (plain_header Disconnect) []"
proof -
  have w: "length (packet_wire (plain_header Disconnect) []) = 2" by code_simp
  obtain e s1 where q: "enqueue_sized (cx_cfg cx) (packet_size 0) (\<lambda>out. encode_empty (cx_etl cx) out Disconnect) s = (e, s1)"
    by fastforce
  show ?thesis using empty_queues [OF client_invar_txD [OF assms(1)], of Disconnect] assms w
    by (auto simp: q queues_def disconnect_def)
qed

end

section \<open>Clients of the test bench\<close>

text \<open>Two messages are waiting, and the handler of the first one disconnects; and the same handler
  when the queue has no room for the DISCONNECT.\<close>

definition bench_leaving :: "fake_env client" where
  "bench_leaving = bench_up\<lparr>c_on_message := Some 2, c_on_disconnect := Some 0, c_env :=
     push_publish (lit ''a'') (lit ''y'') 0 0 False False
       (push_publish (lit ''a'') (lit ''x'') 0 0 False False (c_env bench_up))\<rparr>"

definition bench_full :: "fake_env client" where
  "bench_full = bench_up\<lparr>c_on_message := Some 2, c_on_disconnect := Some 0,
     c_tx := snd (tx_enqueue (replicate 31 0) (c_tx bench_up)),
     c_env := (push_publish (lit ''a'') (lit ''x'') 0 0 False False (c_env bench_up))\<lparr>f_send_blocked := True\<rparr>\<rparr>"

definition bench_slow :: "fake_env client" where
  "bench_slow = bench_full\<lparr>c_env := fake_env0\<lparr>f_connected := True, f_send_limit := 5, f_capacity := 20\<rparr>\<rparr>"

section \<open>Properties\<close>

text \<open>C13: The transmit loop returns, and no byte is lost, repeated or reordered on the way to the
  wire: what has been sent followed by what is still queued is the same before and after, however
  the transport splits the writes and whatever error it ends with.\<close>

theorem pump_tx_delivers:
  assumes "client_world cx" and "wire_transport (cx_pl cx) sent" and "client_invar (cx_cfg cx) s"
  shows "\<exists>e s'. pump_tx cx s = Some (e, s') \<and> sent (c_env s') @ peek (c_tx s') = sent (c_env s) @ peek (c_tx s)"
  using client_world.pump_tx_total [OF assms(1) client_invar_txD [OF assms(3)]]
    client_world.pump_tx_wire [OF assms(1,2) client_invar_txD [OF assms(3)]] by blast

theorem pump_tx_delivers_witness:
  "\<exists>e s'. pump_tx (bench bench_config) bench_slow = Some (e, s')
     \<and> f_sent (c_env s') @ peek (c_tx s') = replicate 31 0 \<and> f_send_limit (c_env bench_slow) = 5"
proof -
  have e: "tx_ok bench_config (c_tx bench_slow) \<and> peek (c_tx bench_slow) = replicate 31 0" by code_simp
  then have "client_invar bench_config bench_slow"
    using bench_up_invar by (simp add: bench_slow_def bench_full_def client_invar_def)
  then show ?thesis
    using pump_tx_delivers [OF bench_small.client_world_axioms, of f_sent bench_slow] fake_wire.wire_transport_axioms e
    by (simp add: bench_slow_def fake_env0_def)
qed




end
