(* ===== verification/Stub_Text.thy ===== *)
theory Stub_Text
  imports Topic Packet
begin

text \<open>
  The pure part of \<^verbatim>\<open>tools/stub_broker.py\<close>, the Python broker the examples are developed against:
  the variable byte integer, the matching of topics, and what it uses of Python's strings. A
  Python \<open>str\<close> is the list of its code points and an \<open>int\<close> that cannot be negative a natural number.
  The results relate the script to the C++ library: the two encoders of lengths and the two
  matchers agree on everything the protocol allows.
\<close>

section \<open>Python strings\<close>

type_synonym pystr = "nat list"

definition py_lit :: "string \<Rightarrow> pystr" where
  "py_lit s = map of_char s"

text \<open>\<open>str.encode()\<close>.\<close>

definition py_encode :: "pystr \<Rightarrow> bytes" where
  "py_encode s = concat (map utf8_encode s)"

text \<open>
  \<open>bytes.decode("utf-8", "replace")\<close>. For a first byte: how many bytes follow and the range of the
  second one, which excludes overlong forms, surrogates and values above U+10FFFF.
\<close>

definition py_lead :: "u8 \<Rightarrow> (nat \<times> nat \<times> nat) option" where
  "py_lead b =
     (let n = unat b in
      if n < 0x80 then Some (0, 0x80, 0xBF)
      else if n < 0xC2 then None
      else if n < 0xE0 then Some (1, 0x80, 0xBF)
      else if n < 0xF0 then Some (2, if n = 0xE0 then 0xA0 else 0x80, if n = 0xED then 0x9F else 0xBF)
      else if n < 0xF5 then Some (3, if n = 0xF0 then 0x90 else 0x80, if n = 0xF4 then 0x8F else 0xBF)
      else None)"

definition py_lead_bits :: "u8 \<Rightarrow> nat" where
  "py_lead_bits b =
     (if unat b < 0x80 then unat b else if unat b < 0xE0 then unat b mod 32
      else if unat b < 0xF0 then unat b mod 16 else unat b mod 8)"

text \<open>The continuation bytes of a sequence: the code point and the rest of the input, or the rest
  behind the bytes that were acceptable, for which the replacement character is put.\<close>

fun py_continue :: "nat \<Rightarrow> nat \<Rightarrow> nat \<Rightarrow> nat \<Rightarrow> bytes \<Rightarrow> nat option \<times> bytes" where
  "py_continue 0 lo hi c bs = (Some c, bs)"
| "py_continue (Suc n) lo hi c [] = (None, [])"
| "py_continue (Suc n) lo hi c (b # bs) =
     (if lo \<le> unat b \<and> unat b \<le> hi then py_continue n 0x80 0xBF (c * 64 + unat b mod 64) bs
      else (None, b # bs))"

lemma py_continue_code [code]:
  "py_continue n lo hi c bs =
     (if n = 0 then (Some c, bs)
      else case bs of
        [] \<Rightarrow> (None, [])
      | b # bs' \<Rightarrow>
          if lo \<le> unat b \<and> unat b \<le> hi then py_continue (n - 1) 0x80 0xBF (c * 64 + unat b mod 64) bs'
          else (None, bs))"
  by (cases n; cases bs) simp_all

lemma py_continue_length: "py_continue n lo hi c bs = (r, rest) \<Longrightarrow> length rest \<le> length bs"
  by (induction n lo hi c bs rule: py_continue.induct) (auto split: if_splits)

lemma py_continue_numeral [simp]:
  "py_continue (numeral k) lo hi c (b # bs) =
     (if lo \<le> unat b \<and> unat b \<le> hi
      then py_continue (pred_numeral k) 0x80 0xBF (c * 64 + unat b mod 64) bs else (None, b # bs))"
  "py_continue (numeral k) lo hi c [] = (None, [])"
  by (simp_all add: numeral_eq_Suc)

function py_decode :: "bytes \<Rightarrow> pystr" where
  "py_decode [] = []"
| "py_decode (b # bs) =
     (case py_lead b of
        None \<Rightarrow> 0xFFFD # py_decode bs
      | Some (n, lo, hi) \<Rightarrow>
          (case py_continue n lo hi (py_lead_bits b) bs of
             (None, rest) \<Rightarrow> 0xFFFD # py_decode rest
           | (Some c, rest) \<Rightarrow> c # py_decode rest))"
  by pat_completeness auto
termination by (relation "measure length") (auto dest!: sym [THEN py_continue_length] simp: less_Suc_eq_le)

text \<open>\<open>s.split("/")\<close>.\<close>

fun py_split :: "pystr \<Rightarrow> pystr list" where
  "py_split [] = [[]]"
| "py_split (c # cs) =
     (if c = 0x2F then [] # py_split cs
      else case py_split cs of l # ls \<Rightarrow> (c # l) # ls | [] \<Rightarrow> [[c]])"

section \<open>The helpers of the script\<close>

function encode_len :: "nat \<Rightarrow> bytes" where
  "encode_len n =
     (let byte = n mod 128; n' = n div 128 in
      if n' = 0 then [word_of_nat byte]
      else (word_of_nat byte OR 0x80) # encode_len n')"
  by pat_completeness auto
termination by (relation "measure id") auto

declare encode_len.simps [simp del]

text \<open>The loop over the levels of the filter; \<open>i\<close> is the index of the level at the front.\<close>

fun match_segments :: "pystr list \<Rightarrow> nat \<Rightarrow> pystr list \<Rightarrow> bool option" where
  "match_segments [] i t = None"
| "match_segments (seg # f) i t =
     (if seg = py_lit ''#'' then Some True
      else if length t \<le> i then Some False
      else if seg \<noteq> py_lit ''+'' \<and> seg \<noteq> t ! i then Some False
      else match_segments f (Suc i) t)"

definition stub_topic_matches :: "pystr \<Rightarrow> pystr \<Rightarrow> bool" where
  "stub_topic_matches filt topic =
     (if take 1 topic = py_lit ''$'' \<and> take 1 filt \<in> {py_lit ''+'', py_lit ''#''} then False
      else
        let f = py_split filt; t = py_split topic in
        case match_segments f 0 t of Some r \<Rightarrow> r | None \<Rightarrow> length f = length t)"

section \<open>Decoding UTF-8\<close>

definition scalar :: "nat \<Rightarrow> bool" where
  "scalar c \<longleftrightarrow> c \<le> 0x10FFFF \<and> \<not> (0xD800 \<le> c \<and> c \<le> 0xDFFF)"

lemma mqtt_char_scalar: "mqtt_char c \<Longrightarrow> scalar c"
  by (simp add: mqtt_char_def scalar_def)

lemma py_decode_2:
  assumes "2 \<le> a" "a < 32" "b < 64"
  shows "py_decode (map word_of_nat [192 + a, 128 + b] @ r) = (a * 64 + b) # py_decode r"
proof -
  have u: "unat (word_of_nat (192 + a) :: u8) = 192 + a" "unat (word_of_nat (128 + b) :: u8) = 128 + b"
    using assms by (simp_all only: unat_byte)
  have l: "py_lead (word_of_nat (192 + a)) = Some (1, 128, 191)"
    unfolding py_lead_def u using assms by simp
  have "py_lead_bits (word_of_nat (192 + a)) = a"
    unfolding py_lead_bits_def u using assms by (simp add: offset_mods)
  then show ?thesis using assms u(2) l by (simp add: offset_mods del: of_nat_add of_nat_numeral)
qed

lemma py_decode_3:
  assumes "a < 16" "b < 64" "d < 64" and c: "0x800 \<le> (a * 64 + b) * 64 + d" "scalar ((a * 64 + b) * 64 + d)"
  shows "py_decode (map word_of_nat [224 + a, 128 + b, 128 + d] @ r) = ((a * 64 + b) * 64 + d) # py_decode r"
proof -
  have u: "unat (word_of_nat (224 + a) :: u8) = 224 + a" "unat (word_of_nat (128 + b) :: u8) = 128 + b"
    "unat (word_of_nat (128 + d) :: u8) = 128 + d"
    using assms by (simp_all only: unat_byte)
  have l: "py_lead (word_of_nat (224 + a)) =
      Some (2, if a = 0 then 160 else 128, if a = 13 then 159 else 191)"
    unfolding py_lead_def u using assms by simp
  have m: "py_lead_bits (word_of_nat (224 + a)) = a"
    unfolding py_lead_bits_def u using assms by (simp add: offset_mods)
  have "a = 0 \<Longrightarrow> 32 \<le> b" "a = 13 \<Longrightarrow> b \<le> 31" using c assms by (auto simp: scalar_def)
  then show ?thesis using assms u(2,3) l m by (simp add: offset_mods del: of_nat_add of_nat_numeral)
qed

lemma py_decode_4:
  assumes "b < 64" "d < 64" "e < 64" and c: "0x10000 \<le> ((a * 64 + b) * 64 + d) * 64 + e"
    "scalar (((a * 64 + b) * 64 + d) * 64 + e)"
  shows "py_decode (map word_of_nat [240 + a, 128 + b, 128 + d, 128 + e] @ r)
    = (((a * 64 + b) * 64 + d) * 64 + e) # py_decode r"
proof -
  have a: "a \<le> 4" "a = 0 \<Longrightarrow> 16 \<le> b" "a = 4 \<Longrightarrow> b \<le> 15" using c assms by (auto simp: scalar_def)
  have u: "unat (word_of_nat (240 + a) :: u8) = 240 + a" "unat (word_of_nat (128 + b) :: u8) = 128 + b"
    "unat (word_of_nat (128 + d) :: u8) = 128 + d" "unat (word_of_nat (128 + e) :: u8) = 128 + e"
    using assms a by (simp_all only: unat_byte)
  have l: "py_lead (word_of_nat (240 + a)) =
      Some (3, if a = 0 then 144 else 128, if a = 4 then 143 else 191)"
    unfolding py_lead_def u using a by simp
  have m: "py_lead_bits (word_of_nat (240 + a)) = a"
    unfolding py_lead_bits_def u using a by (simp add: offset_mods)
  show ?thesis using assms a u(2,3,4) l m
    by (simp add: offset_mods del: of_nat_add of_nat_numeral)
qed

lemma py_decode_encode_char:
  assumes "scalar c"
  shows "py_decode (utf8_encode c @ r) = c # py_decode r"
proof -
  define x1 x2 x3 where "x1 = c div 64" and "x2 = x1 div 64" and "x3 = x2 div 64"
  have c: "c = x1 * 64 + c mod 64" "x1 = x2 * 64 + x1 mod 64" "x2 = x3 * 64 + x2 mod 64"
    by (simp_all add: x1_def x2_def x3_def)
  have m: "c mod 64 < 64" "x1 mod 64 < 64" "x2 mod 64 < 64" by simp_all
  consider "c < 0x80" | "0x80 \<le> c" "c < 0x800" | "0x800 \<le> c" "c < 0x10000" | "0x10000 \<le> c" by linarith
  then show ?thesis
  proof cases
    case 1
    then have "unat (word_of_nat c :: u8) = c" by (simp add: unat_byte)
    then show ?thesis using 1 by (simp add: utf8_encode_def py_lead_def py_lead_bits_def)
  next
    case 2
    then have a: "2 \<le> x1" "x1 < 32" by (auto simp: x1_def)
    show ?thesis using utf8_encode_digits(1) [OF m(1) m(1) m(1) a(2)] py_decode_2 [OF a m(1)] c(1) 2 by simp
  next
    case 3
    then have a: "x2 < 16" by (auto simp: x1_def x2_def)
    have e: "c = (x2 * 64 + x1 mod 64) * 64 + c mod 64" using c by simp
    show ?thesis using utf8_encode_digits(2) [OF m(2) m(1) m(1) a] py_decode_3 [OF a m(2) m(1), of r] 3 assms
      unfolding e [symmetric] by simp
  next
    case 4
    have e: "c = ((x3 * 64 + x2 mod 64) * 64 + x1 mod 64) * 64 + c mod 64" using c by simp
    show ?thesis using utf8_encode_digits(3) [OF m(3) m(2) m(1), of x3] py_decode_4 [OF m(3) m(2) m(1), of x3 r] 4 assms
      unfolding e [symmetric] by simp
  qed
qed

lemma py_decode_encode [simp]: "list_all scalar cs \<Longrightarrow> py_decode (py_encode cs) = cs"
  by (induction cs) (simp_all add: py_encode_def py_decode_encode_char)

lemma mqtt_utf8_decode:
  assumes "mqtt_utf8 s"
  shows "list_all mqtt_char (py_decode s)" "py_encode (py_decode s) = s"
proof -
  obtain cs where cs: "list_all mqtt_char cs" "s = py_encode cs"
    using assms by (auto simp: mqtt_utf8_def py_encode_def)
  then have "py_decode s = cs" using mqtt_char_scalar by (simp add: list.pred_mono_strong)
  then show "list_all mqtt_char (py_decode s)" "py_encode (py_decode s) = s" using cs by simp_all
qed


text \<open>What is not UTF-8 becomes U+FFFD, so the result is always a string of scalar values.\<close>

lemma scalar_3:
  assumes "x < 16" "y < 64" "z < 64" "x = 13 \<Longrightarrow> y < 32"
  shows "scalar (4096 * x + 64 * y + z)"
proof -
  consider "x = 13" "y < 32" | "x \<le> 12" | "14 \<le> x" using assms(4) by linarith
  then show ?thesis by cases (use assms(1-3) in \<open>auto simp: scalar_def\<close>)
qed

lemma scalar_4:
  assumes "x < 5" "y < 64" "z < 64" "w < 64" "x = 4 \<Longrightarrow> y < 16" "x = 0 \<Longrightarrow> 16 \<le> y"
  shows "scalar (262144 * x + 4096 * y + z * 64 + w)"
proof -
  consider "x = 4" "y < 16" | "x = 0" "16 \<le> y" | "1 \<le> x" "x \<le> 3" using assms(1,5,6) by linarith
  then show ?thesis by cases (use assms(1-4) in \<open>auto simp: scalar_def\<close>)
qed

lemma py_continue_scalar:
  assumes "py_lead b = Some (n, lo, hi)" and "py_continue n lo hi (py_lead_bits b) bs = (Some c, rest)"
  shows "scalar c"
proof -
  have d: "x mod 64 < 64" for x :: nat by simp
  note m = mod_less_divisor [of 64, simplified]
  have u: "unat b < 256" by (rule unat_u8_less)
  consider "unat b < 0x80" "n = 0" | "0xC2 \<le> unat b" "unat b < 0xE0" "n = 1"
    | "0xE0 \<le> unat b" "unat b < 0xF0" "n = 2" "lo = (if unat b = 0xE0 then 0xA0 else 0x80)"
      "hi = (if unat b = 0xED then 0x9F else 0xBF)"
    | "0xF0 \<le> unat b" "unat b < 0xF5" "n = 3" "lo = (if unat b = 0xF0 then 0x90 else 0x80)"
      "hi = (if unat b = 0xF4 then 0x8F else 0xBF)"
    using assms(1) by (auto simp: py_lead_def Let_def not_less split: if_splits)
  then show ?thesis
  proof cases
    case 1
    then show ?thesis using assms(2) by (simp add: py_lead_bits_def scalar_def)
  next
    case 2
    have "unat b mod 32 < 32" by simp
    with 2 show ?thesis using assms(2) m
      by (cases bs) (auto simp: py_lead_bits_def scalar_def split: if_splits)
  next
    case 3
    then obtain x where x: "unat b = 224 + x" "x < 16" by (auto elim: offsetE [of 224 _ 16])
    from 3 assms(2) obtain b1 b2 where bs: "bs = b1 # b2 # rest" "lo \<le> unat b1" "unat b1 \<le> hi"
        "c = ((py_lead_bits b) * 64 + unat b1 mod 64) * 64 + unat b2 mod 64"
      by (cases bs; cases "tl bs") (auto split: if_splits)
    have "128 \<le> unat b1" "unat b1 < 128 + 64" using bs 3 by (auto split: if_splits)
    then obtain y where y: "unat b1 = 128 + y" "y < 64" by (rule offsetE)
    have "py_lead_bits b = x" using x by (simp add: py_lead_bits_def offset_mods)
    moreover have "x = 13 \<Longrightarrow> y < 32" using bs(3) x y 3 by auto
    ultimately have c: "c = 4096 * x + 64 * y + unat b2 mod 64" "x = 13 \<Longrightarrow> y < 32"
      using bs(4) y by (simp_all add: offset_mods)
    then show ?thesis using scalar_3 [OF x(2) y(2), of "unat b2 mod 64"] by simp
  next
    case 4
    then obtain x where x: "unat b = 240 + x" "x < 5" by (auto elim: offsetE [of 240 _ 5])
    from 4 assms(2) obtain b1 b2 b3 where bs: "bs = b1 # b2 # b3 # rest" "lo \<le> unat b1" "unat b1 \<le> hi"
        "c = (((py_lead_bits b) * 64 + unat b1 mod 64) * 64 + unat b2 mod 64) * 64 + unat b3 mod 64"
      by (cases bs; cases "tl bs"; cases "tl (tl bs)") (auto split: if_splits)
    have "128 \<le> unat b1" "unat b1 < 128 + 64" using bs 4 by (auto split: if_splits)
    then obtain y where y: "unat b1 = 128 + y" "y < 64" by (rule offsetE)
    have "py_lead_bits b = x" using x by (simp add: py_lead_bits_def offset_mods)
    moreover have "x = 4 \<Longrightarrow> y < 16" "x = 0 \<Longrightarrow> 16 \<le> y" using bs(2,3) x y 4 by auto
    ultimately show ?thesis
      using bs(4) y scalar_4 [OF x(2) y(2), of "unat b2 mod 64" "unat b3 mod 64"] by (simp add: offset_mods)
  qed
qed

lemma py_decode_scalar: "list_all scalar (py_decode bs)"
  by (induction bs rule: py_decode.induct)
    (auto simp: scalar_def [of "0xFFFD"] dest: py_continue_scalar split: option.splits prod.splits)

text \<open>A string takes as many bytes as characters exactly when it is ASCII.\<close>

lemma length_utf8_encode: "1 \<le> length (utf8_encode c)" "length (utf8_encode c) = 1 \<longleftrightarrow> c < 128"
  by (simp_all add: utf8_encode_def)

lemma length_py_encode: "length s \<le> length (py_encode s)"
  "length (py_encode s) = length s \<longleftrightarrow> list_all (\<lambda>c. c < 128) s"
proof (induction s)
  case (Cons c s)
  show "length (c # s) \<le> length (py_encode (c # s))"
    using Cons(1) length_utf8_encode(1) [of c] by (simp add: py_encode_def)
  show "length (py_encode (c # s)) = length (c # s) \<longleftrightarrow> list_all (\<lambda>c. c < 128) (c # s)"
    using Cons length_utf8_encode [of c] by (auto simp: py_encode_def)
qed (simp_all add: py_encode_def)

section \<open>Lengths\<close>

lemma encode_len_vbi: "n < 2 ^ 32 \<Longrightarrow> encode_len n = vbi_encode_loop (word_of_nat n)"
proof (induction n rule: encode_len.induct)
  case (1 n)
  let ?w = "word_of_nat n :: u32"
  have u: "unat ?w = n" using 1(2) by (simp add: unat_of_nat)
  have d: "?w div 128 = word_of_nat (n div 128)" by (rule word_unat_eq_iff [THEN iffD2]) (use u 1(2) in \<open>simp add: unat_div_distrib unat_of_nat\<close>)
  have "unat (ucast (?w mod 128) :: u8) = n mod 128"
    using u by (simp add: unsigned_ucast_eq unat_mod_distrib take_bit_eq_mod) 
  then have m: "ucast (?w mod 128) = (word_of_nat (n mod 128) :: u8)" by (metis byte_eq)
  have z: "?w div 128 > 0 \<longleftrightarrow> n div 128 \<noteq> 0" using u by (simp add: word_less_nat_alt unat_div_distrib)
  show ?case using 1 z
    by (subst encode_len.simps, subst vbi_encode_loop.simps) (auto simp: Let_def m d)
qed

section \<open>Matching\<close>

lemma utf8_encode_ascii: "c < 128 \<Longrightarrow> utf8_encode c = [word_of_nat c]"
  by (simp add: utf8_encode_def)

lemma utf8_encode_high:
  assumes "128 \<le> c" "scalar c" "b \<in> set (utf8_encode c)"
  shows "128 \<le> unat b"
proof -
  have h: "128 \<le> unat (word_of_nat n :: u8)" if "128 \<le> n" "n < 256" for n
    using that by (simp add: unat_byte)
  have d: "c < 2048 \<Longrightarrow> c div 64 < 64" "c < 65536 \<Longrightarrow> c div 4096 < 32" "c div 262144 < 16"
    using assms(2) by (auto simp: scalar_def div_less_iff_less_mult)
  have m: "128 + n mod 64 < (256::nat)" for n using mod_less_divisor [of 64 n] by linarith
  show ?thesis using assms(1,3) d
    by (auto simp: utf8_encode_def simp del: of_nat_add intro!: h m split: if_splits)
qed

lemma utf8_encode_byte:
  assumes "scalar c" "n < 128"
  shows "word_of_nat n \<in> set (utf8_encode c) \<longleftrightarrow> c = n"
proof (cases "c < 128")
  case True
  then have "unat (word_of_nat c :: u8) = c" "unat (word_of_nat n :: u8) = n"
    using assms(2) by (simp_all add: unat_byte)
  then have "word_of_nat n = (word_of_nat c :: u8) \<longleftrightarrow> c = n" by metis
  then show ?thesis using True by (simp add: utf8_encode_ascii)
next
  case False
  then show ?thesis using assms utf8_encode_high [of c "word_of_nat n"] unat_byte [of n] by auto
qed

lemma levels_append:
  "slash \<notin> set bs \<Longrightarrow> levels (bs @ s) = (bs @ hd (levels s)) # tl (levels s)"
  by (induction bs) (auto split: list.splits)

lemma py_split_nonempty [simp]: "py_split s \<noteq> []"
  by (induction s) (auto split: list.splits)

lemma py_split_subset: "l \<in> set (py_split s) \<Longrightarrow> set l \<subseteq> set s"
  by (induction s arbitrary: l) (fastforce split: list.splits if_splits)+

lemma levels_py_encode:
  "list_all scalar cs \<Longrightarrow> levels (py_encode cs) = map py_encode (py_split cs)"
proof (induction cs)
  case (Cons c cs)
  then have IH: "levels (py_encode cs) = map py_encode (py_split cs)" "scalar c" by simp_all
  have e: "py_encode (c # cs) = utf8_encode c @ py_encode cs" by (simp add: py_encode_def)
  show ?case
  proof (cases "c = 0x2F")
    case True
    moreover have "utf8_encode 0x2F = [slash]" "py_encode [] = []" by code_simp+
    ultimately show ?thesis unfolding e using IH by simp
  next
    case False
    then have "slash \<notin> set (utf8_encode c)" using utf8_encode_byte [OF IH(2), of "0x2F"] by simp
    then show ?thesis using False IH levels_append
      by (cases "py_split cs") (simp_all add: e, simp add: py_encode_def)
  qed
qed (simp add: py_encode_def)

text \<open>The loop over the segments decides the matching by recursion on the levels.\<close>

fun py_match :: "pystr list \<Rightarrow> pystr list \<Rightarrow> bool" where
  "py_match (f # fs) ts =
     (f = py_lit ''#'' \<or>
      (case ts of [] \<Rightarrow> False | t # ts' \<Rightarrow> (f = py_lit ''+'' \<or> f = t) \<and> py_match fs ts'))"
| "py_match [] ts = (ts = [])"

lemma match_segments_spec:
  "i \<le> length t \<Longrightarrow> (case match_segments f i t of Some r \<Rightarrow> r | None \<Rightarrow> i + length f = length t)
    = py_match f (drop i t)"
proof (induction f arbitrary: i)
  case (Cons seg f)
  show ?case
  proof (cases "i < length t")
    case True
    then have "drop i t = t ! i # drop (Suc i) t" by (simp add: Cons_nth_drop_Suc)
    then show ?thesis using True Cons.IH [of "Suc i"] by (auto split: option.splits)
  qed simp
qed auto

lemma py_lit_simps: "py_lit ''#'' = [0x23]" "py_lit ''+'' = [0x2B]" "py_lit ''$'' = [0x24]"
  by code_simp+

lemma py_encode_inject:
  "list_all scalar x \<Longrightarrow> list_all scalar y \<Longrightarrow> py_encode x = py_encode y \<longleftrightarrow> x = y"
  by (metis py_decode_encode)

lemma py_encode_wild:
  assumes "list_all scalar x"
  shows "py_encode x = [hash_wild] \<longleftrightarrow> x = py_lit ''#''" "py_encode x = [plus_wild] \<longleftrightarrow> x = py_lit ''+''"
proof -
  have "py_encode [0x23] = [hash_wild]" "py_encode [0x2B] = [plus_wild]" by code_simp+
  moreover have "list_all scalar [0x23]" "list_all scalar [0x2B]" by (simp_all add: scalar_def)
  ultimately show "py_encode x = [hash_wild] \<longleftrightarrow> x = py_lit ''#''"
    "py_encode x = [plus_wild] \<longleftrightarrow> x = py_lit ''+''"
    unfolding py_lit_simps using py_encode_inject [OF assms] by metis+
qed

lemma match_levels_py:
  "list_all (list_all scalar) fs \<Longrightarrow> list_all (list_all scalar) ts \<Longrightarrow>
   match_levels (map py_encode fs) (map py_encode ts) = py_match fs ts"
proof (induction fs ts rule: py_match.induct)
  case (1 f fs ts)
  then show ?case by (cases ts) (simp_all add: py_encode_wild py_encode_inject)
qed simp

lemma hd_py_encode:
  assumes "list_all scalar s" "s \<noteq> []" "n < 128"
  shows "hd (py_encode s) = word_of_nat n \<longleftrightarrow> take 1 s = [n]"
proof -
  obtain c cs where s: "s = c # cs" "scalar c" using assms by (cases s) auto
  have ne: "utf8_encode c \<noteq> []" using length_utf8_encode(1) [of c] by auto
  then have h: "hd (py_encode s) = hd (utf8_encode c)" by (simp add: s py_encode_def)
  have "hd (utf8_encode c) = word_of_nat n \<longleftrightarrow> c = n"
  proof
    assume "hd (utf8_encode c) = word_of_nat n"
    then show "c = n" using utf8_encode_byte [OF s(2) assms(3)] ne hd_in_set by metis
  qed (use assms(3) in \<open>simp add: utf8_encode_ascii\<close>)
  then show ?thesis using h s by simp
qed

lemma stub_topic_matches_levels:
  "stub_topic_matches filt topic \<longleftrightarrow>
     \<not> (take 1 topic = [0x24] \<and> take 1 filt \<in> {[0x2B], [0x23]}) \<and> py_match (py_split filt) (py_split topic)"
  using match_segments_spec [of 0 "py_split topic" "py_split filt"]
  by (auto simp: stub_topic_matches_def py_lit_simps Let_def split: option.splits)

section \<open>Properties\<close>

text \<open>C20: The two matchers agree. For every valid subscription filter and every non-empty MQTT
  string as topic, the broker's \<open>topic_matches\<close>, which splits the decoded strings into lists,
  gives the answer of the library's \<open>topic_matches\<close>, which scans the encoded bytes by index. So the
  broker never sends a message that the client has no subscription for, nor holds one back.\<close>

theorem matchers_agree:
  assumes "is_valid_filter filt" and "is_valid_mqtt_string topic" and "topic \<noteq> []"
  shows "stub_topic_matches (py_decode filt) (py_decode topic) \<longleftrightarrow> topic_matches filt topic"
proof -
  have v: "mqtt_utf8 filt" "filt \<noteq> []" "filter_levels_ok (levels filt)" "mqtt_utf8 topic"
    using assms by (simp_all add: is_valid_filter_spec is_valid_mqtt_string_spec)
  define f t where "f = py_decode filt" and "t = py_decode topic"
  have e: "py_encode f = filt" "py_encode t = topic" using v mqtt_utf8_decode by (simp_all add: f_def t_def)
  have s: "list_all scalar f" "list_all scalar t" by (simp_all add: f_def t_def py_decode_scalar)
  have ne: "f \<noteq> []" "t \<noteq> []" using e v assms(3) by (auto simp: py_encode_def)
  have ls: "list_all (list_all scalar) (py_split f)" "list_all (list_all scalar) (py_split t)"
    using s py_split_subset by (fastforce simp: list_all_iff)+
  have "match_levels (levels filt) (levels topic) = py_match (py_split f) (py_split t)"
    using levels_py_encode [OF s(1)] levels_py_encode [OF s(2)] match_levels_py [OF ls] e by simp
  moreover have "hd topic = dollar \<longleftrightarrow> take 1 t = [0x24]" "hd filt = plus_wild \<longleftrightarrow> take 1 f = [0x2B]"
    "hd filt = hash_wild \<longleftrightarrow> take 1 f = [0x23]"
    using hd_py_encode [OF s(2) ne(2), of "0x24"] hd_py_encode [OF s(1) ne(1), of "0x2B"]
      hd_py_encode [OF s(1) ne(1), of "0x23"] e by simp_all
  ultimately show ?thesis
    using v assms(3) by (simp add: topic_matches_levels stub_topic_matches_levels f_def t_def) 
qed

theorem matchers_agree_witness:
  "is_valid_filter [0x61, 0x2F, 0x2B] \<and> stub_topic_matches (py_decode [0x61, 0x2F, 0x2B]) (py_decode [0x61, 0x2F, 0xC3, 0xA9])
   \<and> topic_matches [0x61, 0x2F, 0x2B] [0x61, 0x2F, 0xC3, 0xA9]"
proof -
  have "is_valid_mqtt_string [0x61, 0x2F, 0x2B]" "filter_loop [0x61, 0x2F, 0x2B] 0 0"
    and t: "is_valid_mqtt_string [0x61, 0x2F, 0xC3, 0xA9]" by code_simp+
  then have f: "is_valid_filter [0x61, 0x2F, 0x2B]" by (simp add: is_valid_filter_def)
  have "match_loop [0x61, 0x2F, 0x2B] [0x61, 0x2F, 0xC3, 0xA9] 0 0" by code_simp
  then have "topic_matches [0x61, 0x2F, 0x2B] [0x61, 0x2F, 0xC3, 0xA9]" by (simp add: topic_matches_def)
  then show ?thesis using f matchers_agree [OF f t] by simp
qed

end
