(* ===== verification/Stub_Broker.thy ===== *)
theory Stub_Broker
  imports Stub_Text "HOL-Library.Sublist"
begin

text \<open>
  The session of \<^verbatim>\<open>tools/stub_broker.py\<close>: the class \<open>Peer\<close>, the handlers of PUBLISH, SUBSCRIBE and
  UNSUBSCRIBE, the loop of \<open>serve\<close> and the accept loop of \<open>main\<close>.

  A socket is what its operations do next: the chunks and exceptions that \<open>recv\<close> meets (after the
  last one the peer has closed), and the failures of \<open>sendall\<close>, each with the number of bytes that
  still went out. Methods are functions from the peer to a result or an exception and the peer
  afterwards. Integers that are read from one byte or stored in one are bytes. The log holds the
  messages of \<open>say\<close> with their arguments in place of the formatted text.
\<close>

section \<open>Python objects\<close>

datatype py_exn = IndexError | OverflowError | ValueError | SocketTimeout | ConnectionReset | BrokenPipe

datatype sock_event = Chunk bytes | Fault py_exn

record py_sock =
  sk_rx :: "sock_event list"
  sk_tx :: bytes
  sk_faults :: "(nat \<times> py_exn) option list"

datatype say_msg =
    SayNewConnection | SayClosed | SayTimeout | SayReset | SayClientClosed | SayDropping int
  | SayReceived u8 | SayReceivedPublish u8 u8 u8 nat pystr nat
  | SaySendingAck u8 nat | SaySendingPublish u8 nat pystr | SaySendingConnack int int
  | SayGranted pystr u8 | SaySendingSuback nat "u8 list" | SayRemoved pystr
  | SaySendingPingresp | SayDisconnected

record peer =
  p_sock :: py_sock
  p_out :: "say_msg list"
  p_subs :: "(pystr \<times> u8) list"
  p_next_id :: nat
  p_pending_qos2 :: "nat list"
  p_packets :: nat

definition new_peer :: "py_sock \<Rightarrow> say_msg list \<Rightarrow> peer" where
  "new_peer sock out = \<lparr>p_sock = sock, p_out = out, p_subs = [], p_next_id = 0, p_pending_qos2 = [],
     p_packets = 0\<rparr>"

type_synonym 'a py = "peer \<Rightarrow> (py_exn + 'a) \<times> peer"

definition py_return :: "'a \<Rightarrow> 'a py" where
  "py_return x p = (Inr x, p)"

definition py_lift :: "py_exn + 'a \<Rightarrow> 'a py" where
  "py_lift r p = (r, p)"

definition py_bind :: "'a py \<Rightarrow> ('a \<Rightarrow> 'b py) \<Rightarrow> 'b py" where
  "py_bind m f p = (case m p of (Inl e, p') \<Rightarrow> (Inl e, p') | (Inr x, p') \<Rightarrow> f x p')"

abbreviation py_then :: "unit py \<Rightarrow> 'b py \<Rightarrow> 'b py" where
  "py_then m k \<equiv> py_bind m (\<lambda>_. k)"

definition py_modify :: "(peer \<Rightarrow> peer) \<Rightarrow> unit py" where
  "py_modify f p = (Inr (), f p)"

text \<open>\<open>int.from_bytes(..., "big")\<close>, \<open>n.to_bytes(2, "big")\<close>, \<open>bytes([n])\<close> and slices.\<close>

definition from_bytes :: "bytes \<Rightarrow> nat" where
  "from_bytes bs = foldl (\<lambda>n b. n * 256 + unat b) 0 bs"

definition to_bytes2 :: "nat \<Rightarrow> py_exn + bytes" where
  "to_bytes2 n = (if n < 65536 then Inr [word_of_nat (n div 256), word_of_nat (n mod 256)] else Inl OverflowError)"

definition py_byte :: "int \<Rightarrow> py_exn + bytes" where
  "py_byte n = (if 0 \<le> n \<and> n < 256 then Inr [word_of_int n] else Inl ValueError)"

definition py_slice :: "bytes \<Rightarrow> nat \<Rightarrow> nat \<Rightarrow> bytes" where
  "py_slice bs i j = take (j - i) (drop i bs)"

text \<open>Assignment to a key and \<open>pop\<close> of a dictionary, which keeps the order of insertion.\<close>

fun dict_set :: "'k \<Rightarrow> 'v \<Rightarrow> ('k \<times> 'v) list \<Rightarrow> ('k \<times> 'v) list" where
  "dict_set k v [] = [(k, v)]"
| "dict_set k v ((k', v') # d) = (if k' = k then (k, v) # d else (k', v') # dict_set k v d)"

definition dict_del :: "'k \<Rightarrow> ('k \<times> 'v) list \<Rightarrow> ('k \<times> 'v) list" where
  "dict_del k d = filter (\<lambda>(k', _). k' \<noteq> k) d"

section \<open>Wire helpers\<close>

definition say :: "say_msg \<Rightarrow> unit py" where
  "say m = py_modify (\<lambda>p. p\<lparr>p_out := p_out p @ [m]\<rparr>)"

fun recv :: "nat \<Rightarrow> sock_event list \<Rightarrow> (py_exn + bytes) \<times> sock_event list" where
  "recv n [] = (Inr [], [])"
| "recv n (Fault e # es) = (Inl e, es)"
| "recv n (Chunk c # es) =
     (if c = [] then recv n es
      else (Inr (take n c), if length c \<le> n then es else Chunk (drop n c) # es))"

text \<open>A bound on the bytes and events to come, for the loops that read them.\<close>

definition rx_size :: "sock_event list \<Rightarrow> nat" where
  "rx_size es = (\<Sum>e\<leftarrow>es. case e of Chunk c \<Rightarrow> Suc (length c) | Fault _ \<Rightarrow> 1)"

lemma rx_size_simps [simp]: "rx_size [] = 0" "rx_size (Fault x # es) = Suc (rx_size es)"
  "rx_size (Chunk c # es) = Suc (length c + rx_size es)"
  by (simp_all add: rx_size_def)

lemma recv_size: "recv n es = (r, es') \<Longrightarrow> rx_size es' \<le> rx_size es"
  by (induction n es rule: recv.induct) (auto split: if_splits)

lemma recv_progress: "recv n es = (Inr (b # bs), es') \<Longrightarrow> rx_size es' < rx_size es"
proof (induction n es rule: recv.induct)
  case (3 n c es)
  then show ?case by (cases n) (auto split: if_splits)
qed simp_all

function recv_loop :: "nat \<Rightarrow> bytes \<Rightarrow> sock_event list \<Rightarrow> (py_exn + bytes option) \<times> sock_event list" where
  "recv_loop n buf es =
     (if length buf < n then
        (case recv (n - length buf) es of
           (Inl e, es) \<Rightarrow> (Inl e, es)
         | (Inr chunk, es) \<Rightarrow> if chunk = [] then (Inr None, es) else recv_loop n (buf @ chunk) es)
      else (Inr (Some buf), es))"
  by pat_completeness auto
termination
proof (relation "measure (\<lambda>(n, buf, es). rx_size es)", goal_cases)
  case (2 n buf es r es' chunk)
  then show ?case using recv_progress [of "n - length buf" es "hd chunk" "tl chunk" es'] by simp
qed simp

declare recv_loop.simps [simp del]

definition recv_exact :: "nat \<Rightarrow> bytes option py" where
  "recv_exact n p =
     (case recv_loop n [] (sk_rx (p_sock p)) of
        (r, es) \<Rightarrow> (r, p\<lparr>p_sock := (p_sock p)\<lparr>sk_rx := es\<rparr>\<rparr>))"

text \<open>The loop over the bytes of the remaining length: at most four, the last one counted whether
  or not its continuation bit is set.\<close>

primrec length_loop :: "nat \<Rightarrow> nat \<Rightarrow> nat \<Rightarrow> nat option py" where
  "length_loop 0 mult len = py_return (Some len)"
| "length_loop (Suc k) mult len =
     py_bind (recv_exact 1) (\<lambda>b.
       case b of
         None \<Rightarrow> py_return None
       | Some b \<Rightarrow>
           let len = len + unat (b ! 0 AND 0x7F) * mult in
           if b ! 0 AND 0x80 = 0 then py_return (Some len) else length_loop k (mult * 128) len)"

lemma length_loop_code [code]:
  "length_loop k mult len =
     (if k = 0 then py_return (Some len)
      else py_bind (recv_exact 1) (\<lambda>b.
        case b of
          None \<Rightarrow> py_return None
        | Some b \<Rightarrow>
            let len = len + unat (b ! 0 AND 0x7F) * mult in
            if b ! 0 AND 0x80 = 0 then py_return (Some len) else length_loop (k - 1) (mult * 128) len))"
proof (cases k)
  case (Suc j)
  show ?thesis unfolding Suc by (simp only: length_loop.simps nat.distinct if_False diff_Suc_1)
qed simp

definition read_body :: "nat \<Rightarrow> bytes option py" where
  "read_body len = (if len \<noteq> 0 then recv_exact len else py_return (Some []))"

definition read_packet :: "(u8 \<times> bytes) option py" where
  "read_packet =
     py_bind (recv_exact 1) (\<lambda>head.
       case head of
         None \<Rightarrow> py_return None
       | Some head \<Rightarrow>
           py_bind (length_loop 4 1 0) (\<lambda>len.
             case len of
               None \<Rightarrow> py_return None
             | Some len \<Rightarrow>
                 py_bind (read_body len) (\<lambda>body.
                   case body of
                     None \<Rightarrow> py_return None
                   | Some body \<Rightarrow>
                       py_then (py_modify (\<lambda>p. p\<lparr>p_packets := p_packets p + 1\<rparr>))
                         (py_return (Some (head ! 0, body))))))"

definition sendall :: "bytes \<Rightarrow> unit py" where
  "sendall bs p =
     (let sock = p_sock p in
      case sk_faults sock of
        Some (k, e) # fs \<Rightarrow>
          (Inl e, p\<lparr>p_sock := sock\<lparr>sk_tx := sk_tx sock @ take k bs, sk_faults := fs\<rparr>\<rparr>)
      | fs \<Rightarrow> (Inr (), p\<lparr>p_sock := sock\<lparr>sk_tx := sk_tx sock @ bs, sk_faults := tl fs\<rparr>\<rparr>))"

definition stub_send :: "u8 \<Rightarrow> bytes \<Rightarrow> unit py" where
  "stub_send first body = sendall ([first] @ encode_len (length body) @ body)"

definition stub_send_ack :: "u8 \<Rightarrow> nat \<Rightarrow> u8 \<Rightarrow> unit py" where
  "stub_send_ack ptype packet_id flags =
     py_bind (py_lift (to_bytes2 packet_id)) (\<lambda>b.
       py_then (stub_send (push_bit 4 ptype OR flags) b) (say (SaySendingAck ptype packet_id)))"

definition alloc_id :: "nat py" where
  "alloc_id p = (let i = p_next_id p mod 65535 + 1 in (Inr i, p\<lparr>p_next_id := i\<rparr>))"

section \<open>Session\<close>

text \<open>The body of the loop over the subscriptions, and the loop.\<close>

definition deliver_one :: "pystr \<Rightarrow> bytes \<Rightarrow> u8 \<Rightarrow> pystr \<Rightarrow> u8 \<Rightarrow> unit py" where
  "deliver_one topic payload published_qos filt granted =
     (if \<not> stub_topic_matches filt topic then py_return ()
      else
        let qos = min published_qos granted in
        py_bind (py_lift (to_bytes2 (length topic))) (\<lambda>len.
        py_bind (if qos \<noteq> 0 then alloc_id else py_return 0) (\<lambda>packet_id.
        py_bind (if qos \<noteq> 0 then py_lift (to_bytes2 packet_id) else py_return []) (\<lambda>id_bytes.
        py_then (if qos = 2
                 then py_modify (\<lambda>p. p\<lparr>p_pending_qos2 := List.insert packet_id (p_pending_qos2 p)\<rparr>)
                 else py_return ())
       (py_then (stub_send (push_bit 4 3 OR push_bit 1 qos) (len @ py_encode topic @ id_bytes @ payload))
                (say (SaySendingPublish qos packet_id topic)))))))"

primrec deliver_loop :: "(pystr \<times> u8) list \<Rightarrow> pystr \<Rightarrow> bytes \<Rightarrow> u8 \<Rightarrow> unit py" where
  "deliver_loop [] topic payload qos = py_return ()"
| "deliver_loop (item # items) topic payload qos =
     py_then (deliver_one topic payload qos (fst item) (snd item)) (deliver_loop items topic payload qos)"

definition deliver :: "pystr \<Rightarrow> bytes \<Rightarrow> u8 \<Rightarrow> unit py" where
  "deliver topic payload published_qos p = deliver_loop (p_subs p) topic payload published_qos p"

definition stub_handle_publish :: "u8 \<Rightarrow> bytes \<Rightarrow> unit py" where
  "stub_handle_publish flags body =
     (let qos = drop_bit 1 flags AND 3; dup = drop_bit 3 flags AND 1; retain = flags AND 1;
          tlen = from_bytes (py_slice body 0 2);
          topic = py_decode (py_slice body 2 (2 + tlen));
          off = 2 + tlen;
          packet_id = (if qos \<noteq> 0 then from_bytes (py_slice body off (off + 2)) else 0);
          payload = drop (if qos \<noteq> 0 then off + 2 else off) body in
      py_then (say (SayReceivedPublish dup qos retain packet_id topic (length payload)))
     (py_then (if qos = 1 then stub_send_ack 4 packet_id 0
               else if qos = 2 then stub_send_ack 5 packet_id 0 else py_return ())
              (deliver topic payload qos)))"

function subscribe_loop :: "bytes \<Rightarrow> nat \<Rightarrow> u8 list \<Rightarrow> u8 list py" where
  "subscribe_loop body off granted =
     (if off + 2 \<le> length body then
        let tlen = from_bytes (py_slice body off (off + 2));
            filt = py_decode (py_slice body (off + 2) (off + 2 + tlen)) in
        if length body \<le> off + 2 + tlen then py_lift (Inl IndexError)
        else
          let qos = body ! (off + 2 + tlen) in
          py_then (py_modify (\<lambda>p. p\<lparr>p_subs := dict_set filt qos (p_subs p)\<rparr>))
         (py_then (say (SayGranted filt qos))
                  (subscribe_loop body (off + (2 + tlen + 1)) (granted @ [qos])))
      else py_return granted)"
  by pat_completeness auto
termination by (relation "measure (\<lambda>(body, off, granted). length body - off)") auto

declare subscribe_loop.simps [simp del]

definition stub_handle_subscribe :: "bytes \<Rightarrow> unit py" where
  "stub_handle_subscribe body =
     (let packet_id = from_bytes (py_slice body 0 2) in
      py_bind (subscribe_loop body 2 []) (\<lambda>granted.
      py_bind (py_lift (to_bytes2 packet_id)) (\<lambda>b.
      py_then (stub_send (push_bit 4 9) (b @ granted)) (say (SaySendingSuback packet_id granted)))))"

definition pop_filter :: "pystr \<Rightarrow> unit py" where
  "pop_filter filt p =
     (if filt \<in> fst ` set (p_subs p)
      then say (SayRemoved filt) (p\<lparr>p_subs := dict_del filt (p_subs p)\<rparr>) else (Inr (), p))"

function unsubscribe_loop :: "bytes \<Rightarrow> nat \<Rightarrow> unit py" where
  "unsubscribe_loop body off =
     (if off + 2 \<le> length body then
        let tlen = from_bytes (py_slice body off (off + 2));
            filt = py_decode (py_slice body (off + 2) (off + 2 + tlen)) in
        py_then (pop_filter filt) (unsubscribe_loop body (off + (2 + tlen)))
      else py_return ())"
  by pat_completeness auto
termination by (relation "measure (\<lambda>(body, off). length body - off)") auto

declare unsubscribe_loop.simps [simp del]

definition stub_handle_unsubscribe :: "bytes \<Rightarrow> unit py" where
  "stub_handle_unsubscribe body =
     (let packet_id = from_bytes (py_slice body 0 2) in
      py_then (unsubscribe_loop body 2) (stub_send_ack 11 packet_id 0))"

record stub_args =
  a_once :: bool
  a_session_present :: bool
  a_refuse :: int
  a_drop_after :: int

text \<open>The part of the loop of \<open>serve\<close> behind \<open>read_packet\<close>: whether the loop goes on.\<close>

definition serve_packet :: "stub_args \<Rightarrow> u8 \<Rightarrow> bytes \<Rightarrow> bool py" where
  "serve_packet args first body p =
     (let ptype = drop_bit 4 first; flags = first AND 0x0F in
      if a_drop_after args \<noteq> 0 \<and> int (p_packets p) > a_drop_after args
      then py_then (say (SayDropping (a_drop_after args))) (py_return False) p
      else if ptype = 3 then py_then (stub_handle_publish flags body) (py_return True) p
      else
        py_then (say (SayReceived ptype))
          (if ptype = 1 then
             (if a_refuse args \<noteq> 0 then
                py_bind (py_lift (py_byte (a_refuse args))) (\<lambda>code.
                py_then (stub_send (push_bit 4 2) ([0] @ code))
               (py_then (say (SaySendingConnack 0 (a_refuse args))) (py_return False)))
              else
                let sp = (if a_session_present args then 1 else 0) in
                py_then (stub_send (push_bit 4 2) [sp, 0])
               (py_then (say (SaySendingConnack (uint sp) 0)) (py_return True)))
           else if ptype = 6 then
             py_then (stub_send_ack 7 (from_bytes (py_slice body 0 2)) 0) (py_return True)
           else if ptype = 5 then
             (let packet_id = from_bytes (py_slice body 0 2) in
              py_then (py_modify (\<lambda>p. p\<lparr>p_pending_qos2 := removeAll packet_id (p_pending_qos2 p)\<rparr>))
             (py_then (stub_send_ack 6 packet_id 2) (py_return True)))
           else if ptype = 4 \<or> ptype = 7 then py_return True
           else if ptype = 8 then py_then (stub_handle_subscribe body) (py_return True)
           else if ptype = 10 then py_then (stub_handle_unsubscribe body) (py_return True)
           else if ptype = 12 then
             py_then (stub_send (push_bit 4 13) []) (py_then (say SaySendingPingresp) (py_return True))
           else if ptype = 14 then py_then (say SayDisconnected) (py_return False)
           else py_return True) p)"

definition serve_step :: "stub_args \<Rightarrow> bool py" where
  "serve_step args p =
     (case read_packet p of
        (Inl e, p) \<Rightarrow>
          if e = SocketTimeout then py_then (say SayTimeout) (py_return False) p
          else if e = ConnectionReset then py_then (say SayReset) (py_return False) p
          else (Inl e, p)
      | (Inr None, p) \<Rightarrow> py_then (say SayClientClosed) (py_return False) p
      | (Inr (Some (first, body)), p) \<Rightarrow> serve_packet args first body p)"

section \<open>What the handlers leave alone\<close>

text \<open>A relation between the peer before and after that each primitive effect respects holds across
  every handler.\<close>

locale peer_frame =
  fixes R :: "peer \<Rightarrow> peer \<Rightarrow> bool"
  assumes refl: "R p p"
    and trans: "R p q \<Longrightarrow> R q r \<Longrightarrow> R p r"
    and out: "R p (p\<lparr>p_out := p_out p @ [m]\<rparr>)"
    and sent: "R p (p\<lparr>p_sock := (p_sock p)\<lparr>sk_tx := sk_tx (p_sock p) @ bs, sk_faults := fs\<rparr>\<rparr>)"
    and subs: "R p (p\<lparr>p_subs := d\<rparr>)"
    and pending: "R p (p\<lparr>p_pending_qos2 := ids\<rparr>)"
    and next_id: "R p (p\<lparr>p_next_id := n mod 65535 + 1\<rparr>)"
begin

definition keeps :: "'a py \<Rightarrow> bool" where
  "keeps m \<longleftrightarrow> (\<forall>p. R p (snd (m p)))"

lemma keepsD: "keeps m \<Longrightarrow> R p (snd (m p))"
  by (simp add: keeps_def)

lemma keeps_bind: "keeps m \<Longrightarrow> (\<And>x. keeps (f x)) \<Longrightarrow> keeps (py_bind m f)"
  unfolding keeps_def py_bind_def
proof
  fix p assume m: "\<forall>p. R p (snd (m p))" and f: "\<And>x. \<forall>p. R p (snd (f x p))"
  obtain r q where q: "m p = (r, q)" by fastforce
  with m have "R p q" by (metis snd_conv)
  then show "R p (snd (case m p of (Inl e, p') \<Rightarrow> (Inl e, p') | (Inr x, p') \<Rightarrow> f x p'))"
    using f trans by (cases r) (auto simp: q)
qed

lemma keeps_return: "keeps (py_return x)" "keeps (py_lift r)"
  by (simp_all add: keeps_def py_return_def py_lift_def refl)

lemma keeps_say: "keeps (say m)"
  by (simp add: keeps_def say_def py_modify_def out)

lemma keeps_if: "keeps m \<Longrightarrow> keeps n \<Longrightarrow> keeps (if b then m else n)"
  by simp

lemma keeps_send: "keeps (stub_send first body)" "keeps (stub_send_ack ptype pid flags)"
proof -
  have "keeps (sendall bs)" for bs
    by (auto simp: keeps_def sendall_def Let_def sent split: list.splits option.splits)
  then show s: "keeps (stub_send first body)" for first body by (simp add: stub_send_def)
  show "keeps (stub_send_ack ptype pid flags)" unfolding stub_send_ack_def
    by (intro keeps_bind keeps_return keeps_say s)
qed

lemma keeps_modify:
  "keeps (py_modify (\<lambda>p. p\<lparr>p_subs := f p\<rparr>))" "keeps (py_modify (\<lambda>p. p\<lparr>p_pending_qos2 := g p\<rparr>))"
  by (simp_all add: keeps_def py_modify_def subs pending)

lemma keeps_alloc_id: "keeps alloc_id"
  by (simp add: keeps_def alloc_id_def Let_def next_id [simplified])

lemmas keeps_intros = keeps_return keeps_say keeps_send keeps_modify keeps_alloc_id keeps_if keeps_bind

lemma keeps_deliver: "keeps (deliver topic payload qos)"
proof -
  have "keeps (deliver_one topic payload qos filt granted)" for filt granted
    unfolding deliver_one_def Let_def by (intro keeps_intros)
  then have "keeps (deliver_loop items topic payload qos)" for items
    by (induction items) (auto intro: keeps_intros)
  then show ?thesis by (simp add: keeps_def deliver_def)
qed

lemma keeps_subscribe_loop: "keeps (subscribe_loop body off granted)"
proof (induction body off granted rule: subscribe_loop.induct)
  case (1 body off granted)
  then show ?case by (subst subscribe_loop.simps) (auto simp: Let_def intro!: keeps_intros)
qed

lemma keeps_unsubscribe_loop: "keeps (unsubscribe_loop body off)"
proof (induction body off rule: unsubscribe_loop.induct)
  case (1 body off)
  have "keeps (pop_filter filt)" for filt
    unfolding keeps_def pop_filter_def using refl trans [OF subs keepsD [OF keeps_say]] by simp
  with 1 show ?case by (subst unsubscribe_loop.simps) (auto simp: Let_def intro!: keeps_intros)
qed

lemma keeps_handlers: "keeps (stub_handle_publish flags body)" "keeps (stub_handle_subscribe body)"
  "keeps (stub_handle_unsubscribe body)"
  unfolding stub_handle_publish_def stub_handle_subscribe_def stub_handle_unsubscribe_def Let_def
  by (intro keeps_intros keeps_deliver keeps_subscribe_loop keeps_unsubscribe_loop)+

lemma keeps_serve_packet: "keeps (serve_packet args first body)"
  unfolding keeps_def serve_packet_def Let_def
  by (intro allI) (simp only: if_distrib [of snd] split: if_split, intro conjI impI keepsD keeps_intros keeps_handlers)

end

text \<open>The handlers read nothing, take nothing back that was sent or logged, and keep the
  identifiers in range.\<close>

interpretation reading: peer_frame "\<lambda>p q. sk_rx (p_sock q) = sk_rx (p_sock p) \<and> p_packets q = p_packets p"
  by unfold_locales simp_all

interpretation growing: peer_frame "\<lambda>p q. prefix (sk_tx (p_sock p)) (sk_tx (p_sock q)) \<and> prefix (p_out p) (p_out q)"
  by unfold_locales auto

interpretation ids: peer_frame "\<lambda>p q. p_next_id p \<le> 65535 \<longrightarrow> p_next_id q \<le> 65535"
  by unfold_locales (simp_all add: less_imp_le_nat Suc_le_eq)

section \<open>Reading a packet\<close>

abbreviation rx :: "peer \<Rightarrow> sock_event list" where "rx p \<equiv> sk_rx (p_sock p)"

abbreviation set_rx :: "sock_event list \<Rightarrow> peer \<Rightarrow> peer" where
  "set_rx es p \<equiv> p\<lparr>p_sock := (p_sock p)\<lparr>sk_rx := es\<rparr>\<rparr>"

lemma recv_loop_size: "recv_loop n buf es = (r, es') \<Longrightarrow> rx_size es' \<le> rx_size es"
proof (induction n buf es arbitrary: r es' rule: recv_loop.induct)
  case (1 n buf es)
  then show ?case
    using recv_size [of "n - length buf" es]
    by (subst (asm) (2) recv_loop.simps) (fastforce split: if_splits sum.splits prod.splits)
qed

lemma recv_loop_progress:
  assumes "recv_loop n [] es = (Inr (Some b), es')" and "0 < n"
  shows "rx_size es' < rx_size es"
proof -
  from assms obtain chunk es1 where c: "recv n es = (Inr chunk, es1)" "chunk \<noteq> []"
      "recv_loop n chunk es1 = (Inr (Some b), es')"
    by (subst (asm) recv_loop.simps) (auto split: if_splits sum.splits prod.splits)
  then show ?thesis
    using recv_progress [of n es "hd chunk" "tl chunk" es1] recv_loop_size [OF c(3)] by simp
qed

lemma recv_exact_size:
  "recv_exact n p = (r, q) \<Longrightarrow> rx_size (rx q) \<le> rx_size (rx p)"
  "recv_exact n p = (Inr (Some b), q) \<Longrightarrow> 0 < n \<Longrightarrow> rx_size (rx q) < rx_size (rx p)"
  by (auto simp: recv_exact_def split: prod.splits dest: recv_loop_size recv_loop_progress)

lemma length_loop_size: "length_loop k mult len p = (r, q) \<Longrightarrow> rx_size (rx q) \<le> rx_size (rx p)"
proof (induction k arbitrary: mult len p r q)
  case (Suc k)
  then show ?case
    by (fastforce simp: py_bind_def py_return_def Let_def split: prod.splits sum.splits option.splits if_splits
        dest: recv_exact_size(1) le_trans)
qed (simp add: py_return_def)

lemma read_body_size: "rx_size (rx (snd (read_body n p))) \<le> rx_size (rx p)"
  using recv_exact_size(1) [of n p] by (auto simp: read_body_def py_return_def intro: prod.collapse [symmetric])

lemma read_packet_size:
  assumes "read_packet p = (r, q)"
  shows "rx_size (rx q) \<le> rx_size (rx p) \<and> (r = Inr (Some pkt) \<longrightarrow> rx_size (rx q) < rx_size (rx p))"
proof -
  obtain r1 p1 where h: "recv_exact 1 p = (r1, p1)" by fastforce
  note le1 = recv_exact_size(1) [OF h]
  show ?thesis
  proof (cases "\<exists>head. r1 = Inr (Some head)")
    case True
    then obtain head where head: "recv_exact 1 p = (Inr (Some head), p1)" using h by auto
    note less = recv_exact_size(2) [OF head zero_less_one]
    obtain r2 p2 where l: "length_loop 4 1 0 p1 = (r2, p2)" by fastforce
    note le2 = length_loop_size [OF l]
    have "q = p2 \<or> (\<exists>n. rx q = rx (snd (read_body n p2)))"
    proof (cases "\<exists>n. r2 = Inr (Some n)")
      case True
      then obtain n where n: "length_loop 4 1 0 p1 = (Inr (Some n), p2)" using l by auto
      obtain r3 p3 where "read_body n p2 = (r3, p3)" by fastforce
      then have "rx q = rx (snd (read_body n p2))" using assms n head
        by (auto simp: read_packet_def py_bind_def py_return_def py_modify_def simp del: One_nat_def
            split: sum.splits option.splits)
      then show ?thesis by blast
    next
      case False
      then show ?thesis using assms l head
        by (cases r2) (auto simp: read_packet_def py_bind_def py_return_def simp del: One_nat_def split: option.splits)
    qed
    then have "rx_size (rx q) \<le> rx_size (rx p2)" using read_body_size [of _ p2] by auto
    then show ?thesis using less le2 by linarith
  next
    case False
    then show ?thesis using assms h le1
      by (cases r1) (auto simp: read_packet_def py_bind_def py_return_def simp del: One_nat_def split: option.splits)
  qed
qed

lemma serve_step_size:
  assumes "serve_step args p = (Inr True, q)"
  shows "rx_size (rx q) < rx_size (rx p)"
proof -
  obtain first body p1 where r: "read_packet p = (Inr (Some (first, body)), p1)"
      and s: "serve_packet args first body p1 = (Inr True, q)"
    using assms by (auto simp: serve_step_def say_def py_bind_def py_modify_def py_return_def
        split: prod.splits sum.splits option.splits if_splits)
  have "rx q = rx p1" using reading.keepsD [OF reading.keeps_serve_packet [of args first body], of p1] s by simp
  then show ?thesis using read_packet_size [OF r] by simp
qed

function serve :: "stub_args \<Rightarrow> unit py" where
  "serve args p =
     (case serve_step args p of
        (Inl e, p) \<Rightarrow> (Inl e, p)
      | (Inr False, p) \<Rightarrow> (Inr (), p)
      | (Inr True, p) \<Rightarrow> serve args p)"
  by pat_completeness auto
termination by (relation "measure (\<lambda>(args, p). rx_size (rx p))") (auto simp: serve_step_size)

declare serve.simps [simp del]

text \<open>The accept loop over the connections that arrive before the interrupt: the exit status or
  the exception that ends the script, and the peers it served.\<close>

fun stub_main :: "stub_args \<Rightarrow> py_sock list \<Rightarrow> (py_exn + int) \<times> peer list" where
  "stub_main args [] = (Inr 0, [])"
| "stub_main args (sock # socks) =
     (case serve args (new_peer sock [SayNewConnection]) of
        (r, p) \<Rightarrow>
          let p = snd (say SayClosed p) in
          case r of
            Inl e \<Rightarrow> (Inl e, [p])
          | Inr _ \<Rightarrow>
              if a_once args then (Inr 0, [p])
              else (case stub_main args socks of (r, ps) \<Rightarrow> (r, p # ps)))"

end
