(* ===== verification/Stub_Session.thy ===== *)
theory Stub_Session
  imports Stub_Broker Codec_Decode
begin

text \<open>
  What the broker makes of the packets the library's encoders produce, and what the library's
  decoders make of its answers. The bytes may arrive in any chunks.
\<close>

section \<open>Chunks\<close>

text \<open>The bytes that arrive before the first failure of \<open>recv\<close>.\<close>

fun avail :: "sock_event list \<Rightarrow> bytes" where
  "avail [] = []"
| "avail (Chunk c # es) = c @ avail es"
| "avail (Fault e # es) = []"

lemma recv_avail:
  "avail es \<noteq> [] \<Longrightarrow> 0 < n \<Longrightarrow> \<exists>k es'. recv n es = (Inr (take k (avail es)), es')
     \<and> 0 < k \<and> k \<le> n \<and> k \<le> length (avail es) \<and> avail es' = drop k (avail es)"
proof (induction n es rule: recv.induct)
  case (3 n c es)
  show ?case
  proof (cases "c = []")
    case False
    then show ?thesis using 3(3) by (intro exI [of _ "min n (length c)"]) (auto simp: min_def)
  qed (use 3 in auto)
qed simp_all

lemma recv_loop_avail:
  assumes "length buf \<le> n" and "n - length buf \<le> length (avail es)"
  shows "\<exists>es'. recv_loop n buf es = (Inr (Some (buf @ take (n - length buf) (avail es))), es')
     \<and> avail es' = drop (n - length buf) (avail es)"
  using assms
proof (induction n buf es rule: recv_loop.induct)
  case (1 n buf es)
  show ?case
  proof (cases "length buf < n")
    case True
    then have "avail es \<noteq> []" using "1.prems" by auto
    then obtain k es' where r: "recv (n - length buf) es = (Inr (take k (avail es)), es')"
        "0 < k" "k \<le> n - length buf" "k \<le> length (avail es)" "avail es' = drop k (avail es)"
      using recv_avail [of es "n - length buf"] True by auto
    have m: "n - length (buf @ take k (avail es)) = n - length buf - k" using r by simp
    have "take (n - length buf) (avail es) = take k (avail es) @ take (n - length buf - k) (drop k (avail es))"
      using take_add [of k "n - length buf - k" "avail es"] r(3) by (simp only: le_add_diff_inverse)
    moreover have "drop (n - length buf - k) (drop k (avail es)) = drop (n - length buf) (avail es)"
      using r(3) by (simp only: drop_drop le_add_diff_inverse2)
    ultimately show ?thesis
      using "1.IH" [OF True r(1) [symmetric] refl] r True "1.prems" m
      by (subst recv_loop.simps) auto
  qed (use "1.prems" in \<open>auto simp: recv_loop.simps [of n buf es]\<close>)
qed

lemma recv_exact_avail:
  assumes "avail (rx p) = bs @ rest"
  shows "\<exists>es. recv_exact (length bs) p = (Inr (Some bs), set_rx es p) \<and> avail es = rest"
  using recv_loop_avail [of "[]" "length bs" "rx p"] assms by (auto simp: recv_exact_def)

lemma length_loop_avail:
  "length (vbi_encode_loop v) \<le> k \<Longrightarrow> avail (rx p) = vbi_encode_loop v @ rest \<Longrightarrow>
   \<exists>es. length_loop k mult len p = (Inr (Some (len + unat v * mult)), set_rx es p) \<and> avail es = rest"
proof (induction v arbitrary: k mult len p rule: vbi_encode_loop.induct)
  case (1 v)
  obtain b bs where v: "vbi_encode_loop v = b # bs"
    by (cases "v < 128") (auto simp: vbi_encode_loop_small vbi_encode_loop_large)
  then obtain k' where k: "k = Suc k'" using "1.prems"(1) by (cases k) auto
  obtain es where r: "recv_exact 1 p = (Inr (Some [b]), set_rx es p)" "avail es = bs @ rest"
    using recv_exact_avail [of p "[b]" "bs @ rest"] "1.prems"(2) v by auto
  show ?case
  proof (cases "v < 128")
    case True
    then have "b = ucast v" "bs = []" using v by (simp_all add: vbi_encode_loop_small)
    moreover have "unat (ucast v :: u8) = unat v" using True
      by (simp add: unsigned_ucast_eq word_less_nat_alt take_bit_eq_mod)
    ultimately have "b AND 0x80 = 0" "b AND 0x7F = b" "unat b = unat v" "bs = []"
      using True by (simp_all add: and_80 and_7F word_less_nat_alt)
    then show ?thesis using r by (auto simp: k py_bind_def py_return_def Let_def simp del: One_nat_def)
  next
    case False
    then have b: "b = ucast (v mod 128) OR 0x80" "bs = vbi_encode_loop (v div 128)"
      using v by (simp_all add: vbi_encode_loop_large)
    have "unat (b AND 0x7F) = unat v mod 128"
      unfolding b or_80 unat_and_7F by (simp add: unsigned_ucast_eq unat_mod_distrib take_bit_eq_mod)
    moreover have "b AND 0x80 \<noteq> 0" unfolding b by (rule or_80)
    moreover have "v div 128 > 0" using False by (simp add: word_less_nat_alt unat_div_distrib)
    then obtain es' where "length_loop k' (mult * 128) (len + unat v mod 128 * mult) (set_rx es p) =
        (Inr (Some (len + unat v mod 128 * mult + unat (v div 128) * (mult * 128))), set_rx es' (set_rx es p))"
        "avail es' = rest"
      using "1.IH" [of "ucast (v mod 128)" "v div 128" k' "set_rx es p"] "1.prems"(1) v k r(2) b by auto
    moreover have "unat v mod 128 * mult + unat (v div 128) * (mult * 128) = unat v * mult"
    proof -
      have "unat v mod 128 * mult + unat v div 128 * (mult * 128) = (unat v mod 128 + unat v div 128 * 128) * mult"
        by (simp only: algebra_simps)
      then show ?thesis by (simp add: unat_div_distrib)
    qed
    ultimately show ?thesis using r
      by (auto simp: k py_bind_def py_return_def Let_def add.assoc simp del: One_nat_def)
  qed
qed

text \<open>The broker reads any packet of the library, however it is cut.\<close>

lemma read_packet_wire:
  assumes "avail (rx p) = packet_wire h body @ rest" and "length body \<le> max_body"
  shows "\<exists>es. read_packet p = (Inr (Some (to_byte h, body)), (set_rx es p)\<lparr>p_packets := p_packets p + 1\<rparr>)
    \<and> avail es = rest"
proof -
  let ?v = "word_of_nat (length body) :: u32"
  have v: "unat ?v = length body" using assms(2) by (simp add: unat_of_nat)
  then have len: "length (vbi_encode_loop ?v) \<le> 4"
    using assms(2) by (simp add: length_vbi_encode_loop word_le_nat_alt vbi_size_def)
  obtain es where h: "recv_exact 1 p = (Inr (Some [to_byte h]), set_rx es p)"
      "avail es = vbi_encode_loop ?v @ body @ rest"
    using recv_exact_avail [of p "[to_byte h]"] assms(1) by (auto simp: packet_wire_def)
  obtain es1 where l: "length_loop 4 1 0 (set_rx es p) = (Inr (Some (length body)), set_rx es1 p)"
      "avail es1 = body @ rest"
    using length_loop_avail [OF len, of "set_rx es p" "body @ rest" 1 0] h(2) v by auto
  obtain es2 where b: "read_body (length body) (set_rx es1 p) = (Inr (Some body), set_rx es2 p)" "avail es2 = rest"
    using recv_exact_avail [of "set_rx es1 p" body rest] l(2)
    by (cases "body = []") (auto simp: read_body_def py_return_def)
  show ?thesis using h l b
    by (auto simp: read_packet_def py_bind_def py_return_def py_modify_def simp del: One_nat_def)
qed

section \<open>Sending\<close>

text \<open>A peer whose socket takes what is sent, and the same peer after it has sent something.\<close>

definition quiet :: "peer \<Rightarrow> bool" where
  "quiet p \<longleftrightarrow> sk_faults (p_sock p) = []"

abbreviation sent :: "peer \<Rightarrow> bytes" where "sent p \<equiv> sk_tx (p_sock p)"

definition emit :: "bytes \<Rightarrow> peer \<Rightarrow> peer" where
  "emit bs p = p\<lparr>p_sock := (p_sock p)\<lparr>sk_tx := sent p @ bs\<rparr>\<rparr>"

lemma emit_simps [simp]: "sent (emit bs p) = sent p @ bs" "rx (emit bs p) = rx p" "quiet (emit bs p) = quiet p"
  "p_subs (emit bs p) = p_subs p" "p_next_id (emit bs p) = p_next_id p" "p_packets (emit bs p) = p_packets p"
  "p_out (emit bs p) = p_out p" "p_pending_qos2 (emit bs p) = p_pending_qos2 p"
  by (simp_all add: emit_def quiet_def)

lemma quiet_simps [simp]: "quiet (p\<lparr>p_out := x\<rparr>) = quiet p" "quiet (p\<lparr>p_subs := d\<rparr>) = quiet p"
  "quiet (p\<lparr>p_next_id := n\<rparr>) = quiet p" "quiet (p\<lparr>p_pending_qos2 := ids\<rparr>) = quiet p"
  "quiet (p\<lparr>p_packets := n\<rparr>) = quiet p" "quiet (set_rx es p) = quiet p"
  by (simp_all add: quiet_def)

lemma stub_send_quiet:
  assumes "quiet p" and "length body \<le> max_body" and "to_byte h = first"
  shows "stub_send first body p = (Inr (), emit (packet_wire h body) p)"
  using assms encode_len_vbi [of "length body"]
  by (simp add: stub_send_def sendall_def quiet_def emit_def packet_wire_def Let_def)

lemma be16_nat: "n < 65536 \<Longrightarrow> be16 (word_of_nat n) = [word_of_nat (n div 256), word_of_nat (n mod 256)]"
proof -
  assume n: "n < 65536"
  have "unat (ucast (drop_bit 8 (word_of_nat n :: u16)) :: u8) = n div 256"
    using n by (simp add: unsigned_ucast_eq unsigned_drop_bit_eq unat_of_nat drop_bit_eq_div take_bit_eq_mod
        unat_div_distrib)
  moreover have "unat (ucast (word_of_nat n :: u16) :: u8) = n mod 256"
    using n by (simp add: unsigned_ucast_eq unat_of_nat take_bit_eq_mod)
  ultimately show ?thesis by (simp add: be16_def) (metis byte_eq)
qed

lemma to_bytes2_be16: "n < 65536 \<Longrightarrow> to_bytes2 n = Inr (be16 (word_of_nat n))"
  by (simp add: to_bytes2_def be16_nat)

lemma from_bytes_be16 [simp]: "from_bytes (be16 w) = unat w"
  using unat_of_be16 [of "ucast (drop_bit 8 w)" "ucast w"] by (simp add: from_bytes_def be16_def)

lemma to_bytes2_unat: "to_bytes2 (unat (w :: u16)) = Inr (be16 w)"
  using to_bytes2_be16 [OF unat_u16_less, of w] by simp

lemma slice_middle: "i = length pre \<Longrightarrow> j = length pre + length x \<Longrightarrow> py_slice (pre @ x @ post) i j = x"
  "i = length pre \<Longrightarrow> j = length pre + length x \<Longrightarrow> py_slice (pre @ x) i j = x"
  "i = 0 \<Longrightarrow> j = length x \<Longrightarrow> py_slice (x @ post) i j = x"
  by (simp_all add: py_slice_def)

lemma stub_send_ack_quiet:
  assumes "quiet p" and "to_byte h = push_bit 4 ptype OR flags"
  shows "stub_send_ack ptype (unat pid) flags p =
    (Inr (), (emit (packet_wire h (be16 pid)) p)\<lparr>p_out := p_out p @ [SaySendingAck ptype (unat pid)]\<rparr>)"
  using stub_send_quiet [OF assms(1) _ assms(2), of "be16 pid"]
  by (simp add: stub_send_ack_def py_bind_def py_lift_def to_bytes2_unat say_def py_modify_def)

section \<open>Subscriptions\<close>

definition subscribed :: "TopicSubscription list \<Rightarrow> (pystr \<times> u8) list \<Rightarrow> (pystr \<times> u8) list" where
  "subscribed subs d = fold (\<lambda>s. dict_set (py_decode (t_filter s)) (t_qos s)) subs d"

definition unsubscribed :: "bytes list \<Rightarrow> (pystr \<times> u8) list \<Rightarrow> (pystr \<times> u8) list" where
  "unsubscribed fs d = fold (\<lambda>f. dict_del (py_decode f)) fs d"

lemma str_wire_slices:
  assumes "length s \<le> 65535"
  shows "from_bytes (py_slice (pre @ str_wire s @ post) (length pre) (length pre + 2)) = length s"
    and "py_slice (pre @ str_wire s @ post) (length pre + 2) (length pre + 2 + length s) = s"
proof -
  let ?l = "be16 (word_of_nat (length s))"
  have "py_slice (pre @ str_wire s @ post) (length pre) (length pre + 2) = ?l"
    using slice_middle(1) [of _ pre _ ?l "s @ post"] by (simp add: str_wire_def)
  then show "from_bytes (py_slice (pre @ str_wire s @ post) (length pre) (length pre + 2)) = length s"
    using assms by (simp add: unat_of_nat)
  show "py_slice (pre @ str_wire s @ post) (length pre + 2) (length pre + 2 + length s) = s"
    using slice_middle(1) [of _ "pre @ ?l" _ s post] by (simp add: str_wire_def)
qed

lemma subscribe_loop_body:
  assumes "list_all (\<lambda>s. length (t_filter s) \<le> 65535) subs"
    and "body = pre @ concat (map (\<lambda>s. str_wire (t_filter s) @ [t_qos s]) subs)"
  shows "\<exists>out. subscribe_loop body (length pre) granted p =
    (Inr (granted @ map t_qos subs), p\<lparr>p_subs := subscribed subs (p_subs p), p_out := out\<rparr>)"
  using assms
proof (induction subs arbitrary: pre granted p)
  case Nil
  then show ?case by (subst subscribe_loop.simps) (auto simp: py_return_def subscribed_def intro: exI [of _ "p_out p"])
next
  case (Cons s subs)
  let ?f = "t_filter s" and ?r = "concat (map (\<lambda>s. str_wire (t_filter s) @ [t_qos s]) subs)"
  let ?pre = "pre @ str_wire ?f @ [t_qos s]"
  let ?p = "p\<lparr>p_subs := dict_set (py_decode ?f) (t_qos s) (p_subs p), p_out := p_out p @ [SayGranted (py_decode ?f) (t_qos s)]\<rparr>"
  have body: "body = pre @ str_wire ?f @ t_qos s # ?r" using Cons.prems by simp
  note sl = str_wire_slices [of ?f pre "t_qos s # ?r"]
  have nth: "body ! (length pre + 2 + length ?f) = t_qos s" by (simp add: body nth_append)
  have l: "length pre + (2 + length ?f + 1) = length ?pre" by simp
  from Cons.IH [of ?pre "granted @ [t_qos s]" ?p] Cons.prems obtain out where
    "subscribe_loop body (length ?pre) (granted @ [t_qos s]) ?p =
      (Inr ((granted @ [t_qos s]) @ map t_qos subs), ?p\<lparr>p_subs := subscribed subs (p_subs ?p), p_out := out\<rparr>)"
    by auto
  then show ?case using sl Cons.prems nth unfolding subscribe_loop.simps [of body "length pre"] l [symmetric]
    by (auto simp: body Let_def py_bind_def py_modify_def say_def subscribed_def)
qed

lemma pop_filter_spec: "\<exists>out. pop_filter filt p = (Inr (), p\<lparr>p_subs := dict_del filt (p_subs p), p_out := out\<rparr>)"
proof (cases "filt \<in> fst ` set (p_subs p)")
  case False
  then have "dict_del filt (p_subs p) = p_subs p" unfolding dict_del_def by (intro filter_True) force
  then show ?thesis using False by (intro exI [of _ "p_out p"]) (simp add: pop_filter_def)
qed (auto simp: pop_filter_def say_def py_modify_def)

lemma unsubscribe_loop_body:
  assumes "list_all (\<lambda>f. length f \<le> 65535) fs" and "body = pre @ concat (map str_wire fs)"
  shows "\<exists>out. unsubscribe_loop body (length pre) p =
    (Inr (), p\<lparr>p_subs := unsubscribed fs (p_subs p), p_out := out\<rparr>)"
  using assms
proof (induction fs arbitrary: pre p)
  case Nil
  then show ?case by (subst unsubscribe_loop.simps) (auto simp: py_return_def unsubscribed_def intro: exI [of _ "p_out p"])
next
  case (Cons f fs)
  have body: "body = pre @ str_wire f @ concat (map str_wire fs)" using Cons.prems by simp
  obtain out where pop: "pop_filter (py_decode f) p = (Inr (), p\<lparr>p_subs := dict_del (py_decode f) (p_subs p), p_out := out\<rparr>)"
    using pop_filter_spec by blast
  have l: "length pre + (2 + length f) = length (pre @ str_wire f)" by simp
  from Cons.IH [of "pre @ str_wire f" "p\<lparr>p_subs := dict_del (py_decode f) (p_subs p), p_out := out\<rparr>"] Cons.prems
  show ?case using str_wire_slices [of f pre "concat (map str_wire fs)"] pop
    unfolding unsubscribe_loop.simps [of body "length pre"] l [symmetric]
    by (auto simp: body Let_def py_bind_def unsubscribed_def)
qed

section \<open>Routing\<close>

text \<open>The copies of a message that the subscriptions get: quality of service and identifier of
  each, and the last identifier used.\<close>

fun route :: "nat \<Rightarrow> (pystr \<times> u8) list \<Rightarrow> pystr \<Rightarrow> u8 \<Rightarrow> (u8 \<times> nat) list \<times> nat" where
  "route i [] topic qos = ([], i)"
| "route i ((filt, granted) # subs) topic qos =
     (if stub_topic_matches filt topic then
        let q = min qos granted; j = (if q \<noteq> 0 then i mod 65535 + 1 else i);
            (es, k) = route j subs topic qos in ((q, if q \<noteq> 0 then j else 0) # es, k)
      else route i subs topic qos)"

definition echo_header :: "u8 \<Rightarrow> FixedHeader" where
  "echo_header q = (plain_header Publish)\<lparr>h_qos := q\<rparr>"

definition echo_body :: "pystr \<Rightarrow> bytes \<Rightarrow> u8 \<times> nat \<Rightarrow> bytes" where
  "echo_body topic payload e = be16 (word_of_nat (length topic)) @ py_encode topic
     @ (if fst e \<noteq> 0 then be16 (word_of_nat (snd e)) else []) @ payload"

definition echo_wire :: "pystr \<Rightarrow> bytes \<Rightarrow> u8 \<times> nat \<Rightarrow> bytes" where
  "echo_wire topic payload e = packet_wire (echo_header (fst e)) (echo_body topic payload e)"

lemma small_qos: "q \<le> 2 \<Longrightarrow> q = 0 \<or> q = 1 \<or> q = (2 :: u8)"
  using u8_below_list [of "\<lambda>q. q \<le> 2 \<longrightarrow> q = 0 \<or> q = 1 \<or> q = 2" 3 q]
  by (simp add: upt_rec word_le_nat_alt)

lemma echo_header_byte: "q \<le> 2 \<Longrightarrow> to_byte (echo_header q) = push_bit 4 3 OR push_bit 1 q"
proof -
  have "to_byte (echo_header 0) = push_bit 4 3 OR push_bit 1 0" "to_byte (echo_header 1) = push_bit 4 3 OR push_bit 1 1"
    "to_byte (echo_header 2) = push_bit 4 3 OR push_bit 1 2" by code_simp+
  then show "q \<le> 2 \<Longrightarrow> ?thesis" using small_qos [of q] by blast
qed

definition undisturbed :: "peer \<Rightarrow> peer \<Rightarrow> bool" where
  "undisturbed p q \<longleftrightarrow> quiet q = quiet p \<and> rx q = rx p \<and> p_subs q = p_subs p \<and> p_packets q = p_packets p"

lemma deliver_one_match:
  assumes "quiet p" and "length topic < 65536" and "qos \<le> 2" and "length (py_encode topic) + length payload + 4 \<le> max_body"
    and "stub_topic_matches filt topic" and "q = min qos granted"
    and "j = (if q \<noteq> 0 then p_next_id p mod 65535 + 1 else p_next_id p)"
  shows "\<exists>p'. deliver_one topic payload qos filt granted p = (Inr (), p') \<and> undisturbed p p'
    \<and> sent p' = sent p @ echo_wire topic payload (q, if q \<noteq> 0 then j else 0) \<and> p_next_id p' = j"
proof -
  let ?id = "p_next_id p mod 65535 + 1" and ?b = "\<lambda>i. echo_body topic payload (q, i)"
  have q: "q \<le> 2" using assms(3,6) by (simp add: min_le_iff_disj)
  have id: "?id < 65536" by simp
  have len: "length (?b i) \<le> max_body" for i using assms(4) by (simp add: echo_body_def)
  have snd: "stub_send (push_bit 4 3 OR push_bit 1 q) (?b i) r = (Inr (), emit (echo_wire topic payload (q, i)) r)"
    if "quiet r" for i r
    unfolding echo_wire_def using stub_send_quiet [OF that len echo_header_byte [OF q], of i] by simp
  note defs = deliver_one_def Let_def py_bind_def py_lift_def py_return_def py_modify_def say_def alloc_id_def
    to_bytes2_be16 [OF assms(2)] to_bytes2_be16 [OF id, simplified]
  show ?thesis
  proof (cases "q = 0")
    case True
    then show ?thesis using assms(1,5,7) snd [of p 0] assms(6) [symmetric]
      by (simp add: defs echo_body_def undisturbed_def)
  next
    case False
    note sends = snd [of "p\<lparr>p_next_id := ?id\<rparr>" ?id]
      snd [of "p\<lparr>p_next_id := ?id, p_pending_qos2 := List.insert ?id (p_pending_qos2 p)\<rparr>" ?id]
    show ?thesis using False assms(1,5,7) sends assms(6) [symmetric]
      by (cases "q = 2") (simp_all add: defs echo_body_def undisturbed_def)
  qed
qed

lemma deliver_loop_route:
  assumes "quiet p" and "length topic < 65536" and "qos \<le> 2"
    and "length (py_encode topic) + length payload + 4 \<le> max_body"
  shows "\<exists>p'. deliver_loop items topic payload qos p = (Inr (), p') \<and> undisturbed p p'
    \<and> sent p' = sent p @ concat (map (echo_wire topic payload) (fst (route (p_next_id p) items topic qos)))
    \<and> p_next_id p' = snd (route (p_next_id p) items topic qos)"
  using assms(1)
proof (induction items arbitrary: p)
  case Nil
  then show ?case by (simp add: py_return_def undisturbed_def)
next
  case (Cons item items)
  obtain filt granted where item: "item = (filt, granted)" by fastforce
  show ?case
  proof (cases "stub_topic_matches filt topic")
    case True
    define q j where "q = min qos granted" and "j = (if q \<noteq> 0 then p_next_id p mod 65535 + 1 else p_next_id p)"
    obtain p1 where p1: "deliver_one topic payload qos filt granted p = (Inr (), p1)" "undisturbed p p1"
        "sent p1 = sent p @ echo_wire topic payload (q, if q \<noteq> 0 then j else 0)" "p_next_id p1 = j"
      using deliver_one_match [OF Cons.prems assms(2-4) True q_def j_def] by blast
    then obtain p2 where "deliver_loop items topic payload qos p1 = (Inr (), p2)" "undisturbed p1 p2"
        "sent p2 = sent p1 @ concat (map (echo_wire topic payload) (fst (route j items topic qos)))"
        "p_next_id p2 = snd (route j items topic qos)"
      using Cons.IH [of p1] Cons.prems by (auto simp: undisturbed_def)
    moreover have "route (p_next_id p) (item # items) topic qos =
        (case route j items topic qos of (es, k) \<Rightarrow> ((q, if q \<noteq> 0 then j else 0) # es, k))"
      using True by (simp add: item q_def j_def Let_def)
    ultimately show ?thesis using p1
      by (auto simp: item py_bind_def undisturbed_def simp del: route.simps split: prod.splits)
  next
    case False
    then have "deliver_one topic payload qos filt granted p = (Inr (), p)" by (simp add: deliver_one_def py_return_def)
    then show ?thesis using False Cons by (simp add: item py_bind_def)
  qed
qed

section \<open>Requests and answers\<close>

text \<open>The packets a client sends, as the library encodes them.\<close>

datatype request =
    ReqConnect ConnectOptions | ReqPublish Message | ReqAck PacketType u16
  | ReqSubscribe u16 "TopicSubscription list" | ReqUnsubscribe u16 "bytes list"
  | ReqPing | ReqDisconnect

fun request_packet :: "request \<Rightarrow> FixedHeader \<times> bytes" where
  "request_packet (ReqConnect opts) = (plain_header Connect, connect_body opts)"
| "request_packet (ReqPublish m) = (publish_header m, publish_body m)"
| "request_packet (ReqAck ty pid) = (plain_header ty, be16 pid)"
| "request_packet (ReqSubscribe pid subs) = (plain_header Subscribe, subscribe_body pid subs)"
| "request_packet (ReqUnsubscribe pid fs) = (plain_header Unsubscribe, unsubscribe_body pid fs)"
| "request_packet ReqPing = (plain_header Pingreq, [])"
| "request_packet ReqDisconnect = (plain_header Disconnect, [])"

definition wire :: "FixedHeader \<times> bytes \<Rightarrow> bytes" where
  "wire = case_prod packet_wire"

fun request_ok :: "request \<Rightarrow> bool" where
  "request_ok (ReqConnect opts) = connect_ok opts"
| "request_ok (ReqPublish m) = (publish_ok m \<and> length (publish_body m) + 2 \<le> max_body)"
| "request_ok (ReqAck ty pid) = (ty \<in> {Puback, Pubrec, Pubrel, Pubcomp} \<and> pid \<noteq> 0)"
| "request_ok (ReqSubscribe pid subs) = (pid \<noteq> 0 \<and> subscribe_ok subs \<and> length (subscribe_body pid subs) \<le> max_body)"
| "request_ok (ReqUnsubscribe pid fs) = (pid \<noteq> 0 \<and> unsubscribe_ok fs \<and> length (unsubscribe_body pid fs) \<le> max_body)"
| "request_ok ReqPing = True"
| "request_ok ReqDisconnect = True"

text \<open>What a broker has to remember, and its reaction: the packets it sends, what it remembers
  afterwards, and whether the session goes on.\<close>

type_synonym broker_state = "(pystr \<times> u8) list \<times> nat"

definition publish_answer :: "Message \<Rightarrow> broker_state \<Rightarrow> (FixedHeader \<times> bytes) list \<times> broker_state" where
  "publish_answer m st =
     (let topic = py_decode (m_topic m); (es, i) = route (snd st) (fst st) topic (m_qos m) in
      ((if m_qos m = 1 then [(plain_header Puback, be16 (m_packet_id m))]
        else if m_qos m = 2 then [(plain_header Pubrec, be16 (m_packet_id m))] else [])
       @ map (\<lambda>e. (echo_header (fst e), echo_body topic (m_payload m) e)) es, (fst st, i)))"

fun stub_answer ::
  "stub_args \<Rightarrow> request \<Rightarrow> broker_state \<Rightarrow> (FixedHeader \<times> bytes) list \<times> broker_state \<times> bool" where
  "stub_answer args (ReqConnect opts) st =
     (let code = connack_of (word_of_int (a_refuse args)) in
      ([(plain_header Connack, connack_body \<lparr>k_code = code, k_session_present = (code = Accepted \<and> a_session_present args)\<rparr>)],
       st, code = Accepted))"
| "stub_answer args (ReqPublish m) st = (case publish_answer m st of (ps, st') \<Rightarrow> (ps, st', True))"
| "stub_answer args (ReqAck ty pid) st =
     (if ty = Pubrel then [(plain_header Pubcomp, be16 pid)]
      else if ty = Pubrec then [(plain_header Pubrel, be16 pid)] else [], st, True)"
| "stub_answer args (ReqSubscribe pid subs) st =
     ([(plain_header Suback, be16 pid @ map t_qos subs)], (subscribed subs (fst st), snd st), True)"
| "stub_answer args (ReqUnsubscribe pid fs) st =
     ([(plain_header Unsuback, be16 pid)], (unsubscribed fs (fst st), snd st), True)"
| "stub_answer args ReqPing st = ([(plain_header Pingresp, [])], st, True)"
| "stub_answer args ReqDisconnect st = ([], st, False)"

section \<open>The session implements the answers\<close>

definition answers :: "peer \<Rightarrow> (FixedHeader \<times> bytes) list \<times> broker_state \<times> bool \<Rightarrow> (py_exn + bool) \<times> peer \<Rightarrow> bool" where
  "answers p = (\<lambda>(ps, st, go) r. \<exists>p'. r = (Inr go, p') \<and> quiet p' \<and> rx p' = rx p \<and> p_packets p' = p_packets p
     \<and> sent p' = sent p @ concat (map wire ps) \<and> (p_subs p', p_next_id p') = st)"

lemma plain_bytes [wire_simps]:
  "to_byte (plain_header Connect) = 0x10" "to_byte (plain_header Connack) = 0x20"
  "to_byte (plain_header Puback) = 0x40" "to_byte (plain_header Pubrec) = 0x50"
  "to_byte (plain_header Pubrel) = 0x62" "to_byte (plain_header Pubcomp) = 0x70"
  "to_byte (plain_header Subscribe) = 0x82" "to_byte (plain_header Suback) = 0x90"
  "to_byte (plain_header Unsubscribe) = 0xA2" "to_byte (plain_header Unsuback) = 0xB0"
  "to_byte (plain_header Pingreq) = 0xC0" "to_byte (plain_header Pingresp) = 0xD0"
  "to_byte (plain_header Disconnect) = 0xE0"
  by code_simp+

lemma publish_byte:
  assumes "m_qos m \<le> 2"
  shows "drop_bit 4 (to_byte (publish_header m)) = 3"
    and "drop_bit 1 (to_byte (publish_header m) AND 0x0F) AND 3 = m_qos m"
  using small_qos [OF assms] by (auto simp: to_byte_def publish_header_def Let_def)

lemmas serve_defs = serve_packet_def answers_def Let_def py_bind_def py_return_def py_lift_def py_modify_def say_def

lemma small_refuse:
  assumes "0 \<le> n" "n \<le> 5"
  shows "n \<in> {0, 1, 2, 3, 4, 5 :: int}"
  using assms by auto

lemma serve_connect:
  assumes "quiet p" and "a_drop_after args = 0" and "0 \<le> a_refuse args" and "a_refuse args \<le> 5"
  shows "answers p (stub_answer args (ReqConnect opts) (p_subs p, p_next_id p)) (serve_packet args 0x10 body p)"
proof -
  let ?h = "plain_header Connack"
  have send: "stub_send 0x20 b r = (Inr (), emit (packet_wire ?h b) r)" if "quiet r" "length b = 2" for b r
    using stub_send_quiet [OF that(1), of b ?h] that(2) by (simp add: plain_bytes)
  have c: "connack_of 0 = Accepted" "connack_of 1 = UnacceptableProtocolVersion" "connack_of 2 = IdentifierRejected"
    "connack_of 3 = ServerUnavailable" "connack_of 4 = BadUsernameOrPassword" "connack_of 5 = NotAuthorized"
    by code_simp+
  show ?thesis using small_refuse [OF assms(3,4)] assms(1,2)
    by (auto simp: serve_defs send py_byte_def c connack_body_def wire_def)
qed

lemma serve_plain:
  assumes "quiet p" and "a_drop_after args = 0"
  shows "answers p (stub_answer args ReqPing (p_subs p, p_next_id p)) (serve_packet args 0xC0 [] p)"
    and "answers p (stub_answer args ReqDisconnect (p_subs p, p_next_id p)) (serve_packet args 0xE0 [] p)"
proof -
  have "stub_send 0xD0 [] r = (Inr (), emit (packet_wire (plain_header Pingresp) []) r)" if "quiet r" for r
    using stub_send_quiet [OF that, of "[]" "plain_header Pingresp"] by (simp add: plain_bytes)
  then show "answers p (stub_answer args ReqPing (p_subs p, p_next_id p)) (serve_packet args 0xC0 [] p)"
    using assms by (auto simp: serve_defs wire_def)
  show "answers p (stub_answer args ReqDisconnect (p_subs p, p_next_id p)) (serve_packet args 0xE0 [] p)"
    using assms by (auto simp: serve_defs)
qed

lemma slice_be16: "py_slice (be16 w @ bs) 0 2 = be16 w" "py_slice (be16 w) 0 2 = be16 w"
  using slice_middle(3) [of 0 2 "be16 w" bs] slice_middle(3) [of 0 2 "be16 w" "[]"] by simp_all

lemma serve_ack:
  assumes "quiet p" and "a_drop_after args = 0" and "ty \<in> {Puback, Pubrec, Pubrel, Pubcomp}"
  shows "answers p (stub_answer args (ReqAck ty pid) (p_subs p, p_next_id p))
    (serve_packet args (to_byte (plain_header ty)) (be16 pid) p)"
proof -
  have a: "stub_send_ack 7 (unat pid) 0 r = (Inr (), (emit (packet_wire (plain_header Pubcomp) (be16 pid)) r)\<lparr>p_out := p_out r @ [SaySendingAck 7 (unat pid)]\<rparr>)"
    "stub_send_ack 6 (unat pid) 2 r = (Inr (), (emit (packet_wire (plain_header Pubrel) (be16 pid)) r)\<lparr>p_out := p_out r @ [SaySendingAck 6 (unat pid)]\<rparr>)"
    if "quiet r" for r
    using that by (simp_all add: stub_send_ack_quiet plain_bytes)
  show ?thesis using assms by (auto simp: serve_defs plain_bytes slice_be16 a wire_def)
qed

lemma serve_subscribe:
  assumes "quiet p" and "a_drop_after args = 0" and "subscribe_ok subs" and "length (subscribe_body pid subs) \<le> max_body"
  shows "answers p (stub_answer args (ReqSubscribe pid subs) (p_subs p, p_next_id p))
    (serve_packet args 0x82 (subscribe_body pid subs) p)"
proof -
  let ?b = "subscribe_body pid subs" and ?a = "be16 pid @ map t_qos subs"
  have small: "list_all (\<lambda>s. length (t_filter s) \<le> 65535) subs"
    using assms(3) by (auto simp: subscribe_ok_def mqtt_text_def kMaxStringLen_def list_all_iff)
  have "length subs \<le> length (concat (map (\<lambda>s. str_wire (t_filter s) @ [t_qos s]) subs))" by (induction subs) auto
  then have "length ?a \<le> max_body" using assms(4) by (simp add: subscribe_body_def)
  then have send: "stub_send 0x90 ?a r = (Inr (), emit (packet_wire (plain_header Suback) ?a) r)" if "quiet r" for r
    using stub_send_quiet [OF that, of ?a "plain_header Suback"] by (simp add: plain_bytes)
  let ?p = "p\<lparr>p_out := p_out p @ [SayReceived 8]\<rparr>"
  obtain out where "subscribe_loop ?b 2 [] ?p = (Inr (map t_qos subs), ?p\<lparr>p_subs := subscribed subs (p_subs ?p), p_out := out\<rparr>)"
    using subscribe_loop_body [OF small, of ?b "be16 pid" "[]" ?p] by (auto simp: subscribe_body_def)
  moreover have "py_slice ?b 0 2 = be16 pid" by (simp add: subscribe_body_def slice_be16)
  ultimately show ?thesis using assms(1,2)
    by (auto simp: serve_defs stub_handle_subscribe_def to_bytes2_unat send wire_def)
qed

lemma serve_unsubscribe:
  assumes "quiet p" and "a_drop_after args = 0" and "unsubscribe_ok fs" and "length (unsubscribe_body pid fs) \<le> max_body"
  shows "answers p (stub_answer args (ReqUnsubscribe pid fs) (p_subs p, p_next_id p))
    (serve_packet args 0xA2 (unsubscribe_body pid fs) p)"
proof -
  let ?b = "unsubscribe_body pid fs" and ?p = "p\<lparr>p_out := p_out p @ [SayReceived 10]\<rparr>"
  have small: "list_all (\<lambda>f. length f \<le> 65535) fs"
    using assms(3) by (auto simp: unsubscribe_ok_def mqtt_text_def kMaxStringLen_def list_all_iff)
  obtain out where "unsubscribe_loop ?b 2 ?p = (Inr (), ?p\<lparr>p_subs := unsubscribed fs (p_subs ?p), p_out := out\<rparr>)"
    using unsubscribe_loop_body [OF small, of ?b "be16 pid" ?p] by (auto simp: unsubscribe_body_def)
  moreover have "py_slice ?b 0 2 = be16 pid" by (simp add: unsubscribe_body_def slice_be16)
  moreover have "stub_send_ack 11 (unat pid) 0 r = (Inr (), (emit (packet_wire (plain_header Unsuback) (be16 pid)) r)\<lparr>p_out := p_out r @ [SaySendingAck 11 (unat pid)]\<rparr>)"
    if "quiet r" for r using that by (simp add: stub_send_ack_quiet plain_bytes)
  ultimately show ?thesis using assms(1,2)
    by (auto simp: serve_defs stub_handle_unsubscribe_def wire_def)
qed

lemma publish_body_slices:
  assumes "length (m_topic m) \<le> 65535"
  shows "from_bytes (py_slice (publish_body m) 0 2) = length (m_topic m)"
    and "py_slice (publish_body m) 2 (2 + length (m_topic m)) = m_topic m"
    and "m_qos m \<noteq> 0 \<Longrightarrow> py_slice (publish_body m) (2 + length (m_topic m)) (2 + length (m_topic m) + 2) = be16 (m_packet_id m)"
    and "drop (if m_qos m \<noteq> 0 then 2 + length (m_topic m) + 2 else 2 + length (m_topic m)) (publish_body m) = m_payload m"
  using str_wire_slices [OF assms, of "[]"] slice_middle(1) [of _ "str_wire (m_topic m)" _ "be16 (m_packet_id m)" "m_payload m"]
  by (simp_all add: publish_body_def numeral_2_eq_2)

lemma publish_acked:
  assumes "quiet p" and "m_qos m \<le> 2"
  shows "\<exists>p'. (if m_qos m = 1 then stub_send_ack 4 (unat (m_packet_id m)) 0
       else if m_qos m = 2 then stub_send_ack 5 (unat (m_packet_id m)) 0 else py_return ()) p = (Inr (), p')
    \<and> undisturbed p p' \<and> p_next_id p' = p_next_id p
    \<and> sent p' = sent p @ concat (map wire
        (if m_qos m = 1 then [(plain_header Puback, be16 (m_packet_id m))]
         else if m_qos m = 2 then [(plain_header Pubrec, be16 (m_packet_id m))] else []))"
  using assms stub_send_ack_quiet [OF assms(1), of "plain_header Puback" 4 0 "m_packet_id m"]
    stub_send_ack_quiet [OF assms(1), of "plain_header Pubrec" 5 0 "m_packet_id m"]
  by (auto simp: plain_bytes undisturbed_def wire_def py_return_def)

lemma serve_publish:
  assumes "quiet p" and "a_drop_after args = 0" and "publish_ok m" and "length (publish_body m) + 2 \<le> max_body"
  shows "answers p (stub_answer args (ReqPublish m) (p_subs p, p_next_id p))
    (serve_packet args (to_byte (publish_header m)) (publish_body m) p)"
proof -
  let ?t = "py_decode (m_topic m)" and ?f = "to_byte (publish_header m) AND 0x0F"
  have ok: "m_qos m \<le> 2" "length (m_topic m) \<le> 65535" "mqtt_utf8 (m_topic m)"
    using assms(3) by (simp_all add: publish_ok_def mqtt_text_def kMaxStringLen_def is_valid_mqtt_string_spec)
  have e: "py_encode ?t = m_topic m" using mqtt_utf8_decode(2) [OF ok(3)] .
  then have len: "length ?t < 65536" using length_py_encode(1) [of ?t] ok(2) by simp
  have fit: "length (py_encode ?t) + length (m_payload m) + 4 \<le> max_body"
    unfolding e using assms(4) by (simp add: publish_body_def split: if_splits)
  define p1 where "p1 = p\<lparr>p_out := p_out p @ [SayReceivedPublish (drop_bit 3 ?f AND 1) (m_qos m) (?f AND 1)
    (if m_qos m \<noteq> 0 then unat (m_packet_id m) else 0) ?t (length (m_payload m))]\<rparr>"
  have q1: "quiet p1" using assms(1) by (simp add: p1_def)
  obtain p2 where p2: "(if m_qos m = 1 then stub_send_ack 4 (unat (m_packet_id m)) 0
       else if m_qos m = 2 then stub_send_ack 5 (unat (m_packet_id m)) 0 else py_return ()) p1 = (Inr (), p2)"
      "undisturbed p1 p2" "p_next_id p2 = p_next_id p1" "sent p2 = sent p1 @ concat (map wire
        (if m_qos m = 1 then [(plain_header Puback, be16 (m_packet_id m))]
         else if m_qos m = 2 then [(plain_header Pubrec, be16 (m_packet_id m))] else []))"
    using publish_acked [OF q1 ok(1)] by blast
  have q2: "quiet p2" using p2(2) q1 by (simp add: undisturbed_def)
  obtain p3 where p3: "deliver ?t (m_payload m) (m_qos m) p2 = (Inr (), p3)" "undisturbed p2 p3"
      "sent p3 = sent p2 @ concat (map (echo_wire ?t (m_payload m)) (fst (route (p_next_id p2) (p_subs p2) ?t (m_qos m))))"
      "p_next_id p3 = snd (route (p_next_id p2) (p_subs p2) ?t (m_qos m))"
    using deliver_loop_route [OF q2 len ok(1) fit] unfolding deliver_def by blast
  have "stub_handle_publish ?f (publish_body m) p = (Inr (), p3)"
    unfolding stub_handle_publish_def Let_def publish_byte [OF ok(1)] publish_body_slices [OF ok(2)]
    using p2(1) p3(1) publish_body_slices(3) [OF ok(2)]
    by (cases "m_qos m = 0"; cases "m_qos m = 1"; cases "m_qos m = 2")
      (simp_all add: py_bind_def say_def py_modify_def p1_def)
  moreover have same: "p_subs p2 = p_subs p" "p_next_id p2 = p_next_id p" "sent p1 = sent p"
    using p2(2,3) by (simp_all add: undisturbed_def p1_def)
  have echo: "echo_wire ?t (m_payload m) = wire \<circ> (\<lambda>e. (echo_header (fst e), echo_body ?t (m_payload m) e))"
    by (simp add: fun_eq_iff echo_wire_def wire_def)
  have "sent p3 = sent p @ concat (map wire (fst (publish_answer m (p_subs p, p_next_id p))))"
    "(p_subs p3, p_next_id p3) = snd (publish_answer m (p_subs p, p_next_id p))"
    using p3(2,3,4) unfolding p2(4) same echo
    by (simp_all add: publish_answer_def undisturbed_def same Let_def case_prod_beta)
  moreover have "quiet p3" "rx p3 = rx p" "p_packets p3 = p_packets p"
    using p3(2) p2(2) q1 by (simp_all add: undisturbed_def p1_def)
  ultimately show ?thesis using assms(2) publish_byte(1) [OF ok(1)]
    by (simp add: serve_defs split: prod.splits)
qed

lemma request_header: "request_ok r \<Longrightarrow> length (snd (request_packet r)) \<le> max_body"
proof (cases r)
  case (ReqConnect opts)
  then show "request_ok r \<Longrightarrow> ?thesis" using connect_body_bound [of opts] by simp
qed auto

definition args_ok :: "stub_args \<Rightarrow> bool" where
  "args_ok args \<longleftrightarrow> a_drop_after args = 0 \<and> 0 \<le> a_refuse args \<and> a_refuse args \<le> 5"

lemma serve_request:
  assumes "quiet p" and "args_ok args" and "request_ok r"
  shows "answers p (stub_answer args r (p_subs p, p_next_id p))
    (serve_packet args (to_byte (fst (request_packet r))) (snd (request_packet r)) p)"
proof (cases r)
  case (ReqConnect opts)
  then show ?thesis using assms serve_connect [of p args opts] by (simp add: args_ok_def plain_bytes)
next
  case (ReqPublish m)
  then show ?thesis using assms serve_publish [of p args m] by (simp add: args_ok_def)
next
  case (ReqAck ty pid)
  then show ?thesis using assms serve_ack [of p args ty pid] by (simp add: args_ok_def)
next
  case (ReqSubscribe pid subs)
  then show ?thesis using assms serve_subscribe [of p args subs pid] by (simp add: args_ok_def plain_bytes)
next
  case (ReqUnsubscribe pid fs)
  then show ?thesis using assms serve_unsubscribe [of p args fs pid] by (simp add: args_ok_def plain_bytes)
qed (use assms serve_plain [of p args] in \<open>simp_all add: args_ok_def plain_bytes\<close>)

lemma serve_step_request:
  assumes "quiet p" and "args_ok args" and "request_ok r" and "avail (rx p) = wire (request_packet r) @ rest"
  obtains p' where "serve_step args p = (Inr (snd (snd (stub_answer args r (p_subs p, p_next_id p)))), p')"
    "quiet p'" "avail (rx p') = rest"
    "sent p' = sent p @ concat (map wire (fst (stub_answer args r (p_subs p, p_next_id p))))"
    "(p_subs p', p_next_id p') = fst (snd (stub_answer args r (p_subs p, p_next_id p)))"
    "p_packets p' = p_packets p + 1"
proof -
  obtain h body where hb: "request_packet r = (h, body)" by fastforce
  obtain es where read: "read_packet p = (Inr (Some (to_byte h, body)), (set_rx es p)\<lparr>p_packets := p_packets p + 1\<rparr>)"
      "avail es = rest"
    using read_packet_wire [of p h body rest] assms(4) request_header [OF assms(3)] hb by (auto simp: wire_def)
  let ?p = "(set_rx es p)\<lparr>p_packets := p_packets p + 1\<rparr>"
  from serve_request [of ?p args r] assms hb have "answers ?p (stub_answer args r (p_subs p, p_next_id p))
      (serve_packet args (to_byte h) body ?p)" by simp
  then show ?thesis using read that by (auto simp: answers_def serve_step_def split: prod.splits)
qed

text \<open>A whole session: the packets sent in reply to a list of requests, up to the request that ends
  it.\<close>

fun transcript :: "stub_args \<Rightarrow> request list \<Rightarrow> broker_state \<Rightarrow> (FixedHeader \<times> bytes) list" where
  "transcript args [] st = []"
| "transcript args (r # rs) st =
     (case stub_answer args r st of (ps, st', go) \<Rightarrow> ps @ (if go then transcript args rs st' else []))"

fun clean_close :: "sock_event list \<Rightarrow> bool" where
  "clean_close [] = True"
| "clean_close (Chunk c # es) = clean_close es"
| "clean_close (Fault e # es) = (e = SocketTimeout \<or> e = ConnectionReset)"

text \<open>Reading does not change how the connection ends.\<close>

lemma recv_close: "recv n es = (Inr c, es') \<Longrightarrow> clean_close es' = clean_close es"
  by (induction n es rule: recv.induct) (auto split: if_splits)

lemma recv_loop_close: "recv_loop n buf es = (Inr r, es') \<Longrightarrow> clean_close es' = clean_close es"
proof (induction n buf es arbitrary: r es' rule: recv_loop.induct)
  case (1 n buf es)
  then show ?case using recv_close [of "n - length buf" es]
    by (subst (asm) (2) recv_loop.simps) (fastforce split: if_splits sum.splits prod.splits)
qed

lemma recv_exact_close: "recv_exact n p = (Inr r, q) \<Longrightarrow> clean_close (rx q) = clean_close (rx p)"
  by (auto simp: recv_exact_def split: prod.splits dest: recv_loop_close)

lemma py_bind_InrE:
  assumes "py_bind m f p = (Inr y, q)"
  obtains x p' where "m p = (Inr x, p')" "f x p' = (Inr y, q)"
  using assms by (auto simp: py_bind_def split: prod.splits sum.splits)

lemma length_loop_close: "length_loop k mult len p = (Inr r, q) \<Longrightarrow> clean_close (rx q) = clean_close (rx p)"
proof (induction k arbitrary: mult len p)
  case (Suc k)
  from Suc.prems show ?case unfolding length_loop.simps
  proof (rule py_bind_InrE)
    fix b p' assume b: "recv_exact 1 p = (Inr b, p')"
      "(case b of None \<Rightarrow> py_return None | Some b \<Rightarrow> let len = len + unat (b ! 0 AND 0x7F) * mult in
         if b ! 0 AND 0x80 = 0 then py_return (Some len) else length_loop k (mult * 128) len) p' = (Inr r, q)"
    then show ?thesis using recv_exact_close [OF b(1)] Suc.IH
      by (auto simp: py_return_def Let_def split: option.splits if_splits)
  qed
qed (simp add: py_return_def)

lemma read_body_close: "read_body n p = (Inr r, q) \<Longrightarrow> clean_close (rx q) = clean_close (rx p)"
  by (auto simp: read_body_def py_return_def split: if_splits dest: recv_exact_close)

lemma read_packet_close: "read_packet p = (Inr r, q) \<Longrightarrow> clean_close (rx q) = clean_close (rx p)"
  unfolding read_packet_def
  by (auto elim!: py_bind_InrE simp: py_return_def py_modify_def split: option.splits
      dest!: recv_exact_close length_loop_close read_body_close)

lemma serve_step_close:
  assumes "serve_step args p = (Inr True, q)"
  shows "clean_close (rx q) = clean_close (rx p)"
proof -
  obtain first body p1 where r: "read_packet p = (Inr (Some (first, body)), p1)"
      and s: "serve_packet args first body p1 = (Inr True, q)"
    using assms by (auto simp: serve_step_def say_def py_bind_def py_modify_def py_return_def
        split: prod.splits sum.splits option.splits if_splits)
  then show ?thesis
    using read_packet_close [OF r] reading.keepsD [OF reading.keeps_serve_packet [of args first body], of p1] by simp
qed

lemma recv_exhausted:
  "avail es = [] \<Longrightarrow> clean_close es \<Longrightarrow> fst (recv n es) \<in> {Inr [], Inl SocketTimeout, Inl ConnectionReset}"
  by (induction n es rule: recv.induct) auto

lemma serve_step_exhausted:
  assumes "avail (rx p) = []" and "clean_close (rx p)"
  shows "\<exists>p'. serve_step args p = (Inr False, p') \<and> sent p' = sent p"
proof -
  obtain r es where r: "recv 1 (rx p) = (r, es)" by fastforce
  then have "r \<in> {Inr [], Inl SocketTimeout, Inl ConnectionReset}" using recv_exhausted [OF assms, of 1] by simp
  then show ?thesis using r
    by (auto simp: serve_step_def read_packet_def recv_exact_def recv_loop.simps [of "Suc 0"] py_bind_def py_return_def
        say_def py_modify_def)
qed

lemma serve_session:
  assumes "quiet p" and "args_ok args" and "list_all request_ok rs"
    and "avail (rx p) = concat (map (\<lambda>r. wire (request_packet r)) rs)" and "clean_close (rx p)"
  shows "\<exists>p'. serve args p = (Inr (), p')
    \<and> sent p' = sent p @ concat (map wire (transcript args rs (p_subs p, p_next_id p)))"
  using assms
proof (induction rs arbitrary: p)
  case Nil
  then obtain p' where "serve_step args p = (Inr False, p')" "sent p' = sent p"
    using serve_step_exhausted by force
  then show ?case by (simp add: serve.simps [of args p])
next
  case (Cons r rs)
  obtain ps st go where a: "stub_answer args r (p_subs p, p_next_id p) = (ps, st, go)" by (metis prod_cases3)
  obtain p1 where p1: "serve_step args p = (Inr go, p1)" "quiet p1" "avail (rx p1) = concat (map (\<lambda>r. wire (request_packet r)) rs)"
      "sent p1 = sent p @ concat (map wire ps)" "(p_subs p1, p_next_id p1) = st"
    using serve_step_request [OF Cons.prems(1,2), of r "concat (map (\<lambda>r. wire (request_packet r)) rs)"] Cons.prems(3,4) a by auto
  show ?case
  proof (cases go)
    case True
    then have "clean_close (rx p1)" using serve_step_close p1(1) Cons.prems(5) by metis
    then show ?thesis using Cons.IH [of p1] Cons.prems(2,3) p1 a True
      by (auto simp: serve.simps [of args p])
  qed (use p1 a in \<open>simp add: serve.simps [of args p]\<close>)
qed

section \<open>What the client makes of the answers\<close>

text \<open>The decoder the client runs on a packet of that type.\<close>

definition accepted :: "FixedHeader \<times> bytes \<Rightarrow> bool" where
  "accepted = (\<lambda>(h, body). header_ok h \<and> length body \<le> max_body \<and>
     (case h_type h of
        Connack \<Rightarrow> result_ok (decode_connack body)
      | Publish \<Rightarrow> result_ok (decode_publish list_streams h body)
      | Suback \<Rightarrow> result_ok (decode_suback body)
      | Pingresp \<Rightarrow> body = []
      | t \<Rightarrow> t \<in> {Puback, Pubrec, Pubrel, Pubcomp, Unsuback} \<and> result_ok (decode_packet_id body)))"

lemma echo_message:
  assumes "list_all (\<lambda>c. c < 128) topic"
  shows "echo_body topic payload (q, i) = publish_body \<lparr>m_topic = py_encode topic, m_payload = payload, m_qos = q,
    m_retain = False, m_dup = False, m_packet_id = (if q \<noteq> 0 then word_of_nat i else 0)\<rparr>"
  using assms length_py_encode(2) [of topic] by (simp add: echo_body_def publish_body_def str_wire_def)

text \<open>The identifiers of the copies are in the range of the protocol.\<close>

lemma route_ids: "e \<in> set (fst (route i items topic qos)) \<Longrightarrow>
    fst e \<le> qos \<and> (fst e \<noteq> 0 \<longrightarrow> 0 < snd e \<and> snd e \<le> 65535) \<and> (fst e = 0 \<longrightarrow> snd e = 0)"
proof (induction i items topic qos rule: route.induct)
  case (2 i filt granted subs topic qos)
  have m: "i mod 65535 < 65535" by simp
  show ?case
    using 2 m by (auto simp: Let_def Suc_le_eq min_le_iff_disj case_prod_beta split: if_splits)
qed simp

lemma accepted_publish:
  assumes "publish_ok m" and "list_all (\<lambda>c. c < 128) (py_decode (m_topic m))" and "length (publish_body m) + 2 \<le> max_body"
    and "e \<in> set (fst (route i items (py_decode (m_topic m)) (m_qos m)))"
  shows "accepted (echo_header (fst e), echo_body (py_decode (m_topic m)) (m_payload m) e)"
proof -
  obtain q j where e: "e = (q, j)" by fastforce
  have r: "q \<le> m_qos m" "q \<noteq> 0 \<Longrightarrow> 0 < j \<and> j \<le> 65535" using route_ids [OF assms(4)] by (simp_all add: e)
  have ok: "m_topic m \<noteq> []" "mqtt_text (m_topic m)" "m_qos m \<le> 2" using assms(1) by (simp_all add: publish_ok_def)
  have t: "py_encode (py_decode (m_topic m)) = m_topic m"
    using ok(2) mqtt_utf8_decode(2) by (simp add: mqtt_text_def is_valid_mqtt_string_spec)
  let ?m = "\<lparr>m_topic = m_topic m, m_payload = m_payload m, m_qos = q, m_retain = False, m_dup = False,
    m_packet_id = (if q \<noteq> 0 then word_of_nat j else 0)\<rparr>"
  have b: "echo_body (py_decode (m_topic m)) (m_payload m) e = publish_body ?m"
    using echo_message [OF assms(2), of "m_payload m" q j] by (simp add: e t)
  have q: "q \<le> 2" using r(1) ok(3) by simp
  have "word_of_nat j \<noteq> (0 :: u16)" if "q \<noteq> 0"
    using r(2) [OF that] unat_of_nat [of j, where 'a = 16] by auto
  then have "publish_ok ?m" using ok q by (auto simp: publish_ok_def)
  then have "decode_publish list_streams (echo_header q) (publish_body ?m) = Inr ?m"
    by (intro lists.decode_publish_wire) (simp_all add: echo_header_def plain_header_def default_header_def)
  moreover have "length (publish_body ?m) \<le> max_body" using assms(3) by (auto simp: publish_body_def split: if_splits)
  ultimately show ?thesis using b q
    by (simp add: accepted_def e echo_header_def plain_header_def default_header_def header_ok_def)
qed

lemma accepted_plain:
  "pid \<noteq> 0 \<Longrightarrow> ty \<in> {Puback, Pubrec, Pubrel, Pubcomp, Unsuback} \<Longrightarrow> accepted (plain_header ty, be16 pid)"
  "accepted (plain_header Pingresp, [])"
  "k_session_present k \<longrightarrow> k_code k = Accepted \<Longrightarrow> accepted (plain_header Connack, connack_body k)"
  "pid \<noteq> 0 \<Longrightarrow> codes \<noteq> [] \<Longrightarrow> list_all (\<lambda>c. c \<le> 2) codes \<Longrightarrow> length codes + 2 \<le> max_body \<Longrightarrow>
    accepted (plain_header Suback, be16 pid @ codes)"
proof -
  show "pid \<noteq> 0 \<Longrightarrow> ty \<in> {Puback, Pubrec, Pubrel, Pubcomp, Unsuback} \<Longrightarrow> accepted (plain_header ty, be16 pid)"
    using decode_packet_id_iff [of "be16 pid" pid]
    by (auto simp: accepted_def plain_header_def default_header_def header_ok_def)
  show "accepted (plain_header Pingresp, [])"
    by (simp add: accepted_def plain_header_def default_header_def header_ok_def)
  show "k_session_present k \<longrightarrow> k_code k = Accepted \<Longrightarrow> accepted (plain_header Connack, connack_body k)"
    using decode_connack_iff [of "connack_body k" k]
    by (auto simp: accepted_def plain_header_def default_header_def header_ok_def connack_body_def)
  show "pid \<noteq> 0 \<Longrightarrow> codes \<noteq> [] \<Longrightarrow> list_all (\<lambda>c. c \<le> 2) codes \<Longrightarrow> length codes + 2 \<le> max_body \<Longrightarrow>
    accepted (plain_header Suback, be16 pid @ codes)"
    using decode_suback_iff [of "be16 pid @ codes" "\<lparr>s_packet_id = pid, s_return_codes = codes\<rparr>"]
    by (auto simp: accepted_def plain_header_def default_header_def header_ok_def list_all_iff)
qed

text \<open>A PUBLISH whose topic is ASCII, or any other request.\<close>

fun ascii_topic :: "request \<Rightarrow> bool" where
  "ascii_topic (ReqPublish m) = list_all (\<lambda>c. c < 128) (py_decode (m_topic m))"
| "ascii_topic _ = True"

lemma stub_answer_accepted:
  assumes "request_ok r" and "ascii_topic r"
  shows "list_all accepted (fst (stub_answer args r st))"
proof (cases r)
  case (ReqPublish m)
  then show ?thesis using assms accepted_publish [of m] accepted_plain(1)
    by (auto simp: publish_answer_def Let_def list_all_iff case_prod_beta publish_ok_def)
next
  case (ReqSubscribe pid subs)
  have "length subs + 2 \<le> length (subscribe_body pid subs)"
    by (induction subs) (auto simp: subscribe_body_def)
  then show ?thesis using assms ReqSubscribe by (auto simp: subscribe_ok_def list_all_iff intro!: accepted_plain(4))
qed (use assms in \<open>auto simp: Let_def intro!: accepted_plain(1-3)\<close>)

lemma transcript_accepted:
  "list_all request_ok rs \<Longrightarrow> list_all ascii_topic rs \<Longrightarrow> list_all accepted (transcript args rs st)"
proof (induction rs arbitrary: st)
  case (Cons r rs)
  then show ?case using stub_answer_accepted [of r args st] by (auto split: prod.splits)
qed simp

section \<open>Properties\<close>


definition demo_args :: stub_args where
  "demo_args = \<lparr>a_once = True, a_session_present = False, a_refuse = 0, a_drop_after = 0\<rparr>"

definition demo_sock :: py_sock where
  "demo_sock = \<lparr>sk_rx = [Chunk [0xC0], Chunk [0, 0x62, 2], Chunk [0, 7], Fault ConnectionReset], sk_tx = [], sk_faults = []\<rparr>"




text \<open>A client that is gone when the broker answers ends the script: the exception of \<open>sendall\<close> is
  caught neither in \<open>serve\<close> nor in \<open>main\<close>, and the connections behind it are never accepted. A
  SUBSCRIBE that stops before its quality of service does the same with an \<open>IndexError\<close>.\<close>

lemma stub_send_failure:
  assumes "avail (sk_rx sock) = wire (request_packet ReqPing) @ rest" and "args_ok args"
    and "sk_faults sock = Some (k, BrokenPipe) # fs"
  shows "\<exists>p. stub_main args (sock # socks) = (Inl BrokenPipe, [p])"
proof -
  let ?p = "new_peer sock [SayNewConnection]"
  obtain es where r: "read_packet ?p = (Inr (Some (0xC0, [])), (set_rx es ?p)\<lparr>p_packets := 1\<rparr>)"
    using read_packet_wire [of ?p "plain_header Pingreq" "[]" rest] assms(1)
    by (auto simp: wire_def new_peer_def plain_bytes)
  have "\<exists>p. serve_step args ?p = (Inl BrokenPipe, p)"
    using assms(2,3)
    by (simp add: serve_step_def r serve_defs args_ok_def stub_send_def sendall_def) (simp add: new_peer_def)
  then show ?thesis by (auto simp: serve.simps [of args ?p])
qed

lemma stub_short_subscribe:
  assumes "avail (sk_rx sock) = [0x82, 4, 0, 1, 0, 9] @ rest" and "args_ok args"
  shows "\<exists>p. stub_main args (sock # socks) = (Inl IndexError, [p])"
proof -
  let ?p = "new_peer sock [SayNewConnection]" and ?b = "[0, 1, 0, 9] :: bytes"
  have "packet_wire (plain_header Subscribe) ?b = [0x82, 4, 0, 1, 0, 9]" by code_simp
  then obtain es where r: "read_packet ?p = (Inr (Some (0x82, ?b)), (set_rx es ?p)\<lparr>p_packets := 1\<rparr>)"
    using read_packet_wire [of ?p "plain_header Subscribe" ?b rest] assms(1)
    by (auto simp: new_peer_def plain_bytes)
  have "from_bytes (py_slice ?b 2 4) = 9" by code_simp
  then have "subscribe_loop ?b 2 [] = py_lift (Inl IndexError)"
    by (simp add: subscribe_loop.simps [of ?b])
  then have "\<exists>p. serve_step args ?p = (Inl IndexError, p)"
    using assms(2) by (simp add: serve_step_def r serve_defs args_ok_def stub_handle_subscribe_def)
  then show ?thesis by (auto simp: serve.simps [of args ?p])
qed

end
