(* ===== verification/Client_Broker.thy ===== *)
theory Client_Broker
  imports Client_Delivery Stub_Session
begin

text \<open>
  The client and the broker of the tools together: what happens to a message the client keeps for
  retransmission when its packet reaches the broker and the broker's answer reaches the client.
\<close>

section \<open>The slot of an identifier\<close>

lemma live_ids_inject:
  "distinct (live_ids xs) \<Longrightarrow> i < length xs \<Longrightarrow> j < length xs \<Longrightarrow> sl_phase (xs ! i) \<noteq> Free \<Longrightarrow>
   sl_phase (xs ! j) \<noteq> Free \<Longrightarrow> sl_packet_id (xs ! i) = sl_packet_id (xs ! j) \<Longrightarrow> i = j"
proof (induction xs arbitrary: i j)
  case (Cons x xs)
  have mem: "sl_phase (xs ! k) \<noteq> Free \<Longrightarrow> k < length xs \<Longrightarrow> sl_packet_id (xs ! k) \<in> set (live_ids xs)" for k
    by (auto simp: live_ids_def)
  have tl: "distinct (live_ids xs)" "sl_phase x \<noteq> Free \<Longrightarrow> sl_packet_id x \<notin> set (live_ids xs)"
    using Cons.prems(1) by (auto simp: live_ids_def split: if_splits)
  consider "i = 0" "j = 0" | j' where "i = 0" "j = Suc j'" | i' where "i = Suc i'" "j = 0"
    | i' j' where "i = Suc i'" "j = Suc j'" by (metis not0_implies_Suc)
  then show ?case
  proof cases
    case 2
    then show ?thesis using Cons.prems mem [of j'] tl(2) by simp
  next
    case 3
    then show ?thesis using Cons.prems mem [of i'] tl(2) by simp
  qed (use Cons tl(1) in auto)
qed simp

context client_world
begin

lemma find_outbound_slot:
  assumes "client_invar cfg s" and "i < max_inflight_out cfg" and "sl_phase (c_outbound s ! i) \<noteq> Free"
  shows "find_outbound cfg (sl_packet_id (c_outbound s ! i)) s = Some i"
proof -
  let ?P = "\<lambda>k. sl_phase (c_outbound s ! k) \<noteq> Free \<and> sl_packet_id (c_outbound s ! k) = sl_packet_id (c_outbound s ! i)"
  have "List.find ?P [0..<max_inflight_out cfg] \<noteq> None" 
    unfolding find_None_iff using assms(2,3) by fastforce
  then obtain j where j: "find_outbound cfg (sl_packet_id (c_outbound s ! i)) s = Some j"
    by (auto simp: find_outbound_def)
  note fo = find_outboundD [OF j]
  have "distinct (live_ids (c_outbound s))" using assms(1) by (simp add: client_invar_def ids_ok_def)
  then have "j = i"
    using live_ids_inject [of "c_outbound s" j i] fo assms(3) client_invar_slot(2) [OF assms(1)] assms(2) by blast
  then show ?thesis using j by simp
qed

end

section \<open>One round\<close>

text \<open>The phase of a message after one round with a broker that answers.\<close>

fun round_next :: "Phase \<Rightarrow> Phase" where
  "round_next WaitPuback = Free"
| "round_next WaitPubrec = WaitPubcomp"
| "round_next WaitPubcomp = Free"
| "round_next Free = Free"

text \<open>The packet a slot is sent as: the stored one, or the one marked as a duplicate.\<close>

definition goes_out :: "OutboundSlot \<Rightarrow> bytes \<Rightarrow> bool" where
  "goes_out x w \<longleftrightarrow> w = slot_bytes x \<or> w = slot_bytes (mark_dup x)"

definition awaited :: "Phase \<Rightarrow> PacketType" where
  "awaited ph = (case ph of WaitPuback \<Rightarrow> Puback | WaitPubrec \<Rightarrow> Pubrec | _ \<Rightarrow> Pubcomp)"

lemma slot_request:
  assumes "slot_ok cfg x" and "sl_phase x \<noteq> Free" and "goes_out x w" and "kPersistSize cfg \<le> 65535"
  shows "\<exists>r ps st'. request_ok r \<and> w = wire (request_packet r)
    \<and> stub_answer args r st = ((plain_header (awaited (sl_phase x)), be16 (sl_packet_id x)) # ps, st', True)"
proof (cases "sl_phase x = WaitPubcomp")
  case True
  then have h: "holds_pubrel x" using assms(1) by (simp add: slot_ok_def)
  then have "w = packet_wire (plain_header Pubrel) (be16 (sl_packet_id x))"
    using assms(3) mark_dup_pubrel [OF h] by (auto simp: goes_out_def holds_pubrel_def)
  then show ?thesis using h True
    by (intro exI [of _ "ReqAck Pubrel (sl_packet_id x)"]) (simp add: holds_pubrel_def wire_def awaited_def)
next
  case False
  then obtain q m where q: "q \<in> {AtLeastOnce, ExactlyOnce}" "holds_publish q x m" "sl_phase x = (if q = AtLeastOnce then WaitPuback else WaitPubrec)"
    using assms(1,2) False that [of AtLeastOnce] that [of ExactlyOnce] by (cases "sl_phase x") (auto simp: slot_ok_def)
  obtain d where d: "w = packet_wire (publish_header (m\<lparr>m_dup := d\<rparr>)) (publish_body (m\<lparr>m_dup := d\<rparr>))"
  proof (cases "w = slot_bytes x")
    case True
    then show ?thesis using q(2) that [of "m_dup m"] by (simp add: holds_publish_def)
  next
    case False
    then show ?thesis using assms(3) mark_dup_publish [OF q(2,1)] that [of True] by (auto simp: goes_out_def holds_publish_def)
  qed
  have ok: "publish_ok (m\<lparr>m_dup := d\<rparr>)" "m_qos m = q" "m_packet_id m = sl_packet_id x"
    using q(1,2) by (auto simp: holds_publish_def publish_ok_def)
  have "length (publish_body m) \<le> length (slot_bytes x)" using q(2) by (simp add: holds_publish_def packet_wire_def)
  also have "\<dots> \<le> 65535" using assms(1,4) by (simp add: slot_bytes_def slot_ok_def)
  finally have len: "length (publish_body (m\<lparr>m_dup := d\<rparr>)) + 2 \<le> max_body" by (simp add: publish_body_def)
  show ?thesis using ok len d q(1,3)
    by (intro exI [of _ "ReqPublish (m\<lparr>m_dup := d\<rparr>)"])
      (auto simp: wire_def awaited_def publish_answer_def Let_def case_prod_beta)
qed

context client_world
begin

lemma drain_ack:
  assumes inv: "client_invar (cx_cfg cx) t" and "i < max_inflight_out (cx_cfg cx)"
    and "sl_phase (c_outbound t ! i) \<noteq> Free" and "c_on_delivery t = None"
    and buf: "take (c_rx_len t) (c_rx t) = packet_wire (plain_header (awaited (sl_phase (c_outbound t ! i))))
      (be16 (sl_packet_id (c_outbound t ! i))) @ rest"
    and "sl_packet_id (c_outbound t ! i) \<noteq> 0"
  shows "\<exists>t'. drain_rx cx t = drain_rx cx t' \<and> take (c_rx_len t') (c_rx t') = rest \<and> client_invar (cx_cfg cx) t'
    \<and> sl_phase (c_outbound t' ! i) = round_next (sl_phase (c_outbound t ! i))
    \<and> (\<forall>j. j \<noteq> i \<longrightarrow> c_outbound t' ! j = c_outbound t ! j)"
proof -
  let ?ph = "sl_phase (c_outbound t ! i)" and ?pid = "sl_packet_id (c_outbound t ! i)"
  let ?h = "plain_header (awaited ?ph)"
  have ty: "awaited ?ph \<in> {Puback, Pubrec, Pubcomp}" by (cases ?ph) (simp_all add: awaited_def)
  have ht: "h_type (?h\<lparr>h_remaining_length := n\<rparr>) = awaited ?ph" for n by (simp add: plain_header_def)
  have ok: "header_ok ?h" using ty by (auto simp: plain_header_def default_header_def header_ok_def)
  have len: "length (packet_wire ?h (be16 ?pid)) \<le> rx_buffer_size (cx_cfg cx)"
    using config packet_wire_length [of "be16 ?pid" ?h] by (simp add: wf_config_def config_check_def vbi_size_def kMaxRemainingLength_def)
  obtain e s1 where hp: "handle_packet cx (?h\<lparr>h_remaining_length := word_of_nat (length (be16 ?pid))\<rparr>) (be16 ?pid) t = (e, s1)"
    by fastforce
  obtain u where u: "e = Ok" "sl_phase (c_outbound u ! i) = outbound_next ?ph (awaited ?ph)"
      "\<forall>j. j \<noteq> i \<longrightarrow> c_outbound u ! j = c_outbound t ! j" "same_frame t u" "s1 = u"
    using ack_refines [OF inv _ assms(6) find_outbound_slot [OF assms(1-3)] hp] ty assms(4)
    unfolding ht by (auto simp: call_if_def)
  have nx: "outbound_next ?ph (awaited ?ph) = round_next ?ph" by (cases ?ph) (simp_all add: awaited_def)
  let ?t' = "after_packet (length (packet_wire ?h (be16 ?pid))) s1"
  have "c_rx_len s1 = c_rx_len t" using u(4,5) by (simp add: same_frame_def)
  note d = drain_rx_packet [OF inv ok _ buf len hp this]
  have "client_invar (cx_cfg cx) ?t'" 
    using handle_packet_invar [OF hp inv] ok by (intro after_packet_invar) (simp add: header_ok_def)
  moreover have "c_outbound ?t' = c_outbound u" using u(5) by (simp add: after_packet_def)
  ultimately show ?thesis using d u(1,2,3) nx by (intro exI [of _ ?t']) simp
qed

end

lemma slot_id_nonzero: "slot_ok cfg x \<Longrightarrow> sl_phase x \<noteq> Free \<Longrightarrow> sl_packet_id x \<noteq> 0"
  by (cases "sl_phase x") (auto simp: slot_ok_def holds_publish_def holds_pubrel_def publish_ok_def)

section \<open>Properties\<close>


text \<open>A client with a QoS 2 message in flight that has just received a PUBREC.\<close>

definition bench_pubrec :: "fake_env client" where
  "bench_pubrec = (let s = snd (snd (publish (bench bench_config) (lit ''a'') (lit ''x'') 2 False bench_up)) in
     s\<lparr>c_rx := write_at (c_rx s) 0 [0x50, 2, 0, 1], c_rx_len := 4\<rparr>)"

definition bench_peer :: peer where
  "bench_peer = new_peer \<lparr>sk_rx = [Chunk [0x34, 6, 0], Chunk [1, 0x61, 0, 1, 0x78]], sk_tx = [], sk_faults = []\<rparr> []"


end
