(* ===== verification/Fuzz_Client.thy ===== *)
theory Fuzz_Client
  imports Client_Runs
begin

text \<open>
  \<^verbatim>\<open>tests/fuzz/fuzz_client.cpp\<close>: the driver that feeds arbitrary bytes to a client as if they came
  from a broker, with handlers that act on the client that calls them. The input is the parameter
  of \<open>LLVMFuzzerTestOneInput\<close>; the result is the client at the end of the run.
\<close>

section \<open>The handlers\<close>

definition FuzzConfig :: config where
  "FuzzConfig = DefaultConfig\<lparr>rx_buffer_size := 256, tx_buffer_size := 256, max_topic_len := 32,
     max_inflight_out := 2, max_persisted_msg_size := 64, max_inflight_in := 2, max_subscriptions := 2,
     max_pending_acks := 2\<rparr>"

definition fuzz_ctx ::
  "(event \<Rightarrow> fake_env client \<Rightarrow> fake_env client) \<Rightarrow> (list_writer, list_reader, fake_env) client_ctx" where
  "fuzz_ctx app = \<lparr>cx_cfg = FuzzConfig, cx_etl = list_streams, cx_pl = fake_platform, cx_app = app\<rparr>"

text \<open>\<open>act\<close>, for the handlers \<open>app\<close> that its calls may run. The accessors of case 5 change nothing.\<close>

definition fuzz_act ::
  "(event \<Rightarrow> fake_env client \<Rightarrow> fake_env client) \<Rightarrow> u8 \<Rightarrow> fake_env client \<Rightarrow> fake_env client" where
  "fuzz_act app g_action s =
     (let k = g_action AND 0x07 in
      if k = 1 then abort (fuzz_ctx app) s
      else if k = 2 then snd (disconnect (fuzz_ctx app) s)
      else if k = 3 then snd (snd (publish_text (fuzz_ctx app) (lit ''f/x'') ''y'' AtMostOnce False s))
      else if k = 4 then step_in_handler (fuzz_ctx app) s
      else s)"

text \<open>
  The handlers all run \<open>act\<close>, and \<open>act\<close> may run \<open>on_disconnect\<close>. That one finds the client idle, and
  on an idle client \<open>act\<close> runs no handler, so the recursion has two levels.
\<close>

definition fuzz_app :: "u8 \<Rightarrow> event \<Rightarrow> fake_env client \<Rightarrow> fake_env client" where
  "fuzz_app g_action ev s = fuzz_act (\<lambda>_. fuzz_act (\<lambda>_ s. s) g_action) g_action s"

definition fuzz :: "u8 \<Rightarrow> (list_writer, list_reader, fake_env) client_ctx" where
  "fuzz g_action = fuzz_ctx (fuzz_app g_action)"

section \<open>The driver\<close>

function fuzz_loop ::
  "(list_writer, list_reader, fake_env) client_ctx \<Rightarrow> bytes \<Rightarrow> fake_env client \<Rightarrow> fake_env client option" where
  "fuzz_loop cx [] s = Some s"
| "fuzz_loop cx (b # data) s =
     (let chunk = unat (b AND 0x3F) + 1; n = min chunk (length data) in
      if n = 0 then Some s
      else
        (case step cx (s\<lparr>c_env := push_inbound (take n data) (c_env s)\<rparr>) of
           None \<Rightarrow> None
         | Some (_, s) \<Rightarrow>
             (case step cx (s\<lparr>c_env := advance 1000 (c_env s)\<rparr>) of
                None \<Rightarrow> None
              | Some (_, s) \<Rightarrow> fuzz_loop cx (drop n data) s)))"
  by pat_completeness auto
termination by (relation "measure (\<lambda>(cx, data, s). length data)") auto

definition fuzz_client :: "fake_env client" where
  "fuzz_client = on_message (Some 0) (on_connect (Some 0) (on_disconnect (Some 0) (on_delivery_complete (Some 0)
     (on_suback (Some 0) (new_client FuzzConfig fake_env0)))))"

definition fuzz_options :: ConnectOptions where
  "fuzz_options = default_options\<lparr>o_client_id := lit ''fuzz'', o_keep_alive_s := 10, o_clean_session := True\<rparr>"

text \<open>The part behind the first step: the session is brought up if the first byte says so.\<close>

definition fuzz_session ::
  "(list_writer, list_reader, fake_env) client_ctx \<Rightarrow> bytes \<Rightarrow> fake_env client \<Rightarrow> fake_env client option" where
  "fuzz_session cx data s =
     (let up = (data \<noteq> [] \<and> data ! 0 AND 1 \<noteq> 0) in
      case (if up then step cx (s\<lparr>c_env := push_connack False Accepted (c_env s)\<rparr>) else Some (Ok, s)) of
        None \<Rightarrow> None
      | Some (_, s) \<Rightarrow>
          let s = (if is_connected s then snd (snd (subscribe_one cx (lit ''f/#'') ExactlyOnce None s)) else s) in
          (case fuzz_loop cx (if up then drop 1 data else data) s of
             None \<Rightarrow> None
           | Some s \<Rightarrow> map_option snd (step cx (snd (disconnect cx s)))))"

definition fuzz_one_input :: "bytes \<Rightarrow> fake_env client option" where
  "fuzz_one_input data =
     (let cx = fuzz (if length data > 1 then data ! 1 else 0) in
      case connect cx fuzz_options fuzz_client of
        (e, s) \<Rightarrow>
          if e \<noteq> Ok then Some s
          else (case step cx s of None \<Rightarrow> None | Some (_, s) \<Rightarrow> fuzz_session cx data s))"

section \<open>The handlers keep their contract\<close>

lemma FuzzConfig_wf: "wf_config FuzzConfig"
  by (simp add: wf_config_def config_check_def FuzzConfig_def DefaultConfig_def)

lemma fuzz_ctx_simps [simp]: "cx_cfg (fuzz_ctx app) = FuzzConfig" "cx_etl (fuzz_ctx app) = list_streams"
  "cx_pl (fuzz_ctx app) = fake_platform" "cx_app (fuzz_ctx app) = app"
  by (simp_all add: fuzz_ctx_def)

lemma end_session_app: "end_session (fuzz_ctx f) e s = end_session (fuzz_ctx g) e s"
  by (simp add: end_session_def)

lemma publish_app: "publish (fuzz_ctx f) = publish (fuzz_ctx g)"
proof -
  have "read_clock (fuzz_ctx f) = read_clock (fuzz_ctx g)" by (simp add: fun_eq_iff read_clock_def)
  then show ?thesis by (intro ext) (simp only: publish_def fuzz_ctx_simps)
qed

lemma shutdown_app:
  assumes "\<And>ev t. c_state t = Idle \<Longrightarrow> f ev t = g ev t"
  shows "shutdown (fuzz_ctx f) e s = shutdown (fuzz_ctx g) e s"
  using assms by (simp add: shutdown_def end_session_app [of f e s g] call_if_def run_handler_def Let_def
      split: option.split)

lemma fuzz_act_app:
  assumes "\<And>ev t. c_state t = Idle \<Longrightarrow> f ev t = g ev t"
  shows "fuzz_act f a s = fuzz_act g a s"
proof -
  have sh: "shutdown (fuzz_ctx f) e t = shutdown (fuzz_ctx g) e t" for e t by (rule shutdown_app [OF assms])
  have "disconnect (fuzz_ctx f) s = disconnect (fuzz_ctx g) s" by (simp only: disconnect_def sh fuzz_ctx_simps)
  then show ?thesis by (simp add: fuzz_act_def abort_def sh publish_text_def publish_app [of f g] Let_def)
qed

text \<open>On an idle client no handler runs.\<close>

lemma fuzz_act_idle: "c_state s = Idle \<Longrightarrow> fuzz_act f a s = fuzz_act g a s"
  by (simp add: fuzz_act_def abort_def disconnect_def shutdown_def end_session_app [of f _ s g] publish_text_def
      publish_app [of f g] Let_def)

text \<open>The two levels are the fixed point: every handler runs \<open>act\<close>, whose calls run these handlers.\<close>

lemma fuzz_app_fixpoint: "fuzz_app a ev s = fuzz_act (fuzz_app a) a s"
proof -
  have "(\<lambda>_. fuzz_act (\<lambda>_ s. s) a) ev t = fuzz_app a ev t" if "c_state t = Idle" for ev t
    using fuzz_act_idle [OF that] unfolding fuzz_app_def by metis
  then show ?thesis unfolding fuzz_app_def [of a ev s] by (rule fuzz_act_app)
qed

lemma fuzz_act_run:
  assumes "disconnect_run (fuzz a)"
  shows "handler_run (fuzz a) s (fuzz_act (fuzz_app a) a s)"
proof -
  have "handler_run (fuzz a) s (snd (snd (publish (fuzz a) topic (lit ''y'') AtMostOnce False s)))" for topic
  proof -
    obtain e r s1 where p: "publish (fuzz a) topic (lit ''y'') AtMostOnce False s = (e, r, s1)" by (metis prod_cases3)
    have "length (lit ''y'') < 2 ^ 63" by (simp add: lit_def)
    then show ?thesis using handler_run.publishing [OF _ p handler_run.finished] by (simp add: p)
  qed
  then show ?thesis
    using abort_run [OF assms handler_run.finished] leave_run [OF assms handler_run.finished]
    by (simp add: fuzz_act_def Let_def fuzz_def publish_text_def handler_run.finished)
qed

lemma fuzz_disconnect_run: "disconnect_run (fuzz a)"
proof -
  have "handler_run (fuzz a) t (fuzz_act (fuzz_app a) a t)" if i: "c_state t = Idle" for t
  proof -
    have "handler_run (fuzz a) t (abort (fuzz a) t)"
      using handler_run.closing [of "fuzz a" t TransportClosed t _ "abort (fuzz a) t"] i
      by (simp add: hard_close_def abort_def shutdown_def Let_def handler_run.finished)
    moreover have "snd (disconnect (fuzz a) t) = t" using i by (simp add: disconnect_def)
    moreover have "snd (snd (publish (fuzz a) topic pl AtMostOnce False t)) = t" for topic pl
      using i by (simp add: publish_def)
    ultimately show ?thesis
      by (simp add: fuzz_act_def Let_def fuzz_def publish_text_def handler_run.finished)
  qed
  then show ?thesis
    by (simp add: disconnect_run_def run_handler_def fuzz_app_fixpoint fuzz_def)
qed

lemma fuzz_world: "client_world (fuzz a)"
proof -
  have "handlers_ok (fuzz a)"
    using fuzz_act_run [OF fuzz_disconnect_run] by (simp add: handlers_ok_def fuzz_def fuzz_app_fixpoint)
  then show ?thesis
    by (intro client_world.intro client_env.intro client_world_axioms.intro)
      (simp_all add: lists.byte_streams_axioms fake.transport_contract_axioms FuzzConfig_wf, simp_all add: fuzz_def
        lists.byte_streams_axioms fake.transport_contract_axioms FuzzConfig_wf)
qed

interpretation fuzzing: client_world "fuzz a" for a
  by (rule fuzz_world)

section \<open>Every input\<close>

lemma fuzz_step:
  assumes "reachable (fuzz a) s"
  obtains e s' where "step (fuzz a) s = Some (e, s')" "reachable (fuzz a) s'"
proof -
  have "client_invar FuzzConfig s" "\<not> c_in_step s"
    using fuzzing.reachable_keeps [OF assms] by (simp_all add: fuzz_def)
  then obtain e s' where "step (fuzz a) s = Some (e, s')"
    using fuzzing.step_returns [of a s] by (auto simp: fuzz_def)
  then show ?thesis using that reachable.call_step [OF assms] by blast
qed

lemma fuzz_loop_reachable:
  "reachable (fuzz a) s \<Longrightarrow> \<exists>s'. fuzz_loop (fuzz a) data s = Some s' \<and> reachable (fuzz a) s'"
proof (induction "fuzz a" data s rule: fuzz_loop.induct)
  case (2 b data s)
  let ?n = "min (unat (b AND 0x3F) + 1) (length data)"
  show ?case
  proof (cases "?n = 0")
    case False
    obtain e1 s1 where s1: "step (fuzz a) (s\<lparr>c_env := push_inbound (take ?n data) (c_env s)\<rparr>) = Some (e1, s1)"
        "reachable (fuzz a) s1" using fuzz_step [OF reachable.world [OF "2.prems"]] by blast
    obtain e2 s2 where s2: "step (fuzz a) (s1\<lparr>c_env := advance 1000 (c_env s1)\<rparr>) = Some (e2, s2)"
        "reachable (fuzz a) s2" using fuzz_step [OF reachable.world [OF s1(2)]] by blast
    show ?thesis using "2.hyps" [OF refl refl False s1(1) refl s2(1) refl s2(2)] s1(1) s2(1)
      unfolding fuzz_loop.simps Let_def if_not_P [OF False] by simp
  next
    case True
    then show ?thesis using "2.prems" unfolding fuzz_loop.simps Let_def by simp
  qed
qed simp


end
