(* ===== verification/Ip_Address.thy ===== *)
theory Ip_Address
  imports Packet
begin

text \<open>
  \<^verbatim>\<open>examples/ipv4.hpp\<close>: the address of a broker and the parser of dotted quads. A C string is the
  list of its bytes; reading at the end of the list, or at a zero byte, reads the terminator.
\<close>

section \<open>The address\<close>

record Ipv4 =
  octets :: "u8 list"

definition Ipv4_0 :: Ipv4 where
  "Ipv4_0 = \<lparr>octets = [0, 0, 0, 0]\<rparr>"

definition to_uint32 :: "Ipv4 \<Rightarrow> u32" where
  "to_uint32 ip =
     push_bit 24 (ucast (octets ip ! 0)) OR push_bit 16 (ucast (octets ip ! 1))
     OR push_bit 8 (ucast (octets ip ! 2)) OR ucast (octets ip ! 3)"

section \<open>The parser\<close>

definition char_at :: "bytes \<Rightarrow> u8" where
  "char_at text = (case text of [] \<Rightarrow> 0 | c # _ \<Rightarrow> c)"

definition ch_0 :: u8 where "ch_0 = 0x30"
definition ch_9 :: u8 where "ch_9 = 0x39"
definition ch_dot :: u8 where "ch_dot = 0x2E"

text \<open>The loop; it breaks with the number of octets and the address built so far.\<close>

function parse_loop :: "bytes \<Rightarrow> u32 \<Rightarrow> nat \<Rightarrow> nat \<Rightarrow> Ipv4 \<Rightarrow> (nat \<times> Ipv4) option" where
  "parse_loop text val digits octet result =
     (let c = char_at text in
      if ch_0 \<le> c \<and> c \<le> ch_9 then
        if digits = 3 then None
        else
          let val = val * 10 + ucast (c - ch_0) in
          if val > 255 then None else parse_loop (tl text) val (digits + 1) octet result
      else if c = ch_dot \<or> c = 0 then
        if digits = 0 \<or> octet \<ge> 4 then None
        else
          let result = result\<lparr>octets := (octets result)[octet := ucast val]\<rparr>;
              octet = octet + 1
          in if c = 0 then Some (octet, result) else parse_loop (tl text) 0 0 octet result
      else None)"
  by pat_completeness auto

termination
  by (relation "measure (\<lambda>(text, _). length text)")
    (auto simp: char_at_def ch_0_def ch_dot_def split: list.splits)

definition parse_ipv4 :: "bytes option \<Rightarrow> Ipv4 \<Rightarrow> bool \<times> Ipv4" where
  "parse_ipv4 text out =
     (case text of
        None \<Rightarrow> (False, out)
      | Some text \<Rightarrow>
          (case parse_loop text 0 0 0 Ipv4_0 of
             None \<Rightarrow> (False, out)
           | Some (octet, result) \<Rightarrow> if octet \<noteq> 4 then (False, out) else (True, result)))"

definition ipv4 :: "bytes option \<Rightarrow> Ipv4" where
  "ipv4 text = (case parse_ipv4 text Ipv4_0 of (ok, result) \<Rightarrow> if ok then result else Ipv4_0)"

section \<open>Dotted quads\<close>

text \<open>The fields of a text are what lies between its dots.\<close>

fun dot_fields :: "bytes \<Rightarrow> bytes list" where
  "dot_fields [] = [[]]"
| "dot_fields (c # cs) =
     (if c = ch_dot then [] # dot_fields cs
      else case dot_fields cs of f # fs \<Rightarrow> (c # f) # fs | [] \<Rightarrow> [[c]])"

definition decimal :: "bytes \<Rightarrow> nat" where
  "decimal ds = foldl (\<lambda>n c. 10 * n + unat (c - ch_0)) 0 ds"

definition is_digit :: "u8 \<Rightarrow> bool" where
  "is_digit c \<longleftrightarrow> ch_0 \<le> c \<and> c \<le> ch_9"

definition octet_text :: "bytes \<Rightarrow> bool" where
  "octet_text f \<longleftrightarrow> f \<noteq> [] \<and> length f \<le> 3 \<and> list_all is_digit f \<and> decimal f \<le> 255"

definition dotted_quad :: "bytes \<Rightarrow> bool" where
  "dotted_quad text \<longleftrightarrow> length (dot_fields text) = 4 \<and> list_all octet_text (dot_fields text)"

definition show_octet :: "u8 \<Rightarrow> bytes" where
  "show_octet v = (let n = unat v; d = (\<lambda>k. word_of_nat (48 + k)) in
     if n < 10 then [d n] else if n < 100 then [d (n div 10), d (n mod 10)]
     else [d (n div 100), d (n div 10 mod 10), d (n mod 10)])"

definition show_ipv4 :: "Ipv4 \<Rightarrow> bytes" where
  "show_ipv4 ip = show_octet (octets ip ! 0) @ ch_dot # show_octet (octets ip ! 1)
     @ ch_dot # show_octet (octets ip ! 2) @ ch_dot # show_octet (octets ip ! 3)"

lemma fields_nonempty [simp]: "dot_fields s \<noteq> []"
  by (induction s) (auto split: list.splits)

lemma fields_append:
  "ch_dot \<notin> set p \<Longrightarrow> dot_fields (p @ t) = (p @ hd (dot_fields t)) # tl (dot_fields t)"
  by (induction p) (auto split: list.splits)

lemma decimal_append: "decimal (p @ q) = foldl (\<lambda>n c. 10 * n + unat (c - ch_0)) (decimal p) q"
  by (simp add: decimal_def)

lemma decimal_mono: "decimal p \<le> decimal (p @ q)"
  unfolding decimal_append by (induction q rule: rev_induct) auto

lemma digits_no_dot: "list_all is_digit p \<Longrightarrow> ch_dot \<notin> set p"
  by (auto simp: list_all_iff is_digit_def ch_0_def ch_dot_def)

definition parsed :: "nat \<Rightarrow> Ipv4 \<Rightarrow> bytes list \<Rightarrow> (nat \<times> Ipv4) option" where
  "parsed k r fs = (if list_all octet_text fs \<and> k + length fs \<le> 4
     then Some (k + length fs, r\<lparr>octets := write_at (octets r) k (map (\<lambda>f. word_of_nat (decimal f)) fs)\<rparr>) else None)"

lemma decimal_digit:
  assumes "is_digit c"
  shows "unat (c - ch_0) \<le> 9"
proof -
  have "unat c \<le> 57" "48 \<le> unat c" using assms by (auto simp: is_digit_def ch_0_def ch_9_def word_le_nat_alt)
  then show ?thesis by (simp add: ch_0_def unat_sub_if')
qed

lemma next_value:
  assumes "is_digit c" and "decimal p \<le> 255"
  shows "word_of_nat (decimal p) * 10 + ucast (c - ch_0) = (word_of_nat (decimal (p @ [c])) :: u32)"
    and "(255 :: u32) < word_of_nat (decimal (p @ [c])) \<longleftrightarrow> 255 < decimal (p @ [c])"
proof -
  have d: "decimal (p @ [c]) = 10 * decimal p + unat (c - ch_0)" by (simp add: decimal_def)
  show "word_of_nat (decimal p) * 10 + ucast (c - ch_0) = (word_of_nat (decimal (p @ [c])) :: u32)"
    unfolding d by (simp add: ac_simps)
  have "decimal (p @ [c]) < 2 ^ 32" using d decimal_digit [OF assms(1)] assms(2) by simp
  then show "(255 :: u32) < word_of_nat (decimal (p @ [c])) \<longleftrightarrow> 255 < decimal (p @ [c])"
    by (simp add: word_less_nat_alt unat_of_nat)
qed

lemma not_octet_text:
  "length f > 3 \<Longrightarrow> \<not> octet_text f" "decimal f > 255 \<Longrightarrow> \<not> octet_text f"
  "c \<in> set f \<Longrightarrow> \<not> is_digit c \<Longrightarrow> \<not> octet_text f"
  by (auto simp: octet_text_def list_all_iff)

lemma write_at_update:
  "k < length xs \<Longrightarrow> write_at (xs[k := v]) (Suc k) ys = write_at xs k (v # ys)"
  by (simp add: write_at_def take_Suc_conv_app_nth)

lemma octet_value: "n \<le> 255 \<Longrightarrow> ucast (word_of_nat n :: u32) = (word_of_nat n :: u8)"
  by (simp add: unsigned_of_nat take_bit_nat_eq_self)

lemma parse_loop_spec:
  assumes "list_all is_digit p" and "length p \<le> 3" and "decimal p \<le> 255" and "length (octets r) = 4"
  shows "parse_loop str (word_of_nat (decimal p)) (length p) k r = parsed k r (dot_fields (p @ takeWhile (\<lambda>c. c \<noteq> 0) str))"
  using assms
proof (induction str arbitrary: p k r)
  case Nil
  have "dot_fields p = [p]" using fields_append [of p "[]"] digits_no_dot [OF Nil.prems(1)] by simp
  then show ?case using Nil octet_value [of "decimal p"]
    by (subst parse_loop.simps) (auto simp: char_at_def ch_0_def ch_dot_def parsed_def octet_text_def write_at_def upd_conv_take_nth_drop)
next
  case (Cons c str)
  let ?t = "takeWhile (\<lambda>c. c \<noteq> 0) str"
  note nd = digits_no_dot [OF Cons.prems(1)]
  note u8 = octet_value [OF Cons.prems(3)]
  consider "is_digit c" | "c = ch_dot" | "c = 0" | "\<not> is_digit c" "c \<noteq> ch_dot" "c \<noteq> 0" by blast
  then show ?case
  proof cases
    case 1
    then have c: "ch_0 \<le> c" "c \<le> ch_9" "c \<noteq> 0" "c \<noteq> ch_dot"
      by (auto simp: is_digit_def ch_0_def ch_dot_def)
    have f: "dot_fields (p @ c # ?t) = (p @ c # hd (dot_fields ?t)) # tl (dot_fields ?t)"
      using fields_append [of "p @ [c]" ?t] nd c by simp
    consider "length p = 3" | "length p < 3" "255 < decimal (p @ [c])" | "length p < 3" "decimal (p @ [c]) \<le> 255"
      using Cons.prems(2) by linarith
    then show ?thesis
    proof cases
      case 1
      then show ?thesis using c f
        by (subst parse_loop.simps) (simp add: char_at_def parsed_def not_octet_text(1))
    next
      case 2
      have "255 < decimal (p @ c # hd (dot_fields ?t))" using 2 decimal_mono [of "p @ [c]" "hd (dot_fields ?t)"] by simp
      then show ?thesis using c f 2 next_value [OF \<open>is_digit c\<close> Cons.prems(3)]
        by (subst parse_loop.simps) (simp add: char_at_def parsed_def not_octet_text(2))
    next
      case 3
      then show ?thesis using c f next_value [OF \<open>is_digit c\<close> Cons.prems(3)] Cons.IH [of "p @ [c]" r k] Cons.prems \<open>is_digit c\<close>
        by (subst parse_loop.simps) (simp add: char_at_def)
    qed
  next
    case 2
    have f: "dot_fields (p @ c # ?t) = p # dot_fields ?t" using fields_append [of p "c # ?t"] nd 2 by simp
    have z: "decimal [] = 0" by (simp add: decimal_def)
    have c: "\<not> (ch_0 \<le> c \<and> c \<le> ch_9)" "c \<noteq> 0" using 2 by (auto simp: ch_0_def ch_dot_def)
    show ?thesis using Cons.IH [of "[]" "r\<lparr>octets := (octets r)[k := word_of_nat (decimal p)]\<rparr>" "Suc k"] Cons.prems f z 2 c u8
      by (subst parse_loop.simps) (auto simp: char_at_def parsed_def octet_text_def write_at_update)
  next
    case 3
    have "dot_fields p = [p]" using fields_append [of p "[]"] nd by simp
    then show ?thesis using Cons.prems 3 u8
      by (subst parse_loop.simps) (auto simp: char_at_def ch_0_def parsed_def octet_text_def write_at_def upd_conv_take_nth_drop)
  next
    case 4
    have "dot_fields (p @ c # ?t) = (p @ hd (dot_fields (c # ?t))) # tl (dot_fields (c # ?t))"
      by (rule fields_append [OF nd])
    moreover have "c \<in> set (hd (dot_fields (c # ?t)))" using 4 by (auto split: list.splits)
    ultimately show ?thesis using 4 not_octet_text(3) [of c "p @ hd (dot_fields (c # ?t))"]
      by (subst parse_loop.simps) (auto simp: char_at_def parsed_def is_digit_def)
  qed
qed

lemma parse_ipv4_Some:
  "parse_ipv4 (Some str) out = (let t = takeWhile (\<lambda>c. c \<noteq> 0) str in
     if dotted_quad t then (True, \<lparr>octets = map (\<lambda>f. word_of_nat (decimal f)) (dot_fields t)\<rparr>) else (False, out))"
proof -
  let ?t = "takeWhile (\<lambda>c. c \<noteq> 0) str"
  have "parse_loop str 0 0 0 Ipv4_0 = parsed 0 Ipv4_0 (dot_fields ?t)"
    using parse_loop_spec [of "[]" Ipv4_0 str 0] by (simp add: decimal_def Ipv4_0_def)
  then show ?thesis
    by (auto simp: parse_ipv4_def parsed_def dotted_quad_def Ipv4_0_def write_at_def Let_def)
qed

lemma show_octet_props:
  "octet_text (show_octet v)" "decimal (show_octet v) = unat v" "0 \<notin> set (show_octet v)" "ch_dot \<notin> set (show_octet v)"
proof -
  have v: "unat v < 256" by (rule unat_u8_less)
  have d: "unat (word_of_nat (48 + k) :: u8) = 48 + k" "unat (word_of_nat (48 + k) - ch_0 :: u8) = k" if "k < 10" for k
  proof -
    show "unat (word_of_nat (48 + k) :: u8) = 48 + k" using that by (simp add: unat_of_nat del: of_nat_add)
    have "(word_of_nat (48 + k) :: u8) - ch_0 = word_of_nat k" by (simp add: ch_0_def)
    then show "unat (word_of_nat (48 + k) - ch_0 :: u8) = k" using that by (simp add: unat_of_nat)
  qed
  have dg: "is_digit (word_of_nat (48 + k))" if "k < 10" for k
    using d(1) [OF that] that by (simp only: is_digit_def ch_0_def ch_9_def word_le_nat_alt) simp
  have m: "unat v div 100 < 10" using v by simp
  have q: "unat v div 100 = unat v div 10 div 10" by (simp add: div_mult2_eq [symmetric])
  have n: "100 * (unat v div 100) + (10 * (unat v div 10 mod 10) + unat v mod 10) = unat v"
    unfolding q using mult_div_mod_eq [of 10 "unat v"] mult_div_mod_eq [of 10 "unat v div 10"] by linarith
  show dec: "decimal (show_octet v) = unat v"
  proof -
    consider "unat v < 10" | "\<not> unat v < 10" "unat v < 100" | "\<not> unat v < 100" by linarith
    then show ?thesis
    proof cases
      case 1
      then show ?thesis using d(2) [OF 1]
        by (simp only: show_octet_def decimal_def Let_def if_True foldl.simps mult_0_right add_0)
    next
      case 2
      then have "unat v div 10 < 10" "10 * (unat v div 10) + unat v mod 10 = unat v" by simp_all
      then show ?thesis using 2 d(2) [of "unat v div 10"] d(2) [of "unat v mod 10"]
        by (simp only: show_octet_def decimal_def Let_def if_True if_False foldl.simps mult_0_right add_0)
    next
      case 3
      then show ?thesis using n d(2) [OF m] d(2) [of "unat v div 10 mod 10"] d(2) [of "unat v mod 10"]
        by (simp only: show_octet_def decimal_def Let_def if_True if_False foldl.simps) simp
    qed
  qed
  have all: "list_all is_digit (show_octet v)"
    using dg m by (auto simp: show_octet_def Let_def simp del: of_nat_add)
  then show "octet_text (show_octet v)" using dec v by (simp add: octet_text_def) (simp add: show_octet_def Let_def)
  show "ch_dot \<notin> set (show_octet v)" using digits_no_dot [OF all] .
  show "0 \<notin> set (show_octet v)" using all by (auto simp: list_all_iff is_digit_def ch_0_def)
qed

lemma fields_show:
  "dot_fields (show_ipv4 ip) = map show_octet [octets ip ! 0, octets ip ! 1, octets ip ! 2, octets ip ! 3]"
  using show_octet_props(4) fields_append [of "show_octet (octets ip ! 3)" "[]"]
  by (simp add: show_ipv4_def fields_append)

lemma unat_to_uint32:
  "unat (to_uint32 ip) = 256 * (256 * (256 * unat (octets ip ! 0) + unat (octets ip ! 1)) + unat (octets ip ! 2)) + unat (octets ip ! 3)"
proof -
  define a b c d where "a = octets ip ! 0" and "b = octets ip ! 1" and "c = octets ip ! 2" and "d = octets ip ! 3"
  have "push_bit 24 (ucast a :: u32) OR push_bit 16 (ucast b) OR push_bit 8 (ucast c) OR ucast d
      = push_bit 24 (ucast a) + (push_bit 16 (ucast b) + (push_bit 8 (ucast c) + ucast d))"
    by (subst disjunctive_add_eq_or [symmetric], rule bit_word_eqI, auto simp: bit_simps or.assoc dest: bit_imp_le_length)+
  also have "\<dots> = word_of_nat (256 * (256 * (256 * unat a + unat b) + unat c) + unat d)"
    by (simp add: push_bit_eq_mult algebra_simps)
  finally have "unat (to_uint32 ip) = (256 * (256 * (256 * unat a + unat b) + unat c) + unat d) mod 2 ^ LENGTH(32)"
    by (simp only: to_uint32_def unat_of_nat a_def b_def c_def d_def)
  then show ?thesis
    using unat_u8_less [of a] unat_u8_less [of b] unat_u8_less [of c] unat_u8_less [of d]
    by (simp add: a_def b_def c_def d_def)
qed

section \<open>Properties\<close>

text \<open>C26: The parser accepts exactly the dotted quads. The text up to its terminator is accepted if
  and only if it is four fields separated by dots, each of one to three decimal digits with a
  value of at most 255; the address is the four values, and a refused text leaves the output alone.\<close>

theorem parse_ipv4_exact:
  "parse_ipv4 (Some str) out = (let t = takeWhile (\<lambda>c. c \<noteq> 0) str in
     if dotted_quad t then (True, \<lparr>octets = map (\<lambda>f. word_of_nat (decimal f)) (dot_fields t)\<rparr>) else (False, out))"
  by (rule parse_ipv4_Some)

text \<open>Every address is the one its dotted-quad notation parses to, and its four octets are the
  digits of its 32-bit value to base 256, most significant first.\<close>

theorem ipv4_roundtrip:
  assumes "length (octets ip) = 4"
  shows "ipv4 (Some (show_ipv4 ip)) = ip
    \<and> unat (to_uint32 ip) = foldl (\<lambda>n v. 256 * n + unat v) 0 (octets ip)"
proof -
  obtain a b c d where o: "octets ip = [a, b, c, d]"
    using assms by (auto simp: length_Suc_conv eval_nat_numeral)
  have t: "takeWhile (\<lambda>c. c \<noteq> 0) (show_ipv4 ip) = show_ipv4 ip"
    using show_octet_props(3) by (auto simp: takeWhile_eq_all_conv show_ipv4_def ch_dot_def)
  have "dotted_quad (show_ipv4 ip)" using show_octet_props(1) by (simp add: dotted_quad_def fields_show)
  then have "parse_ipv4 (Some (show_ipv4 ip)) Ipv4_0 = (True, ip)"
    unfolding parse_ipv4_Some Let_def t by (simp add: fields_show show_octet_props(2) o)
  then show ?thesis by (simp add: ipv4_def unat_to_uint32 o)
qed

theorem ipv4_roundtrip_witness:
  "ipv4 (Some (show_ipv4 \<lparr>octets = [192, 168, 1, 50]\<rparr>)) = \<lparr>octets = [192, 168, 1, 50]\<rparr>
   \<and> show_ipv4 \<lparr>octets = [192, 168, 1, 50]\<rparr> = lit ''192.168.1.50''
   \<and> unat (to_uint32 \<lparr>octets = [192, 168, 1, 50]\<rparr>) = 3232235826"
proof -
  have "show_ipv4 \<lparr>octets = [192, 168, 1, 50]\<rparr> = lit ''192.168.1.50''" by code_simp
  then show ?thesis using ipv4_roundtrip [of "\<lparr>octets = [192, 168, 1, 50]\<rparr>"] by simp
qed

end
