(* ===== verification/Sockets.thy ===== *)
theory Sockets
  imports Transport Config Ip_Address "HOL-Library.Signed_Division"
begin

text \<open>
  The two transports over BSD sockets: \<^verbatim>\<open>examples/tcp_ip_transport.hpp\<close> and
  \<^verbatim>\<open>examples/posix_transport.hpp\<close>, with the clock of \<^verbatim>\<open>examples/posix_clock.hpp\<close>. The operating system
  is a parameter: a record of the system calls the code makes, on a kernel state \<open>'k\<close>. A call
  returns the integer the C function returns; \<open>sys_errno\<close> reads \<open>errno\<close>. What the code relies on is
  \<open>posix_ok\<close>: the counts that \<open>send\<close> and \<open>recv\<close> return, and which calls open and close descriptors.
\<close>

section \<open>The operating system\<close>

datatype Errno = EAGAIN | EWOULDBLOCK | EINTR | EPIPE | ECONNRESET | ENOTCONN | EINPROGRESS | EALREADY | EOther int

text \<open>A socket address: port and address in network byte order.\<close>

record sockaddr =
  sin_port :: bytes
  sin_addr :: bytes

record addrinfo =
  ai_family :: int
  ai_socktype :: int
  ai_protocol :: int
  ai_addr :: sockaddr

record 'k posix_api =
  AF_INET :: int
  SOCK_STREAM :: int
  IPPROTO_TCP :: int
  O_NONBLOCK :: int
  sys_getaddrinfo :: "bytes \<Rightarrow> bytes \<Rightarrow> int \<Rightarrow> int \<Rightarrow> 'k \<Rightarrow> int \<times> addrinfo option \<times> 'k"
  sys_freeaddrinfo :: "addrinfo \<Rightarrow> 'k \<Rightarrow> 'k"
  sys_socket :: "int \<Rightarrow> int \<Rightarrow> int \<Rightarrow> 'k \<Rightarrow> int \<times> 'k"
  sys_getfl :: "int \<Rightarrow> 'k \<Rightarrow> int \<times> 'k"
  sys_setfl :: "int \<Rightarrow> int \<Rightarrow> 'k \<Rightarrow> int \<times> 'k"
  sys_nodelay :: "int \<Rightarrow> 'k \<Rightarrow> 'k"
  sys_connect :: "int \<Rightarrow> sockaddr \<Rightarrow> 'k \<Rightarrow> int \<times> 'k"
  sys_poll_out :: "int \<Rightarrow> 'k \<Rightarrow> int \<times> 'k"
  sys_poll_in :: "int \<Rightarrow> int \<Rightarrow> 'k \<Rightarrow> 'k"
  sys_select_write :: "int \<Rightarrow> 'k \<Rightarrow> int \<times> 'k"
  sys_select_read :: "int \<Rightarrow> int \<times> int \<Rightarrow> 'k \<Rightarrow> 'k"
  sys_so_error :: "int \<Rightarrow> 'k \<Rightarrow> int \<times> int \<times> 'k"
  sys_send :: "int \<Rightarrow> bytes \<Rightarrow> 'k \<Rightarrow> int \<times> 'k"
  sys_recv :: "int \<Rightarrow> bytes \<Rightarrow> 'k \<Rightarrow> int \<times> bytes \<times> 'k"
  sys_close :: "int \<Rightarrow> 'k \<Rightarrow> 'k"
  sys_errno :: "'k \<Rightarrow> Errno"
  sys_monotonic :: "'k \<Rightarrow> (u64 \<times> u64) \<times> 'k"

text \<open>The members of a transport that change, and the kernel.\<close>

record 'k sock_env =
  se_os :: 'k
  se_fd :: int
  se_connected :: bool

definition sock_env0 :: "'k \<Rightarrow> 'k sock_env" where
  "sock_env0 k = \<lparr>se_os = k, se_fd = - 1, se_connected = False\<rparr>"

section \<open>The clock\<close>

definition posix_now_ms :: "'k posix_api \<Rightarrow> 'k sock_env \<Rightarrow> u32 \<times> 'k sock_env" where
  "posix_now_ms api env =
     (case sys_monotonic api (se_os env) of
        ((tv_sec, tv_nsec), k) \<Rightarrow> (ucast (tv_sec * 1000 + tv_nsec div 1000000), env\<lparr>se_os := k\<rparr>))"

section \<open>TcpIpTransport\<close>

definition htonl :: "u32 \<Rightarrow> bytes" where
  "htonl v = [ucast (drop_bit 24 v), ucast (drop_bit 16 v), ucast (drop_bit 8 v), ucast v]"

definition tcp_close :: "'k posix_api \<Rightarrow> 'k sock_env \<Rightarrow> 'k sock_env" where
  "tcp_close api env =
     (let env = (if se_fd env \<ge> 0 then env\<lparr>se_os := sys_close api (se_fd env) (se_os env)\<rparr> else env)
      in env\<lparr>se_fd := - 1, se_connected := False\<rparr>)"

definition tcp_classify :: "Errno \<Rightarrow> Error" where
  "tcp_classify e =
     (if e = EAGAIN \<or> e = EWOULDBLOCK \<or> e = EINTR then WouldBlock
      else if e = EPIPE \<or> e = ECONNRESET \<or> e = ENOTCONN then TransportClosed
      else TransportFailure)"

definition tcp_begin_connect ::
  "'k posix_api \<Rightarrow> Ipv4 \<Rightarrow> u16 \<Rightarrow> 'k sock_env \<Rightarrow> Error \<times> 'k sock_env" where
  "tcp_begin_connect api address port env =
     (case sys_socket api (AF_INET api) (SOCK_STREAM api) (IPPROTO_TCP api) (se_os env) of
        (fd, k) \<Rightarrow>
          let env = env\<lparr>se_fd := fd, se_os := k\<rparr> in
          if fd < 0 then (TransportFailure, env)
          else
            (case sys_getfl api fd (se_os env) of
               (flags, k) \<Rightarrow>
                 let env = env\<lparr>se_os := k\<rparr> in
                 if flags < 0 then (TransportFailure, tcp_close api env)
                 else
                   (case sys_setfl api fd (flags OR O_NONBLOCK api) (se_os env) of
                      (rc, k) \<Rightarrow>
                        let env = env\<lparr>se_os := k\<rparr> in
                        if rc < 0 then (TransportFailure, tcp_close api env)
                        else
                          let env = env\<lparr>se_os := sys_nodelay api fd (se_os env)\<rparr>;
                              addr = \<lparr>sin_port = be16 port, sin_addr = htonl (to_uint32 address)\<rparr>
                          in
                          (case sys_connect api fd addr (se_os env) of
                             (rc, k) \<Rightarrow>
                               let env = env\<lparr>se_os := k\<rparr> in
                               if rc = 0 then (Ok, env\<lparr>se_connected := True\<rparr>)
                               else if sys_errno api k \<in> {EINPROGRESS, EALREADY, EINTR}
                               then (WouldBlock, env)
                               else (TransportFailure, tcp_close api env)))))"

text \<open>The end of both \<open>connect\<close> functions: writable does not mean connected.\<close>

definition collect_so_error :: "'k posix_api \<Rightarrow> 'k sock_env \<Rightarrow> Error \<times> 'k sock_env" where
  "collect_so_error api env =
     (case sys_so_error api (se_fd env) (se_os env) of
        (rc, err, k) \<Rightarrow>
          let env = env\<lparr>se_os := k\<rparr> in
          if rc < 0 \<or> err \<noteq> 0 then (TransportFailure, tcp_close api env)
          else (Ok, env\<lparr>se_connected := True\<rparr>))"

definition tcp_finish_connect :: "'k posix_api \<Rightarrow> 'k sock_env \<Rightarrow> Error \<times> 'k sock_env" where
  "tcp_finish_connect api env =
     (case sys_poll_out api (se_fd env) (se_os env) of
        (ready, k) \<Rightarrow>
          let env = env\<lparr>se_os := k\<rparr> in
          if ready < 0 then
            if sys_errno api k = EINTR then (WouldBlock, env) else (TransportFailure, tcp_close api env)
          else if ready = 0 then (WouldBlock, env)
          else collect_so_error api env)"

definition tcp_connect :: "'k posix_api \<Rightarrow> Ipv4 \<Rightarrow> u16 \<Rightarrow> 'k sock_env \<Rightarrow> Error \<times> 'k sock_env" where
  "tcp_connect api address port env =
     (if se_connected env then (Ok, env)
      else if se_fd env < 0 then tcp_begin_connect api address port env
      else tcp_finish_connect api env)"

definition tcp_send :: "'k posix_api \<Rightarrow> bytes \<Rightarrow> 'k sock_env \<Rightarrow> Error \<times> nat \<times> 'k sock_env" where
  "tcp_send api data env =
     (if se_fd env < 0 \<or> \<not> se_connected env then (TransportClosed, 0, env)
      else
        (case sys_send api (se_fd env) data (se_os env) of
           (n, k) \<Rightarrow>
             let env = env\<lparr>se_os := k\<rparr> in
             if n > 0 then (Ok, nat n, env)
             else if n = 0 then (TransportClosed, 0, env)
             else (tcp_classify (sys_errno api k), 0, env)))"

definition tcp_recv :: "'k posix_api \<Rightarrow> bytes \<Rightarrow> 'k sock_env \<Rightarrow> Error \<times> nat \<times> bytes \<times> 'k sock_env" where
  "tcp_recv api buffer env =
     (if se_fd env < 0 \<or> \<not> se_connected env then (TransportClosed, 0, buffer, env)
      else
        (case sys_recv api (se_fd env) buffer (se_os env) of
           (n, buffer, k) \<Rightarrow>
             let env = env\<lparr>se_os := k\<rparr> in
             if n > 0 then (Ok, nat n, buffer, env)
             else if n = 0 then (TransportClosed, 0, buffer, env)
             else (tcp_classify (sys_errno api k), 0, buffer, env)))"

definition tcp_wait_readable :: "'k posix_api \<Rightarrow> int \<Rightarrow> 'k sock_env \<Rightarrow> 'k sock_env" where
  "tcp_wait_readable api timeout_ms env =
     (if se_fd env < 0 then env else env\<lparr>se_os := sys_poll_in api (se_fd env) timeout_ms (se_os env)\<rparr>)"

definition tcp_platform :: "'k posix_api \<Rightarrow> Ipv4 \<Rightarrow> u16 \<Rightarrow> 'k sock_env platform" where
  "tcp_platform api address port = \<lparr>tr_connect = tcp_connect api address port, tr_send = tcp_send api,
     tr_recv = tcp_recv api, tr_close = tcp_close api, tr_is_connected = se_connected, now_ms = posix_now_ms api\<rparr>"

section \<open>PosixTransport\<close>

text \<open>\<open>snprintf(port_text, sizeof(port_text), "%u", port)\<close>.\<close>

fun decimal_text :: "nat \<Rightarrow> bytes" where
  "decimal_text n = (if n < 10 then [word_of_nat (48 + n)] else decimal_text (n div 10) @ [word_of_nat (48 + n mod 10)])"

declare decimal_text.simps [simp del]

definition posix_close :: "'k posix_api \<Rightarrow> 'k sock_env \<Rightarrow> 'k sock_env" where
  "posix_close api env =
     (let env = (if se_fd env \<ge> 0 then env\<lparr>se_os := sys_close api (se_fd env) (se_os env)\<rparr> else env)
      in env\<lparr>se_fd := - 1, se_connected := False\<rparr>)"

text \<open>The first call: resolve, open, start.\<close>

definition posix_begin_connect ::
  "'k posix_api \<Rightarrow> bytes \<Rightarrow> u16 \<Rightarrow> 'k sock_env \<Rightarrow> Error \<times> 'k sock_env" where
  "posix_begin_connect api host port env =
     (case sys_getaddrinfo api host (decimal_text (unat port)) (AF_INET api) (SOCK_STREAM api) (se_os env) of
        (rc, res, k) \<Rightarrow>
          let env = env\<lparr>se_os := k\<rparr> in
          (case (if rc \<noteq> 0 then None else res) of
             None \<Rightarrow> (TransportFailure, env)
           | Some res \<Rightarrow>
               (case sys_socket api (ai_family res) (ai_socktype res) (ai_protocol res) (se_os env) of
                  (fd, k) \<Rightarrow>
                    let env = env\<lparr>se_fd := fd, se_os := k\<rparr> in
                    if fd < 0 then (TransportFailure, env\<lparr>se_os := sys_freeaddrinfo api res (se_os env)\<rparr>)
                    else
                      (case sys_getfl api fd (se_os env) of
                         (flags, k) \<Rightarrow>
                           let k = snd (sys_setfl api fd (flags OR O_NONBLOCK api) k);
                               k = sys_nodelay api fd k
                           in
                           (case sys_connect api fd (ai_addr res) k of
                              (rc, k) \<Rightarrow>
                                let k = sys_freeaddrinfo api res k;
                                    env = env\<lparr>se_os := k\<rparr>
                                in
                                if rc = 0 then (Ok, env\<lparr>se_connected := True\<rparr>)
                                else if sys_errno api k \<in> {EINPROGRESS, EALREADY} then (WouldBlock, env)
                                else (TransportFailure, posix_close api env))))))"

definition posix_connect :: "'k posix_api \<Rightarrow> bytes \<Rightarrow> u16 \<Rightarrow> 'k sock_env \<Rightarrow> Error \<times> 'k sock_env" where
  "posix_connect api host port env =
     (if se_fd env \<ge> 0 \<and> se_connected env then (Ok, env)
      else if se_fd env < 0 then posix_begin_connect api host port env
      else
        (case sys_select_write api (se_fd env) (se_os env) of
           (ready, k) \<Rightarrow>
             let env = env\<lparr>se_os := k\<rparr> in
             if ready < 0 then (TransportFailure, posix_close api env)
             else if ready = 0 then (WouldBlock, env)
             else collect_so_error api env))"

definition posix_send :: "'k posix_api \<Rightarrow> bytes \<Rightarrow> 'k sock_env \<Rightarrow> Error \<times> nat \<times> 'k sock_env" where
  "posix_send api data env =
     (if se_fd env < 0 \<or> \<not> se_connected env then (TransportClosed, 0, env)
      else
        (case sys_send api (se_fd env) data (se_os env) of
           (n, k) \<Rightarrow>
             let env = env\<lparr>se_os := k\<rparr>; e = sys_errno api k in
             if n > 0 then (Ok, nat n, env)
             else if n = 0 then (TransportClosed, 0, env)
             else if e = EAGAIN \<or> e = EWOULDBLOCK \<or> e = EINTR then (WouldBlock, 0, env)
             else (if e = EPIPE \<or> e = ECONNRESET then TransportClosed else TransportFailure, 0, env)))"

definition posix_recv :: "'k posix_api \<Rightarrow> bytes \<Rightarrow> 'k sock_env \<Rightarrow> Error \<times> nat \<times> bytes \<times> 'k sock_env" where
  "posix_recv api buffer env =
     (if se_fd env < 0 \<or> \<not> se_connected env then (TransportClosed, 0, buffer, env)
      else
        (case sys_recv api (se_fd env) buffer (se_os env) of
           (n, buffer, k) \<Rightarrow>
             let env = env\<lparr>se_os := k\<rparr>; e = sys_errno api k in
             if n > 0 then (Ok, nat n, buffer, env)
             else if n = 0 then (TransportClosed, 0, buffer, env)
             else if e = EAGAIN \<or> e = EWOULDBLOCK \<or> e = EINTR then (WouldBlock, 0, buffer, env)
             else (if e = ECONNRESET then TransportClosed else TransportFailure, 0, buffer, env)))"

definition posix_wait_readable :: "'k posix_api \<Rightarrow> int \<Rightarrow> 'k sock_env \<Rightarrow> 'k sock_env" where
  "posix_wait_readable api timeout_ms env =
     (if se_fd env < 0 then env
      else env\<lparr>se_os := sys_select_read api (se_fd env) (timeout_ms sdiv 1000, timeout_ms smod 1000 * 1000) (se_os env)\<rparr>)"

definition posix_platform :: "'k posix_api \<Rightarrow> bytes \<Rightarrow> u16 \<Rightarrow> 'k sock_env platform" where
  "posix_platform api host port = \<lparr>tr_connect = posix_connect api host port, tr_send = posix_send api,
     tr_recv = posix_recv api, tr_close = posix_close api, tr_is_connected = se_connected, now_ms = posix_now_ms api\<rparr>"

section \<open>What the code relies on\<close>

text \<open>\<open>send\<close> and \<open>recv\<close> return at most the length they were given and \<open>recv\<close> writes only the buffer.\<close>

definition counts_ok :: "'k posix_api \<Rightarrow> bool" where
  "counts_ok api \<longleftrightarrow>
     (\<forall>fd data k. fst (sys_send api fd data k) \<le> int (length data)) \<and>
     (\<forall>fd buf k. fst (sys_recv api fd buf k) \<le> int (length buf) \<and> length (fst (snd (sys_recv api fd buf k))) = length buf)"

text \<open>\<open>socket\<close> opens a descriptor that was not open, \<open>close\<close> closes the one it is given, and no
  other call opens or closes one.\<close>

definition fds_ok :: "'k posix_api \<Rightarrow> ('k \<Rightarrow> int set) \<Rightarrow> bool" where
  "fds_ok api opened \<longleftrightarrow>
     (\<forall>f t p k. case sys_socket api f t p k of (fd, k') \<Rightarrow>
        if fd < 0 then opened k' = opened k else fd \<notin> opened k \<and> opened k' = insert fd (opened k)) \<and>
     (\<forall>fd k. opened (sys_close api fd k) = opened k - {fd}) \<and>
     (\<forall>h p f t k. opened (snd (snd (sys_getaddrinfo api h p f t k))) = opened k) \<and>
     (\<forall>r k. opened (sys_freeaddrinfo api r k) = opened k) \<and>
     (\<forall>fd k. opened (snd (sys_getfl api fd k)) = opened k) \<and>
     (\<forall>fd fl k. opened (snd (sys_setfl api fd fl k)) = opened k) \<and>
     (\<forall>fd k. opened (sys_nodelay api fd k) = opened k) \<and>
     (\<forall>fd a k. opened (snd (sys_connect api fd a k)) = opened k) \<and>
     (\<forall>fd k. opened (snd (sys_poll_out api fd k)) = opened k) \<and>
     (\<forall>fd k. opened (snd (sys_select_write api fd k)) = opened k) \<and>
     (\<forall>fd k. opened (snd (snd (sys_so_error api fd k))) = opened k) \<and>
     (\<forall>fd d k. opened (snd (sys_send api fd d k)) = opened k) \<and>
     (\<forall>fd b k. opened (snd (snd (sys_recv api fd b k))) = opened k) \<and>
     (\<forall>k. opened (snd (sys_monotonic api k)) = opened k)"

section \<open>Sequences of calls\<close>

datatype tr_op = OpConnect | OpSend bytes | OpRecv bytes | OpNow

definition tr_call :: "'e platform \<Rightarrow> tr_op \<Rightarrow> 'e \<Rightarrow> 'e" where
  "tr_call pl oper env =
     (case oper of
        OpConnect \<Rightarrow> snd (tr_connect pl env)
      | OpSend data \<Rightarrow> snd (snd (tr_send pl data env))
      | OpRecv buf \<Rightarrow> snd (snd (snd (tr_recv pl buf env)))
      | OpNow \<Rightarrow> snd (now_ms pl env))"

text \<open>A transport that owns what it opened: every call keeps \<open>owns\<close>, and \<open>close\<close> gives everything back.\<close>

locale resource_owner =
  fixes pl :: "'e platform" and owns :: "'e \<Rightarrow> bool" and released :: "'e \<Rightarrow> bool"
  assumes connect_owns: "owns env \<Longrightarrow> owns (snd (tr_connect pl env))"
    and send_owns: "owns env \<Longrightarrow> owns (snd (snd (tr_send pl data env)))"
    and recv_owns: "owns env \<Longrightarrow> owns (snd (snd (snd (tr_recv pl buf env))))"
    and clock_owns: "owns env \<Longrightarrow> owns (snd (now_ms pl env))"
    and close_releases: "owns env \<Longrightarrow> released (tr_close pl env)"
begin

lemma calls_own: "owns env \<Longrightarrow> owns (fold (tr_call pl) opers env)"
proof (induction opers arbitrary: env)
  case (Cons oper opers)
  have "owns (tr_call pl oper env)"
    using Cons.prems by (cases oper) (simp_all add: tr_call_def connect_owns send_owns recv_owns clock_owns)
  then show ?case using Cons.IH by simp
qed simp

lemma close_after_calls: "owns env \<Longrightarrow> released (tr_close pl (fold (tr_call pl) opers env))"
  by (intro close_releases calls_own)

end

interpretation fake_owner: resource_owner fake_platform "\<lambda>_. True" "\<lambda>env. \<not> f_connected env"
  by unfold_locales (simp_all add: fake_platform_def fake_close_def)

definition owns_fd :: "('k \<Rightarrow> int set) \<Rightarrow> int set \<Rightarrow> 'k sock_env \<Rightarrow> bool" where
  "owns_fd opened base env \<longleftrightarrow>
     opened (se_os env) = (if se_fd env \<ge> 0 then insert (se_fd env) base else base)
     \<and> (se_fd env \<ge> 0 \<longrightarrow> se_fd env \<notin> base) \<and> (se_connected env \<longrightarrow> se_fd env \<ge> 0)"

lemma posix_close_eq: "posix_close = tcp_close"
  by (simp add: posix_close_def tcp_close_def fun_eq_iff)

lemma counts_okD:
  assumes "counts_ok api"
  shows "sys_send api fd data k = (n, k') \<Longrightarrow> n \<le> int (length data)"
    "sys_recv api fd buf k = (n, buf', k') \<Longrightarrow> n \<le> int (length buf) \<and> length buf' = length buf"
proof -
  show "sys_send api fd data k = (n, k') \<Longrightarrow> n \<le> int (length data)"
    using assms unfolding counts_ok_def by (metis fst_conv)
  show "sys_recv api fd buf k = (n, buf', k') \<Longrightarrow> n \<le> int (length buf) \<and> length buf' = length buf"
    using assms unfolding counts_ok_def by (metis fst_conv snd_conv)
qed

lemmas sock_connect_defs = tcp_connect_def tcp_begin_connect_def tcp_finish_connect_def posix_connect_def
  posix_begin_connect_def collect_so_error_def

lemma connect_parts_codes:
  assumes "Ok \<in> C" "WouldBlock \<in> C" "TransportFailure \<in> C"
  shows "fst (tcp_begin_connect api address port env) \<in> C" "fst (posix_begin_connect api host port env) \<in> C"
    "fst (collect_so_error api env) \<in> C"
  unfolding tcp_begin_connect_def posix_begin_connect_def collect_so_error_def Let_def split_def
  using assms by (simp_all split: option.split)

lemma connect_codes_in:
  assumes "Ok \<in> C" "WouldBlock \<in> C" "TransportFailure \<in> C"
  shows "fst (tcp_connect api address port env) \<in> C" "fst (posix_connect api host port env) \<in> C"
  unfolding tcp_connect_def tcp_finish_connect_def posix_connect_def Let_def split_def
  by (simp_all add: assms connect_parts_codes [OF assms])

lemma sock_connect_codes:
  "fst (tcp_connect api address port env) \<in> {Ok, WouldBlock, TransportFailure}"
  "fst (posix_connect api host port env) \<in> {Ok, WouldBlock, TransportFailure}"
  by (rule connect_codes_in; simp)+

lemma sock_send_ok:
  assumes "counts_ok api" and "tcp_send api data env = (err, n, env') \<or> posix_send api data env = (err, n, env')"
  shows "err \<in> {Ok, WouldBlock, TransportClosed, TransportFailure} \<and> n \<le> length data \<and> (err \<noteq> Ok \<longrightarrow> n = 0)"
proof -
  obtain m k where m: "sys_send api (se_fd env) data (se_os env) = (m, k)" by fastforce
  show ?thesis using assms(2) counts_okD(1) [OF assms(1) m]
    by (auto simp: tcp_send_def posix_send_def tcp_classify_def Let_def m split: if_splits)
qed

lemma sock_recv_ok:
  assumes "counts_ok api" and "tcp_recv api buf env = (err, n, buf', env') \<or> posix_recv api buf env = (err, n, buf', env')"
  shows "err \<in> {Ok, WouldBlock, TransportClosed, TransportFailure} \<and> length buf' = length buf \<and> n \<le> length buf
    \<and> (err \<noteq> Ok \<longrightarrow> n = 0)"
proof -
  obtain m b k where m: "sys_recv api (se_fd env) buf (se_os env) = (m, b, k)" by (metis prod_cases3)
  show ?thesis using assms(2) counts_okD(2) [OF assms(1) m]
    by (auto simp: tcp_recv_def posix_recv_def tcp_classify_def Let_def m split: if_splits)
qed

lemma sock_contracts:
  assumes "counts_ok api"
  shows "transport_contract (tcp_platform api address port)" "transport_contract (posix_platform api host port)"
proof -
  note send_ok = sock_send_ok [OF assms] and recv_ok = sock_recv_ok [OF assms]
  show "transport_contract (tcp_platform api address port)"
    using sock_connect_codes(1) by unfold_locales (simp add: tcp_platform_def, auto simp: tcp_platform_def dest: send_ok [OF disjI1] recv_ok [OF disjI1])
  show "transport_contract (posix_platform api host port)"
    using sock_connect_codes(2) by unfold_locales (simp add: posix_platform_def, auto simp: posix_platform_def dest: send_ok [OF disjI2] recv_ok [OF disjI2])
qed

lemma fds_ok_calls:
  assumes "fds_ok api opened"
  shows "opened (sys_close api fd k) = opened k - {fd}" "opened (sys_freeaddrinfo api r k) = opened k"
    "opened (sys_nodelay api fd k) = opened k" "opened (snd (sys_setfl api fd fl k)) = opened k"
    "opened (snd (snd (sys_getaddrinfo api h sv f t k))) = opened k"
    "opened (snd (sys_getfl api fd k)) = opened k"
    "opened (snd (sys_connect api fd a k)) = opened k"
    "opened (snd (sys_poll_out api fd k)) = opened k"
    "opened (snd (sys_select_write api fd k)) = opened k"
    "opened (snd (snd (sys_so_error api fd k))) = opened k"
    "opened (snd (sys_send api fd d k)) = opened k"
    "opened (snd (snd (sys_recv api fd b k))) = opened k"
    "opened (snd (sys_monotonic api k)) = opened k"
  using assms by (simp_all add: fds_ok_def)

lemma fds_ok_socket:
  assumes "fds_ok api opened" and "sys_socket api f t p k = (fd, k')"
  shows "if fd < 0 then opened k' = opened k else fd \<notin> opened k \<and> opened k' = insert fd (opened k)"
proof -
  have "case sys_socket api f t p k of (fd, k') \<Rightarrow>
      if fd < 0 then opened k' = opened k else fd \<notin> opened k \<and> opened k' = insert fd (opened k)"
    using assms(1) unfolding fds_ok_def by (elim conjE allE)
  then show ?thesis by (simp add: assms(2))
qed

lemma tcp_close_owns: "fds_ok api opened \<Longrightarrow> owns_fd opened base env \<Longrightarrow> opened (se_os (tcp_close api env)) = base"
  by (auto simp: tcp_close_def owns_fd_def fds_ok_calls(1) Let_def)

lemma tcp_close_fields [simp]: "se_fd (tcp_close api env) = - 1" "\<not> se_connected (tcp_close api env)"
  by (simp_all add: tcp_close_def Let_def)

lemma owns_closed: "fds_ok api opened \<Longrightarrow> owns_fd opened base env \<Longrightarrow> owns_fd opened base (tcp_close api env)"
  using tcp_close_owns [of api opened base env] by (simp add: owns_fd_def)

lemma owns_os [simp]: "opened k = opened (se_os env) \<Longrightarrow> owns_fd opened base (env\<lparr>se_os := k\<rparr>) = owns_fd opened base env"
  by (simp add: owns_fd_def)

lemma owns_opened:
  assumes "fds_ok api opened" and "sys_socket api f t p k = (fd, k')" and "owns_fd opened base env" and "se_fd env < 0"
    and "opened k = opened (se_os env)"
  shows "owns_fd opened base (env\<lparr>se_fd := fd, se_os := k'\<rparr>)"
  using fds_ok_socket [OF assms(1,2)] assms(3-5) by (auto simp: owns_fd_def split: if_splits)

text \<open>What a call of the kernel may do to a transport that has its descriptor.\<close>

lemma owns_call:
  assumes "fds_ok api opened" and "owns_fd opened base env" and "opened k = opened (se_os env)"
  shows "owns_fd opened base (env\<lparr>se_os := k\<rparr>)" "owns_fd opened base (tcp_close api (env\<lparr>se_os := k\<rparr>))"
    "se_fd env \<ge> 0 \<Longrightarrow> owns_fd opened base (env\<lparr>se_os := k, se_connected := True\<rparr>)"
proof -
  show o: "owns_fd opened base (env\<lparr>se_os := k\<rparr>)" using assms by simp
  show "owns_fd opened base (tcp_close api (env\<lparr>se_os := k\<rparr>))" by (rule owns_closed [OF assms(1) o])
  show "owns_fd opened base (env\<lparr>se_os := k, se_connected := True\<rparr>)" if "se_fd env \<ge> 0"
    using o that by (simp add: owns_fd_def)
qed

lemma tcp_begin_owns:
  assumes F: "fds_ok api opened" and "owns_fd opened base env" and "se_fd env < 0"
  shows "owns_fd opened base (snd (tcp_begin_connect api address port env))"
proof -
  note calls = fds_ok_calls [OF F]
  obtain fd k where s: "sys_socket api (AF_INET api) (SOCK_STREAM api) (IPPROTO_TCP api) (se_os env) = (fd, k)" by fastforce
  let ?env = "env\<lparr>se_fd := fd, se_os := k\<rparr>"
  have o: "owns_fd opened base ?env" using owns_opened [OF F s assms(2,3)] by simp
  obtain flags k1 where g: "sys_getfl api fd k = (flags, k1)" by fastforce
  obtain rc k2 where t: "sys_setfl api fd (flags OR O_NONBLOCK api) k1 = (rc, k2)" by fastforce
  obtain rc' k3 where c: "sys_connect api fd \<lparr>sin_port = be16 port, sin_addr = htonl (to_uint32 address)\<rparr> (sys_nodelay api fd k2) = (rc', k3)"
    by fastforce
  have k: "opened k1 = opened k" "opened k2 = opened k" "opened k3 = opened k"
    using calls(6) [of fd k] calls(4) [of fd "flags OR O_NONBLOCK api" k1] calls(3) [of fd k2]
      calls(7) [of fd "\<lparr>sin_port = be16 port, sin_addr = htonl (to_uint32 address)\<rparr>" "sys_nodelay api fd k2"]
    by (simp_all add: g t c)
  show ?thesis
    using o owns_call [OF F o, of k1] owns_call [OF F o, of k2] owns_call [OF F o, of k3] k
    by (simp add: tcp_begin_connect_def s g t c Let_def)
qed

lemma collect_owns:
  assumes F: "fds_ok api opened" and "owns_fd opened base env" and "se_fd env \<ge> 0"
  shows "owns_fd opened base (snd (collect_so_error api env))"
proof -
  note calls = fds_ok_calls [OF F]
  obtain rc err k where c: "sys_so_error api (se_fd env) (se_os env) = (rc, err, k)" by (metis prod_cases3)
  show ?thesis using owns_call [OF assms(1,2), of k] calls(10) [of "se_fd env" "se_os env"] assms(3) by (simp add: collect_so_error_def c Let_def)
qed

lemma tcp_connect_owns:
  assumes F: "fds_ok api opened" and o: "owns_fd opened base env"
  shows "owns_fd opened base (snd (tcp_connect api address port env))"
proof -
  note calls = fds_ok_calls [OF F]
  obtain ready k where p: "sys_poll_out api (se_fd env) (se_os env) = (ready, k)" by fastforce
  have k: "opened k = opened (se_os env)" using calls(8) [of "se_fd env" "se_os env"] by (simp add: p)
  note K = owns_call [OF F o k]
  show ?thesis using K tcp_begin_owns [OF assms] collect_owns [OF F K(1)] o
    by (simp add: tcp_connect_def tcp_finish_connect_def p Let_def)
qed

lemma posix_begin_owns:
  assumes F: "fds_ok api opened" and "owns_fd opened base env" and "se_fd env < 0"
  shows "owns_fd opened base (snd (posix_begin_connect api host port env))"
proof -
  note calls = fds_ok_calls [OF F]
  obtain rc res k0 where a: "sys_getaddrinfo api host (decimal_text (unat port)) (AF_INET api) (SOCK_STREAM api) (se_os env) = (rc, res, k0)"
    by (metis prod_cases3)
  have k0: "opened k0 = opened (se_os env)"
    using calls(5) [of host "decimal_text (unat port)" "AF_INET api" "SOCK_STREAM api" "se_os env"] by (simp add: a)
  show ?thesis
  proof (cases "if rc \<noteq> 0 then None else res")
    case None
    then show ?thesis using owns_call(1) [OF F assms(2) k0] by (simp add: posix_begin_connect_def a Let_def)
  next
    case (Some ai)
    obtain fd k where s: "sys_socket api (ai_family ai) (ai_socktype ai) (ai_protocol ai) k0 = (fd, k)" by fastforce
    let ?env = "env\<lparr>se_fd := fd, se_os := k\<rparr>"
    have o: "owns_fd opened base ?env" using owns_opened [OF F s assms(2,3) k0] .
    obtain flags k1 where g: "sys_getfl api fd k = (flags, k1)" by fastforce
    let ?k2 = "sys_nodelay api fd (snd (sys_setfl api fd (flags OR O_NONBLOCK api) k1))"
    obtain rc' k3 where c: "sys_connect api fd (ai_addr ai) ?k2 = (rc', k3)" by fastforce
    have k: "opened (sys_freeaddrinfo api ai k3) = opened k" "opened (sys_freeaddrinfo api ai k) = opened k"
      using calls(6) [of fd k] calls(7) [of fd "ai_addr ai" ?k2] by (simp_all add: calls(2-4) g c)
    show ?thesis
      using Some owns_call [OF F o, of "sys_freeaddrinfo api ai k"] owns_call [OF F o, of "sys_freeaddrinfo api ai k3"] k
      by (simp add: posix_begin_connect_def a s g c Let_def posix_close_eq)
  qed
qed

lemma posix_connect_owns:
  assumes F: "fds_ok api opened" and o: "owns_fd opened base env"
  shows "owns_fd opened base (snd (posix_connect api host port env))"
proof -
  note calls = fds_ok_calls [OF F]
  obtain ready k where p: "sys_select_write api (se_fd env) (se_os env) = (ready, k)" by fastforce
  have k: "opened k = opened (se_os env)" using calls(9) [of "se_fd env" "se_os env"] by (simp add: p)
  note K = owns_call [OF F o k]
  show ?thesis using K posix_begin_owns [OF assms] collect_owns [OF F K(1)] o
    by (simp add: posix_connect_def p Let_def posix_close_eq)
qed

lemma sock_io_owns:
  assumes F: "fds_ok api opened" and o: "owns_fd opened base env"
  shows "owns_fd opened base (snd (snd (tcp_send api data env)))" "owns_fd opened base (snd (snd (posix_send api data env)))"
    "owns_fd opened base (snd (snd (snd (tcp_recv api buf env))))" "owns_fd opened base (snd (snd (snd (posix_recv api buf env))))"
    "owns_fd opened base (snd (posix_now_ms api env))"
proof -
  note calls = fds_ok_calls [OF F]
  obtain n k where s: "sys_send api (se_fd env) data (se_os env) = (n, k)" by fastforce
  obtain n' b k' where r: "sys_recv api (se_fd env) buf (se_os env) = (n', b, k')" by (metis prod_cases3)
  obtain sec ns k'' where t: "sys_monotonic api (se_os env) = ((sec, ns), k'')" by (metis prod.exhaust)
  have "opened k = opened (se_os env)" "opened k' = opened (se_os env)" "opened k'' = opened (se_os env)"
    using calls(11) [of "se_fd env" data "se_os env"] calls(12) [of "se_fd env" buf "se_os env"] calls(13) [of "se_os env"]
    by (simp_all add: s r t)
  note K = this [THEN owns_call(1) [OF F o]]
  show "owns_fd opened base (snd (snd (tcp_send api data env)))" "owns_fd opened base (snd (snd (posix_send api data env)))"
    "owns_fd opened base (snd (snd (snd (tcp_recv api buf env))))" "owns_fd opened base (snd (snd (snd (posix_recv api buf env))))"
    "owns_fd opened base (snd (posix_now_ms api env))"
    using K o by (simp_all add: tcp_send_def posix_send_def tcp_recv_def posix_recv_def posix_now_ms_def s r t Let_def)
qed

lemma sock_owners:
  assumes "fds_ok api opened"
  shows "resource_owner (tcp_platform api address port) (owns_fd opened base) (\<lambda>env. opened (se_os env) = base)"
    "resource_owner (posix_platform api host port) (owns_fd opened base) (\<lambda>env. opened (se_os env) = base)"
  using assms by (simp_all add: resource_owner_def tcp_platform_def posix_platform_def tcp_connect_owns posix_connect_owns
      sock_io_owns tcp_close_owns posix_close_eq)

end
