(* ===== verification/Winsock.thy ===== *)
theory Winsock
  imports Sockets
begin

text \<open>
  \<^verbatim>\<open>examples/winsock_transport.hpp\<close> with the clock of \<^verbatim>\<open>examples/win_clock.hpp\<close>, over a record of the
  Winsock calls. Winsock itself has to be started and stopped, so the transport owns two things: a
  socket and one start of the library.
\<close>

section \<open>The library\<close>

datatype WsaError = WSAEWOULDBLOCK | WSAEINTR | WSAEINPROGRESS | WSAEALREADY | WSAECONNRESET | WSAECONNABORTED
  | WSAENETRESET | WSAESHUTDOWN | WSAENOTCONN | WSAEOther int

type_synonym SOCKET = u64

definition INVALID_SOCKET :: SOCKET where "INVALID_SOCKET = - 1"
definition SOCKET_ERROR :: int where "SOCKET_ERROR = - 1"

record 'k winsock_api =
  ws_startup :: "'k \<Rightarrow> int \<times> 'k"
  ws_cleanup :: "'k \<Rightarrow> 'k"
  ws_socket :: "'k \<Rightarrow> SOCKET \<times> 'k"
  ws_nonblocking :: "SOCKET \<Rightarrow> 'k \<Rightarrow> int \<times> 'k"
  ws_nodelay :: "SOCKET \<Rightarrow> 'k \<Rightarrow> 'k"
  ws_connect :: "SOCKET \<Rightarrow> sockaddr \<Rightarrow> 'k \<Rightarrow> int \<times> 'k"
  ws_select_write :: "SOCKET \<Rightarrow> 'k \<Rightarrow> int \<times> 'k"
  ws_select_read :: "SOCKET \<Rightarrow> int \<times> int \<Rightarrow> 'k \<Rightarrow> 'k"
  ws_so_error :: "SOCKET \<Rightarrow> 'k \<Rightarrow> int \<times> int \<times> 'k"
  ws_send :: "SOCKET \<Rightarrow> bytes \<Rightarrow> int \<Rightarrow> 'k \<Rightarrow> int \<times> 'k"
  ws_recv :: "SOCKET \<Rightarrow> bytes \<Rightarrow> int \<Rightarrow> 'k \<Rightarrow> int \<times> bytes \<times> 'k"
  ws_closesocket :: "SOCKET \<Rightarrow> 'k \<Rightarrow> 'k"
  ws_last_error :: "'k \<Rightarrow> WsaError"
  ws_tick_count64 :: "'k \<Rightarrow> u64 \<times> 'k"

record 'k win_env =
  we_os :: 'k
  we_sock :: SOCKET
  we_connected :: bool
  we_started :: bool

section \<open>The transport\<close>

definition win_now_ms :: "'k winsock_api \<Rightarrow> 'k win_env \<Rightarrow> u32 \<times> 'k win_env" where
  "win_now_ms api env = (case ws_tick_count64 api (we_os env) of (t, k) \<Rightarrow> (ucast t, env\<lparr>we_os := k\<rparr>))"

definition start_winsock :: "'k winsock_api \<Rightarrow> 'k win_env \<Rightarrow> bool \<times> 'k win_env" where
  "start_winsock api env =
     (if we_started env then (True, env)
      else
        (case ws_startup api (we_os env) of
           (rc, k) \<Rightarrow>
             let env = env\<lparr>we_os := k\<rparr> in
             if rc \<noteq> 0 then (False, env) else (True, env\<lparr>we_started := True\<rparr>)))"

definition stop_winsock :: "'k winsock_api \<Rightarrow> 'k win_env \<Rightarrow> 'k win_env" where
  "stop_winsock api env =
     (if we_started env then env\<lparr>we_os := ws_cleanup api (we_os env), we_started := False\<rparr> else env)"

definition win_close :: "'k winsock_api \<Rightarrow> 'k win_env \<Rightarrow> 'k win_env" where
  "win_close api env =
     (let env = (if we_sock env \<noteq> INVALID_SOCKET
                 then env\<lparr>we_os := ws_closesocket api (we_sock env) (we_os env), we_sock := INVALID_SOCKET\<rparr> else env)
      in stop_winsock api (env\<lparr>we_connected := False\<rparr>))"

text \<open>\<open>clamp_to_int\<close>: \<open>send\<close> and \<open>recv\<close> take an \<open>int\<close>.\<close>

definition INT_MAX :: nat where "INT_MAX = 2147483647"

definition clamp_to_int :: "nat \<Rightarrow> int" where
  "clamp_to_int n = int (if n < INT_MAX then n else INT_MAX)"

definition win_classify :: "'k winsock_api \<Rightarrow> WsaError \<Rightarrow> 'k win_env \<Rightarrow> Error \<times> 'k win_env" where
  "win_classify api err env =
     (if err = WSAEWOULDBLOCK \<or> err = WSAEINTR then (WouldBlock, env)
      else if err = WSAECONNRESET \<or> err = WSAECONNABORTED \<or> err = WSAENETRESET \<or> err = WSAESHUTDOWN \<or> err = WSAENOTCONN
      then (TransportClosed, win_close api env)
      else (TransportFailure, win_close api env))"

definition win_begin_connect ::
  "'k winsock_api \<Rightarrow> Ipv4 \<Rightarrow> u16 \<Rightarrow> 'k win_env \<Rightarrow> Error \<times> 'k win_env" where
  "win_begin_connect api address port env =
     (case start_winsock api env of
        (started, env) \<Rightarrow>
          if \<not> started then (TransportFailure, env)
          else
            (case ws_socket api (we_os env) of
               (sock, k) \<Rightarrow>
                 let env = env\<lparr>we_sock := sock, we_os := k\<rparr> in
                 if sock = INVALID_SOCKET then (TransportFailure, stop_winsock api env)
                 else
                   (case ws_nonblocking api sock (we_os env) of
                      (rc, k) \<Rightarrow>
                        let env = env\<lparr>we_os := k\<rparr> in
                        if rc \<noteq> 0 then (TransportFailure, win_close api env)
                        else
                          let env = env\<lparr>we_os := ws_nodelay api sock (we_os env)\<rparr>;
                              addr = \<lparr>sin_port = be16 port, sin_addr = htonl (to_uint32 address)\<rparr>
                          in
                          (case ws_connect api sock addr (we_os env) of
                             (rc, k) \<Rightarrow>
                               let env = env\<lparr>we_os := k\<rparr>; err = ws_last_error api k in
                               if rc = 0 then (Ok, env\<lparr>we_connected := True\<rparr>)
                               else if err = WSAEWOULDBLOCK \<or> err = WSAEINPROGRESS \<or> err = WSAEALREADY
                               then (WouldBlock, env)
                               else (TransportFailure, win_close api env)))))"

definition win_finish_connect :: "'k winsock_api \<Rightarrow> 'k win_env \<Rightarrow> Error \<times> 'k win_env" where
  "win_finish_connect api env =
     (case ws_select_write api (we_sock env) (we_os env) of
        (ready, k) \<Rightarrow>
          let env = env\<lparr>we_os := k\<rparr> in
          if ready = 0 then (WouldBlock, env)
          else if ready = SOCKET_ERROR then (TransportFailure, win_close api env)
          else
            (case ws_so_error api (we_sock env) (we_os env) of
               (rc, so_error, k) \<Rightarrow>
                 let env = env\<lparr>we_os := k\<rparr> in
                 if rc \<noteq> 0 \<or> so_error \<noteq> 0 then (TransportFailure, win_close api env)
                 else (Ok, env\<lparr>we_connected := True\<rparr>)))"

definition win_connect :: "'k winsock_api \<Rightarrow> Ipv4 \<Rightarrow> u16 \<Rightarrow> 'k win_env \<Rightarrow> Error \<times> 'k win_env" where
  "win_connect api address port env =
     (if we_connected env then (Ok, env)
      else if we_sock env = INVALID_SOCKET then win_begin_connect api address port env
      else win_finish_connect api env)"

definition win_send :: "'k winsock_api \<Rightarrow> bytes \<Rightarrow> 'k win_env \<Rightarrow> Error \<times> nat \<times> 'k win_env" where
  "win_send api data env =
     (if we_sock env = INVALID_SOCKET \<or> \<not> we_connected env then (TransportClosed, 0, env)
      else
        (case ws_send api (we_sock env) data (clamp_to_int (length data)) (we_os env) of
           (n, k) \<Rightarrow>
             let env = env\<lparr>we_os := k\<rparr> in
             if n > 0 then (Ok, nat n, env)
             else if n = 0 then (TransportClosed, 0, env)
             else (case win_classify api (ws_last_error api k) env of (e, env) \<Rightarrow> (e, 0, env))))"

definition win_recv :: "'k winsock_api \<Rightarrow> bytes \<Rightarrow> 'k win_env \<Rightarrow> Error \<times> nat \<times> bytes \<times> 'k win_env" where
  "win_recv api buffer env =
     (if we_sock env = INVALID_SOCKET \<or> \<not> we_connected env then (TransportClosed, 0, buffer, env)
      else
        (case ws_recv api (we_sock env) buffer (clamp_to_int (length buffer)) (we_os env) of
           (n, buffer, k) \<Rightarrow>
             let env = env\<lparr>we_os := k\<rparr> in
             if n > 0 then (Ok, nat n, buffer, env)
             else if n = 0 then (TransportClosed, 0, buffer, env)
             else (case win_classify api (ws_last_error api k) env of (e, env) \<Rightarrow> (e, 0, buffer, env))))"

definition win_wait_readable :: "'k winsock_api \<Rightarrow> int \<Rightarrow> 'k win_env \<Rightarrow> 'k win_env" where
  "win_wait_readable api timeout_ms env =
     (if we_sock env = INVALID_SOCKET then env
      else env\<lparr>we_os := ws_select_read api (we_sock env) (timeout_ms sdiv 1000, timeout_ms smod 1000 * 1000) (we_os env)\<rparr>)"

definition win_platform :: "'k winsock_api \<Rightarrow> Ipv4 \<Rightarrow> u16 \<Rightarrow> 'k win_env platform" where
  "win_platform api address port = \<lparr>tr_connect = win_connect api address port, tr_send = win_send api,
     tr_recv = win_recv api, tr_close = win_close api, tr_is_connected = we_connected, now_ms = win_now_ms api\<rparr>"

section \<open>What the code relies on\<close>

definition win_counts_ok :: "'k winsock_api \<Rightarrow> bool" where
  "win_counts_ok api \<longleftrightarrow>
     (\<forall>sock data len k. fst (ws_send api sock data len k) \<le> len) \<and>
     (\<forall>sock buf len k. fst (ws_recv api sock buf len k) \<le> len \<and> length (fst (snd (ws_recv api sock buf len k))) = length buf)"

text \<open>The sockets that are open and how often the library has been started.\<close>

definition win_handles_ok :: "'k winsock_api \<Rightarrow> ('k \<Rightarrow> SOCKET set \<times> int) \<Rightarrow> bool" where
  "win_handles_ok api held \<longleftrightarrow>
     (\<forall>k. case ws_startup api k of (rc, k') \<Rightarrow> held k' = (if rc = 0 then (fst (held k), snd (held k) + 1) else held k)) \<and>
     (\<forall>k. held (ws_cleanup api k) = (fst (held k), snd (held k) - 1)) \<and>
     (\<forall>k. case ws_socket api k of (sock, k') \<Rightarrow>
        if sock = INVALID_SOCKET then held k' = held k
        else sock \<notin> fst (held k) \<and> held k' = (insert sock (fst (held k)), snd (held k))) \<and>
     (\<forall>sock k. held (ws_closesocket api sock k) = (fst (held k) - {sock}, snd (held k))) \<and>
     (\<forall>sock k. held (snd (ws_nonblocking api sock k)) = held k) \<and>
     (\<forall>sock k. held (ws_nodelay api sock k) = held k) \<and>
     (\<forall>sock a k. held (snd (ws_connect api sock a k)) = held k) \<and>
     (\<forall>sock k. held (snd (ws_select_write api sock k)) = held k) \<and>
     (\<forall>sock k. held (snd (snd (ws_so_error api sock k))) = held k) \<and>
     (\<forall>sock d n k. held (snd (ws_send api sock d n k)) = held k) \<and>
     (\<forall>sock b n k. held (snd (snd (ws_recv api sock b n k))) = held k) \<and>
     (\<forall>k. held (snd (ws_tick_count64 api k)) = held k)"

definition owns_socket :: "('k \<Rightarrow> SOCKET set \<times> int) \<Rightarrow> SOCKET set \<times> int \<Rightarrow> 'k win_env \<Rightarrow> bool" where
  "owns_socket held base env \<longleftrightarrow>
     held (we_os env) = (if we_sock env \<noteq> INVALID_SOCKET then insert (we_sock env) (fst base) else fst base,
                         if we_started env then snd base + 1 else snd base)
     \<and> (we_sock env \<noteq> INVALID_SOCKET \<longrightarrow> we_sock env \<notin> fst base)
     \<and> (we_connected env \<longrightarrow> we_sock env \<noteq> INVALID_SOCKET)"

section \<open>Contract\<close>

lemma clamp_to_int_le: "clamp_to_int n \<le> int n"
  by (simp add: clamp_to_int_def)

lemma win_begin_codes:
  assumes "Ok \<in> C" "WouldBlock \<in> C" "TransportFailure \<in> C"
  shows "fst (win_begin_connect api address port env) \<in> C"
  unfolding win_begin_connect_def Let_def split_def using assms by simp

lemma win_finish_codes:
  assumes "Ok \<in> C" "WouldBlock \<in> C" "TransportFailure \<in> C"
  shows "fst (win_finish_connect api env) \<in> C"
  unfolding win_finish_connect_def Let_def split_def using assms by simp

lemma win_codes_in:
  assumes "Ok \<in> C" "WouldBlock \<in> C" "TransportFailure \<in> C"
  shows "fst (win_connect api address port env) \<in> C"
  by (simp add: win_connect_def win_begin_codes [OF assms] win_finish_codes [OF assms] assms)

lemma win_connect_codes: "fst (win_connect api address port env) \<in> {Ok, WouldBlock, TransportFailure}"
  by (rule win_codes_in; simp)

lemma win_classify_code: "win_classify api err env = (e, env') \<Longrightarrow> e \<in> {WouldBlock, TransportClosed, TransportFailure}"
  by (auto simp: win_classify_def split: if_splits)

lemma win_send_ok:
  assumes "win_counts_ok api" and "win_send api data env = (err, n, env')"
  shows "err \<in> {Ok, WouldBlock, TransportClosed, TransportFailure} \<and> n \<le> length data \<and> (err \<noteq> Ok \<longrightarrow> n = 0)"
proof -
  obtain m k where m: "ws_send api (we_sock env) data (clamp_to_int (length data)) (we_os env) = (m, k)" by fastforce
  have "fst (ws_send api (we_sock env) data (clamp_to_int (length data)) (we_os env)) \<le> clamp_to_int (length data)"
    using assms(1) unfolding win_counts_ok_def by blast
  then have "m \<le> int (length data)" using clamp_to_int_le [of "length data"] by (simp add: m)
  then show ?thesis using assms(2)
    by (auto simp: win_send_def Let_def m split: if_splits prod.splits dest: win_classify_code)
qed

lemma win_recv_ok:
  assumes "win_counts_ok api" and "win_recv api buf env = (err, n, buf', env')"
  shows "err \<in> {Ok, WouldBlock, TransportClosed, TransportFailure} \<and> length buf' = length buf \<and> n \<le> length buf
    \<and> (err \<noteq> Ok \<longrightarrow> n = 0)"
proof -
  obtain m b k where m: "ws_recv api (we_sock env) buf (clamp_to_int (length buf)) (we_os env) = (m, b, k)" by (metis prod_cases3)
  have "fst (ws_recv api (we_sock env) buf (clamp_to_int (length buf)) (we_os env)) \<le> clamp_to_int (length buf)
      \<and> length (fst (snd (ws_recv api (we_sock env) buf (clamp_to_int (length buf)) (we_os env)))) = length buf"
    using assms(1) unfolding win_counts_ok_def by blast
  then have "m \<le> int (length buf)" "length b = length buf" using clamp_to_int_le [of "length buf"] by (simp_all add: m)
  then show ?thesis using assms(2)
    by (auto simp: win_recv_def Let_def m split: if_splits prod.splits dest: win_classify_code)
qed

lemma win_contract:
  assumes "win_counts_ok api"
  shows "transport_contract (win_platform api address port)"
  using win_connect_codes by unfold_locales (simp add: win_platform_def, auto simp: win_platform_def
      dest: win_send_ok [OF assms] win_recv_ok [OF assms])

section \<open>Ownership\<close>

lemma win_handles_calls:
  assumes "win_handles_ok api held"
  shows "held (ws_cleanup api k) = (fst (held k), snd (held k) - 1)"
    "held (ws_closesocket api sock k) = (fst (held k) - {sock}, snd (held k))"
    "held (ws_nodelay api sock k) = held k"
    "held (snd (ws_nonblocking api sock k)) = held k"
    "held (snd (ws_connect api sock a k)) = held k"
    "held (snd (ws_select_write api sock k)) = held k"
    "held (snd (snd (ws_so_error api sock k))) = held k"
    "held (snd (ws_send api sock d n k)) = held k"
    "held (snd (snd (ws_recv api sock b n k))) = held k"
    "held (snd (ws_tick_count64 api k)) = held k"
  using assms by (simp_all add: win_handles_ok_def)

lemma win_handles_opens:
  assumes "win_handles_ok api held"
  shows "ws_startup api k = (rc, k') \<Longrightarrow> held k' = (if rc = 0 then (fst (held k), snd (held k) + 1) else held k)"
    "ws_socket api k = (sock, k') \<Longrightarrow> if sock = INVALID_SOCKET then held k' = held k
        else sock \<notin> fst (held k) \<and> held k' = (insert sock (fst (held k)), snd (held k))"
proof -
  have "case ws_startup api k of (rc, k') \<Rightarrow> held k' = (if rc = 0 then (fst (held k), snd (held k) + 1) else held k)"
    using assms unfolding win_handles_ok_def by (elim conjE allE)
  then show "ws_startup api k = (rc, k') \<Longrightarrow> held k' = (if rc = 0 then (fst (held k), snd (held k) + 1) else held k)" by simp
  have "case ws_socket api k of (sock, k') \<Rightarrow> if sock = INVALID_SOCKET then held k' = held k
        else sock \<notin> fst (held k) \<and> held k' = (insert sock (fst (held k)), snd (held k))"
    using assms unfolding win_handles_ok_def by (elim conjE allE)
  then show "ws_socket api k = (sock, k') \<Longrightarrow> if sock = INVALID_SOCKET then held k' = held k
        else sock \<notin> fst (held k) \<and> held k' = (insert sock (fst (held k)), snd (held k))" by simp
qed

lemma stop_owns: "win_handles_ok api held \<Longrightarrow> owns_socket held base env \<Longrightarrow> owns_socket held base (stop_winsock api env)"
  by (simp add: stop_winsock_def owns_socket_def win_handles_calls(1))

lemma win_close_owns:
  assumes "win_handles_ok api held" and "owns_socket held base env"
  shows "held (we_os (win_close api env)) = base" "owns_socket held base (win_close api env)"
  using assms by (auto simp: win_close_def stop_winsock_def owns_socket_def win_handles_calls(1,2) Let_def prod_eq_iff)

lemma win_owns_call:
  assumes "win_handles_ok api held" and "owns_socket held base env" and "held k = held (we_os env)"
  shows "owns_socket held base (env\<lparr>we_os := k\<rparr>)" "owns_socket held base (win_close api (env\<lparr>we_os := k\<rparr>))"
    "we_sock env \<noteq> INVALID_SOCKET \<Longrightarrow> owns_socket held base (env\<lparr>we_os := k, we_connected := True\<rparr>)"
proof -
  show o: "owns_socket held base (env\<lparr>we_os := k\<rparr>)" using assms by (simp add: owns_socket_def)
  show "owns_socket held base (win_close api (env\<lparr>we_os := k\<rparr>))" by (rule win_close_owns(2) [OF assms(1) o])
  show "owns_socket held base (env\<lparr>we_os := k, we_connected := True\<rparr>)" if "we_sock env \<noteq> INVALID_SOCKET"
    using o that by (simp add: owns_socket_def)
qed

lemma start_owns:
  assumes "win_handles_ok api held" and "owns_socket held base env" and "start_winsock api env = (b, env')"
  shows "owns_socket held base env'" "we_sock env' = we_sock env" "b \<Longrightarrow> we_started env'"
proof -
  obtain rc k where u: "ws_startup api (we_os env) = (rc, k)" by fastforce
  show "owns_socket held base env'" "we_sock env' = we_sock env" "b \<Longrightarrow> we_started env'"
    using assms(2,3) win_handles_opens(1) [OF assms(1) u]
    by (auto simp: start_winsock_def u Let_def owns_socket_def split: if_splits)
qed

lemma win_begin_owns:
  assumes F: "win_handles_ok api held" and "owns_socket held base env" and "we_sock env = INVALID_SOCKET"
  shows "owns_socket held base (snd (win_begin_connect api address port env))"
proof -
  note calls = win_handles_calls [OF F]
  obtain b env1 where u: "start_winsock api env = (b, env1)" by fastforce
  note o1 = start_owns [OF F assms(2) u]
  obtain sock k where s: "ws_socket api (we_os env1) = (sock, k)" by fastforce
  let ?env = "env1\<lparr>we_sock := sock, we_os := k\<rparr>"
  have o: "owns_socket held base ?env" using win_handles_opens(2) [OF F s] o1 assms(3)
    by (auto simp: owns_socket_def split: if_splits)
  obtain rc k1 where g: "ws_nonblocking api sock k = (rc, k1)" by fastforce
  let ?addr = "\<lparr>sin_port = be16 port, sin_addr = htonl (to_uint32 address)\<rparr>"
  obtain rc' k2 where c: "ws_connect api sock ?addr (ws_nodelay api sock k1) = (rc', k2)" by fastforce
  have k: "held k1 = held k" "held k2 = held k"
    using calls(4) [of sock k] calls(3) [of sock k1] calls(5) [of sock ?addr "ws_nodelay api sock k1"] by (simp_all add: g c)
  show ?thesis
    using o1(1) stop_owns [OF F o] win_owns_call [OF F o, of k1] win_owns_call [OF F o, of k2] k
    by (cases "sock = INVALID_SOCKET") (simp_all add: win_begin_connect_def u s g c Let_def)
qed

lemma win_connect_owns:
  assumes F: "win_handles_ok api held" and o: "owns_socket held base env"
  shows "owns_socket held base (snd (win_connect api address port env))"
proof -
  note calls = win_handles_calls [OF F]
  obtain ready k where p: "ws_select_write api (we_sock env) (we_os env) = (ready, k)" by fastforce
  have k: "held k = held (we_os env)" using calls(6) [of "we_sock env" "we_os env"] by (simp add: p)
  obtain rc err k' where c: "ws_so_error api (we_sock env) k = (rc, err, k')" by (metis prod_cases3)
  have k': "held k' = held (we_os env)" using calls(7) [of "we_sock env" k] k by (simp add: c)
  show ?thesis using win_owns_call [OF F o k] win_owns_call [OF F o k'] win_begin_owns [OF assms] o
    by (simp add: win_connect_def win_finish_connect_def p c Let_def)
qed

lemma win_classify_owns:
  assumes "win_handles_ok api held" and "owns_socket held base env"
  shows "owns_socket held base (snd (win_classify api err env))"
  using win_close_owns(2) [OF assms] assms(2) by (simp add: win_classify_def)

lemma win_io_owns:
  assumes F: "win_handles_ok api held" and o: "owns_socket held base env"
  shows "owns_socket held base (snd (snd (win_send api data env)))"
    "owns_socket held base (snd (snd (snd (win_recv api buf env))))"
    "owns_socket held base (snd (win_now_ms api env))"
proof -
  note calls = win_handles_calls [OF F]
  let ?d = "clamp_to_int (length data)" and ?b = "clamp_to_int (length buf)"
  obtain n k where s: "ws_send api (we_sock env) data ?d (we_os env) = (n, k)" by fastforce
  obtain n' b k' where r: "ws_recv api (we_sock env) buf ?b (we_os env) = (n', b, k')" by (metis prod_cases3)
  obtain t k'' where t: "ws_tick_count64 api (we_os env) = (t, k'')" by fastforce
  have "held k = held (we_os env)" "held k' = held (we_os env)" "held k'' = held (we_os env)"
    using calls(8) [of "we_sock env" data ?d "we_os env"] calls(9) [of "we_sock env" buf ?b "we_os env"] calls(10) [of "we_os env"]
    by (simp_all add: s r t)
  note K = this [THEN win_owns_call(1) [OF F o]]
  show "owns_socket held base (snd (snd (win_send api data env)))"
    using K(1) win_classify_owns [OF F K(1)] o by (simp add: win_send_def s Let_def split: prod.split) (metis snd_conv)
  show "owns_socket held base (snd (snd (snd (win_recv api buf env))))"
    using K(2) win_classify_owns [OF F K(2)] o by (simp add: win_recv_def r Let_def split: prod.split) (metis snd_conv)
  show "owns_socket held base (snd (win_now_ms api env))" using K(3) by (simp add: win_now_ms_def t)
qed

lemma win_owner:
  assumes "win_handles_ok api held"
  shows "resource_owner (win_platform api address port) (owns_socket held base) (\<lambda>env. held (we_os env) = base)"
  using assms by (simp add: resource_owner_def win_platform_def win_connect_owns win_io_owns win_close_owns(1))

end
