(* ===== verification/Tls.thy ===== *)
theory Tls
  imports Sockets
begin

text \<open>
  \<^verbatim>\<open>examples/tls_transport.hpp\<close> over a record of the mbedTLS calls. The contexts of the library are one
  state \<open>'k\<close>; \<open>tls_init\<close> and \<open>tls_free\<close> stand for the six pairs of initialisers and destructors.
\<close>

section \<open>The library\<close>

datatype tls_ctx = Net | Ssl | Conf | Ca | Drbg | Entropy

record 'k mbedtls_api =
  ERR_SSL_WANT_READ :: int
  ERR_SSL_WANT_WRITE :: int
  ERR_SSL_PEER_CLOSE_NOTIFY :: int
  tls_init :: "tls_ctx \<Rightarrow> 'k \<Rightarrow> 'k"
  tls_free :: "tls_ctx \<Rightarrow> 'k \<Rightarrow> 'k"
  ctr_drbg_seed :: "bytes \<Rightarrow> 'k \<Rightarrow> int \<times> 'k"
  x509_crt_parse :: "bytes \<Rightarrow> 'k \<Rightarrow> int \<times> 'k"
  net_connect :: "bytes \<Rightarrow> bytes \<Rightarrow> 'k \<Rightarrow> int \<times> 'k"
  net_set_nonblock :: "'k \<Rightarrow> int \<times> 'k"
  ssl_config_defaults :: "'k \<Rightarrow> int \<times> 'k"
  ssl_conf_verify_required :: "'k \<Rightarrow> 'k"
  ssl_conf_ca_chain :: "'k \<Rightarrow> 'k"
  ssl_conf_rng :: "'k \<Rightarrow> 'k"
  ssl_setup :: "'k \<Rightarrow> int \<times> 'k"
  ssl_set_hostname :: "bytes \<Rightarrow> 'k \<Rightarrow> int \<times> 'k"
  ssl_set_bio :: "'k \<Rightarrow> 'k"
  ssl_handshake :: "'k \<Rightarrow> int \<times> 'k"
  ssl_get_verify_result :: "'k \<Rightarrow> u32"
  ssl_write :: "bytes \<Rightarrow> 'k \<Rightarrow> int \<times> 'k"
  ssl_read :: "bytes \<Rightarrow> 'k \<Rightarrow> int \<times> bytes \<times> 'k"
  ssl_close_notify :: "'k \<Rightarrow> 'k"

text \<open>The constant members, and the ones that change.\<close>

record tls_endpoint =
  te_host :: bytes
  te_port :: bytes
  te_ca_pem :: bytes

record 'k tls_env =
  le_os :: 'k
  le_connected :: bool
  le_setup_done :: bool

section \<open>The transport\<close>

definition tls_new :: "'k mbedtls_api \<Rightarrow> 'k \<Rightarrow> 'k tls_env" where
  "tls_new api k = \<lparr>le_os = fold (tls_init api) [Net, Ssl, Conf, Ca, Drbg, Entropy] k, le_connected = False, le_setup_done = False\<rparr>"

definition tls_close :: "'k mbedtls_api \<Rightarrow> 'k tls_env \<Rightarrow> 'k tls_env" where
  "tls_close api env =
     (let env = (if le_connected env then env\<lparr>le_os := ssl_close_notify api (le_os env)\<rparr> else env)
      in env\<lparr>le_os := tls_free api Net (le_os env), le_connected := False, le_setup_done := False\<rparr>)"

definition tls_delete :: "'k mbedtls_api \<Rightarrow> 'k tls_env \<Rightarrow> 'k" where
  "tls_delete api env = fold (tls_free api) [Entropy, Drbg, Ca, Conf, Ssl, Net] (le_os (tls_close api env))"

text \<open>\<open>if (call != 0) return -1;\<close>\<close>

definition or_fail :: "int \<times> 'k \<Rightarrow> ('k \<Rightarrow> int \<times> 'k) \<Rightarrow> int \<times> 'k" where
  "or_fail r next = (case r of (rc, k) \<Rightarrow> if rc \<noteq> 0 then (- 1, k) else next k)"

definition kPers :: bytes where "kPers = lit ''mqtt-embedded''"

definition tls_setup :: "'k mbedtls_api \<Rightarrow> tls_endpoint \<Rightarrow> 'k \<Rightarrow> int \<times> 'k" where
  "tls_setup api ep k =
     or_fail (ctr_drbg_seed api kPers k) (\<lambda>k.
     or_fail (x509_crt_parse api (te_ca_pem ep) k) (\<lambda>k.
     or_fail (net_connect api (te_host ep) (te_port ep) k) (\<lambda>k.
     or_fail (net_set_nonblock api k) (\<lambda>k.
     or_fail (ssl_config_defaults api k) (\<lambda>k.
       let k = ssl_conf_verify_required api k;
           k = ssl_conf_ca_chain api k;
           k = ssl_conf_rng api k
       in
       or_fail (ssl_setup api k) (\<lambda>k.
       or_fail (ssl_set_hostname api (te_host ep) k) (\<lambda>k. (0, ssl_set_bio api k))))))))"

text \<open>The handshake, after the setup.\<close>

definition tls_handshake :: "'k mbedtls_api \<Rightarrow> 'k tls_env \<Rightarrow> Error \<times> 'k tls_env" where
  "tls_handshake api env =
     (case ssl_handshake api (le_os env) of
        (rc, k) \<Rightarrow>
          let env = env\<lparr>le_os := k\<rparr> in
          if rc = 0 then
            if ssl_get_verify_result api k \<noteq> 0 then (TransportFailure, tls_close api env)
            else (Ok, env\<lparr>le_connected := True\<rparr>)
          else if rc = ERR_SSL_WANT_READ api \<or> rc = ERR_SSL_WANT_WRITE api then (WouldBlock, env)
          else (TransportFailure, tls_close api env))"

definition tls_connect :: "'k mbedtls_api \<Rightarrow> tls_endpoint \<Rightarrow> 'k tls_env \<Rightarrow> Error \<times> 'k tls_env" where
  "tls_connect api ep env =
     (if le_connected env then (Ok, env)
      else if le_setup_done env then tls_handshake api env
      else
        (case tls_setup api ep (le_os env) of
           (rc, k) \<Rightarrow>
             let env = env\<lparr>le_os := k\<rparr> in
             if rc \<noteq> 0 then (TransportFailure, env)
             else tls_handshake api (env\<lparr>le_setup_done := True\<rparr>)))"

definition tls_send :: "'k mbedtls_api \<Rightarrow> bytes \<Rightarrow> 'k tls_env \<Rightarrow> Error \<times> nat \<times> 'k tls_env" where
  "tls_send api data env =
     (if \<not> le_connected env then (TransportClosed, 0, env)
      else
        (case ssl_write api data (le_os env) of
           (rc, k) \<Rightarrow>
             let env = env\<lparr>le_os := k\<rparr> in
             if rc > 0 then (Ok, nat rc, env)
             else if rc = ERR_SSL_WANT_READ api \<or> rc = ERR_SSL_WANT_WRITE api then (WouldBlock, 0, env)
             else if rc = ERR_SSL_PEER_CLOSE_NOTIFY api then (TransportClosed, 0, env)
             else (TransportFailure, 0, env)))"

definition tls_recv :: "'k mbedtls_api \<Rightarrow> bytes \<Rightarrow> 'k tls_env \<Rightarrow> Error \<times> nat \<times> bytes \<times> 'k tls_env" where
  "tls_recv api buffer env =
     (if \<not> le_connected env then (TransportClosed, 0, buffer, env)
      else
        (case ssl_read api buffer (le_os env) of
           (rc, buffer, k) \<Rightarrow>
             let env = env\<lparr>le_os := k\<rparr> in
             if rc > 0 then (Ok, nat rc, buffer, env)
             else if rc = ERR_SSL_WANT_READ api \<or> rc = ERR_SSL_WANT_WRITE api then (WouldBlock, 0, buffer, env)
             else if rc = ERR_SSL_PEER_CLOSE_NOTIFY api \<or> rc = 0 then (TransportClosed, 0, buffer, env)
             else (TransportFailure, 0, buffer, env)))"

text \<open>The clock of the platform is not part of this transport.\<close>

definition tls_platform :: "'k mbedtls_api \<Rightarrow> tls_endpoint \<Rightarrow> ('k tls_env \<Rightarrow> u32 \<times> 'k tls_env) \<Rightarrow> 'k tls_env platform" where
  "tls_platform api ep clock = \<lparr>tr_connect = tls_connect api ep, tr_send = tls_send api, tr_recv = tls_recv api,
     tr_close = tls_close api, tr_is_connected = le_connected, now_ms = clock\<rparr>"

section \<open>What the code relies on\<close>

definition tls_counts_ok :: "'k mbedtls_api \<Rightarrow> bool" where
  "tls_counts_ok api \<longleftrightarrow>
     (\<forall>data k. fst (ssl_write api data k) \<le> int (length data)) \<and>
     (\<forall>buf k. fst (ssl_read api buf k) \<le> int (length buf) \<and> length (fst (snd (ssl_read api buf k))) = length buf)"

section \<open>Contract\<close>

lemma tls_codes_in:
  assumes "Ok \<in> C" "WouldBlock \<in> C" "TransportFailure \<in> C"
  shows "fst (tls_connect api ep env) \<in> C"
  unfolding tls_connect_def tls_handshake_def Let_def split_def using assms by simp

lemma tls_connect_codes: "fst (tls_connect api ep env) \<in> {Ok, WouldBlock, TransportFailure}"
  by (rule tls_codes_in; simp)

lemma tls_send_ok:
  assumes "tls_counts_ok api" and "tls_send api data env = (err, n, env')"
  shows "err \<in> {Ok, WouldBlock, TransportClosed, TransportFailure} \<and> n \<le> length data \<and> (err \<noteq> Ok \<longrightarrow> n = 0)"
proof -
  obtain m k where m: "ssl_write api data (le_os env) = (m, k)" by fastforce
  have "fst (ssl_write api data (le_os env)) \<le> int (length data)" using assms(1) unfolding tls_counts_ok_def by blast
  then show ?thesis using assms(2) by (auto simp: tls_send_def Let_def m split: if_splits)
qed

lemma tls_recv_ok:
  assumes "tls_counts_ok api" and "tls_recv api buf env = (err, n, buf', env')"
  shows "err \<in> {Ok, WouldBlock, TransportClosed, TransportFailure} \<and> length buf' = length buf \<and> n \<le> length buf
    \<and> (err \<noteq> Ok \<longrightarrow> n = 0)"
proof -
  obtain m b k where m: "ssl_read api buf (le_os env) = (m, b, k)" by (metis prod_cases3)
  have "fst (ssl_read api buf (le_os env)) \<le> int (length buf) \<and> length (fst (snd (ssl_read api buf (le_os env)))) = length buf"
    using assms(1) unfolding tls_counts_ok_def by blast
  then show ?thesis using assms(2) by (auto simp: tls_recv_def Let_def m split: if_splits)
qed

lemma tls_contract:
  assumes "tls_counts_ok api"
  shows "transport_contract (tls_platform api ep clock)"
  using tls_connect_codes by unfold_locales (simp add: tls_platform_def, auto simp: tls_platform_def
      dest: tls_send_ok [OF assms] tls_recv_ok [OF assms])

text \<open>No connection without a verified peer.\<close>

lemma tls_connect_verified:
  "tls_connect api ep env = (Ok, env') \<Longrightarrow> \<not> le_connected env \<Longrightarrow>
     le_connected env' \<and> ssl_get_verify_result api (le_os env') = 0"
  by (auto simp: tls_connect_def tls_handshake_def Let_def split: if_splits prod.splits)

end
