(* ===== verification/Example_Transports.thy ===== *)
theory Example_Transports
  imports Winsock Tls
begin

text \<open>
  The properties of the example transports, and concrete systems they run on: a loopback kernel, a
  loopback Winsock and an in-memory TLS library, each with only the state the contracts speak of.
\<close>

section \<open>A loopback kernel\<close>

record loop_kernel =
  lk_open :: "int list"
  lk_polls :: nat
  lk_errno :: Errno
  lk_wire :: bytes
  lk_inbox :: bytes
  lk_ms :: nat

definition loop_socket :: "loop_kernel \<Rightarrow> int \<times> loop_kernel" where
  "loop_socket k =
     (case List.find (\<lambda>fd. fd \<notin> set (lk_open k)) (map int [3..<4 + length (lk_open k)]) of
        None \<Rightarrow> (- 1, k)
      | Some fd \<Rightarrow> (fd, k\<lparr>lk_open := fd # lk_open k\<rparr>))"

definition loop_connect :: "loop_kernel \<Rightarrow> int \<times> loop_kernel" where
  "loop_connect k = (if lk_polls k = 0 then (0, k) else (- 1, k\<lparr>lk_errno := EINPROGRESS\<rparr>))"

definition loop_poll :: "loop_kernel \<Rightarrow> int \<times> loop_kernel" where
  "loop_poll k = (if lk_polls k = 0 then (1, k) else (0, k\<lparr>lk_polls := lk_polls k - 1\<rparr>))"

definition loop_send :: "bytes \<Rightarrow> loop_kernel \<Rightarrow> int \<times> loop_kernel" where
  "loop_send data k = (let d = take 8 data in (int (length d), k\<lparr>lk_wire := lk_wire k @ d\<rparr>))"

definition loop_recv :: "bytes \<Rightarrow> loop_kernel \<Rightarrow> int \<times> bytes \<times> loop_kernel" where
  "loop_recv buf k =
     (if lk_inbox k = [] then (- 1, buf, k\<lparr>lk_errno := EAGAIN\<rparr>)
      else
        let d = take (length buf) (lk_inbox k)
        in (int (length d), write_at buf 0 d, k\<lparr>lk_inbox := drop (length d) (lk_inbox k)\<rparr>))"

definition loop_api :: "loop_kernel posix_api" where
  "loop_api = \<lparr>AF_INET = 2, SOCK_STREAM = 1, IPPROTO_TCP = 6, O_NONBLOCK = 2048,
     sys_getaddrinfo = (\<lambda>host port family socktype k. (0, Some \<lparr>ai_family = family, ai_socktype = socktype, ai_protocol = 6,
       ai_addr = \<lparr>sin_port = [7, 0x5B], sin_addr = [127, 0, 0, 1]\<rparr>\<rparr>, k)),
     sys_freeaddrinfo = (\<lambda>_ k. k), sys_socket = (\<lambda>_ _ _. loop_socket), sys_getfl = (\<lambda>_ k. (2, k)),
     sys_setfl = (\<lambda>_ _ k. (0, k)), sys_nodelay = (\<lambda>_ k. k), sys_connect = (\<lambda>_ _. loop_connect),
     sys_poll_out = (\<lambda>_. loop_poll), sys_poll_in = (\<lambda>_ _ k. k), sys_select_write = (\<lambda>_. loop_poll),
     sys_select_read = (\<lambda>_ _ k. k), sys_so_error = (\<lambda>_ k. (0, 0, k)), sys_send = (\<lambda>_. loop_send),
     sys_recv = (\<lambda>_. loop_recv), sys_close = (\<lambda>fd k. k\<lparr>lk_open := removeAll fd (lk_open k)\<rparr>),
     sys_errno = lk_errno, sys_monotonic = (\<lambda>k. ((word_of_nat (lk_ms k) div 1000, word_of_nat (lk_ms k) mod 1000 * 1000000),
       k\<lparr>lk_ms := lk_ms k + 1\<rparr>))\<rparr>"

definition loop_kernel0 :: loop_kernel where
  "loop_kernel0 = \<lparr>lk_open = [3], lk_polls = 1, lk_errno = EOther 0, lk_wire = [], lk_inbox = [], lk_ms = 0\<rparr>"

lemma loop_counts: "counts_ok loop_api"
  by (simp add: counts_ok_def loop_api_def loop_send_def loop_recv_def Let_def)

lemma loop_fds: "fds_ok loop_api (\<lambda>k. set (lk_open k))"
  by (auto simp: fds_ok_def loop_api_def loop_socket_def loop_connect_def loop_poll_def loop_send_def loop_recv_def Let_def
      find_None_iff find_Some_iff split: option.split)

section \<open>A loopback Winsock\<close>

record loop_winsock =
  lw_open :: "SOCKET list"
  lw_starts :: int
  lw_error :: WsaError
  lw_wire :: bytes

definition loopw_socket :: "loop_winsock \<Rightarrow> SOCKET \<times> loop_winsock" where
  "loopw_socket k =
     (case List.find (\<lambda>sock. sock \<notin> set (lw_open k) \<and> sock \<noteq> INVALID_SOCKET) (map word_of_nat [0..<1 + length (lw_open k)]) of
        None \<Rightarrow> (INVALID_SOCKET, k)
      | Some sock \<Rightarrow> (sock, k\<lparr>lw_open := sock # lw_open k\<rparr>))"

definition loopw_send :: "bytes \<Rightarrow> int \<Rightarrow> loop_winsock \<Rightarrow> int \<times> loop_winsock" where
  "loopw_send data len k =
     (if len < 0 then (len, k\<lparr>lw_error := WSAEOther 1\<rparr>)
      else let d = take (nat len) data in (int (length d), k\<lparr>lw_wire := lw_wire k @ d\<rparr>))"

definition loopw_api :: "loop_winsock winsock_api" where
  "loopw_api = \<lparr>ws_startup = (\<lambda>k. (0, k\<lparr>lw_starts := lw_starts k + 1\<rparr>)), ws_cleanup = (\<lambda>k. k\<lparr>lw_starts := lw_starts k - 1\<rparr>),
     ws_socket = loopw_socket, ws_nonblocking = (\<lambda>_ k. (0, k)), ws_nodelay = (\<lambda>_ k. k),
     ws_connect = (\<lambda>_ _ k. (SOCKET_ERROR, k\<lparr>lw_error := WSAEWOULDBLOCK\<rparr>)), ws_select_write = (\<lambda>_ k. (1, k)),
     ws_select_read = (\<lambda>_ _ k. k), ws_so_error = (\<lambda>_ k. (0, 0, k)), ws_send = (\<lambda>_. loopw_send),
     ws_recv = (\<lambda>_ buf len k. (min len (- 1), buf, k\<lparr>lw_error := WSAECONNRESET\<rparr>)),
     ws_closesocket = (\<lambda>sock k. k\<lparr>lw_open := removeAll sock (lw_open k)\<rparr>), ws_last_error = lw_error,
     ws_tick_count64 = (\<lambda>k. (0, k))\<rparr>"

definition loop_winsock0 :: loop_winsock where
  "loop_winsock0 = \<lparr>lw_open = [0], lw_starts = 1, lw_error = WSAEOther 0, lw_wire = []\<rparr>"

definition win_env0 :: "'k \<Rightarrow> 'k win_env" where
  "win_env0 k = \<lparr>we_os = k, we_sock = INVALID_SOCKET, we_connected = False, we_started = False\<rparr>"

lemma loopw_counts: "win_counts_ok loopw_api"
  by (auto simp: win_counts_ok_def loopw_api_def loopw_send_def Let_def)

lemma loopw_handles: "win_handles_ok loopw_api (\<lambda>k. (set (lw_open k), lw_starts k))"
  by (auto simp: win_handles_ok_def loopw_api_def loopw_socket_def loopw_send_def Let_def find_None_iff find_Some_iff
      split: option.split)

section \<open>A TLS library in memory\<close>

text \<open>\<open>mt_net\<close> is the descriptor in the network context, \<open>mt_open\<close> what is open in the system;
  \<open>mt_nonblock\<close> is the result of \<open>net_set_nonblock\<close>.\<close>

record mem_tls =
  mt_net :: "nat option"
  mt_open :: "nat list"
  mt_nonblock :: int
  mt_wire :: bytes

definition mem_net_connect :: "mem_tls \<Rightarrow> int \<times> mem_tls" where
  "mem_net_connect k = (let fd = length (mt_open k) in (0, k\<lparr>mt_net := Some fd, mt_open := fd # mt_open k\<rparr>))"

definition mem_free :: "tls_ctx \<Rightarrow> mem_tls \<Rightarrow> mem_tls" where
  "mem_free ctx k =
     (case ctx of
        Net \<Rightarrow> (case mt_net k of None \<Rightarrow> k | Some fd \<Rightarrow> k\<lparr>mt_net := None, mt_open := removeAll fd (mt_open k)\<rparr>)
      | _ \<Rightarrow> k)"

definition mem_tls_api :: "mem_tls mbedtls_api" where
  "mem_tls_api = \<lparr>ERR_SSL_WANT_READ = - 0x6900, ERR_SSL_WANT_WRITE = - 0x6880, ERR_SSL_PEER_CLOSE_NOTIFY = - 0x7880,
     tls_init = (\<lambda>_ k. k), tls_free = mem_free, ctr_drbg_seed = (\<lambda>_ k. (0, k)), x509_crt_parse = (\<lambda>_ k. (0, k)),
     net_connect = (\<lambda>_ _. mem_net_connect), net_set_nonblock = (\<lambda>k. (mt_nonblock k, k)), ssl_config_defaults = (\<lambda>k. (0, k)),
     ssl_conf_verify_required = (\<lambda>k. k), ssl_conf_ca_chain = (\<lambda>k. k), ssl_conf_rng = (\<lambda>k. k), ssl_setup = (\<lambda>k. (0, k)),
     ssl_set_hostname = (\<lambda>_ k. (0, k)), ssl_set_bio = (\<lambda>k. k), ssl_handshake = (\<lambda>k. (0, k)), ssl_get_verify_result = (\<lambda>_. 0),
     ssl_write = (\<lambda>data k. (int (length data), k\<lparr>mt_wire := mt_wire k @ data\<rparr>)),
     ssl_read = (\<lambda>buf k. (- 0x6900, buf, k)), ssl_close_notify = (\<lambda>k. k)\<rparr>"

definition mem_tls0 :: "int \<Rightarrow> mem_tls" where
  "mem_tls0 nonblock = \<lparr>mt_net = None, mt_open = [], mt_nonblock = nonblock, mt_wire = []\<rparr>"

definition mem_endpoint :: tls_endpoint where
  "mem_endpoint = \<lparr>te_host = lit ''broker'', te_port = lit ''8883'', te_ca_pem = []\<rparr>"

lemma mem_tls_counts: "tls_counts_ok mem_tls_api"
  by (simp add: tls_counts_ok_def mem_tls_api_def)

text \<open>A setup that fails after the connection leaves the socket open: the transport does not close it,
  the next attempt overwrites the descriptor, and closing the transport gives back only the last one.\<close>

lemma tls_setup_leak:
  "(let r1 = tls_connect mem_tls_api mem_endpoint (tls_new mem_tls_api (mem_tls0 1));
        r2 = tls_connect mem_tls_api mem_endpoint (snd r1)
    in (fst r1, fst r2, mt_open (le_os (snd r1)), mt_open (le_os (tls_close mem_tls_api (snd r2)))))
   = (TransportFailure, TransportFailure, [0], [0])"
  by code_simp

section \<open>Properties\<close>

text \<open>C22: The four example transports keep the contract the client relies on, whatever the network
  does: every code they return is one the client knows, an error means that nothing was read or
  written, and no count exceeds what was offered. Assumed of the systems below them is only that a
  send or receive call returns at most the length it was given.\<close>

theorem example_transports_contract:
  assumes "counts_ok posix" and "win_counts_ok winsock" and "tls_counts_ok mbedtls"
  shows "transport_contract (tcp_platform posix address port) \<and> transport_contract (posix_platform posix host port)
    \<and> transport_contract (win_platform winsock address port) \<and> transport_contract (tls_platform mbedtls ep clock)"
  using sock_contracts [OF assms(1)] win_contract [OF assms(2)] tls_contract [OF assms(3)] by blast

theorem example_transports_contract_witness:
  "transport_contract (tcp_platform loop_api Ipv4_0 1883) \<and> transport_contract (posix_platform loop_api (lit ''localhost'') 1883)
   \<and> transport_contract (win_platform loopw_api Ipv4_0 1883) \<and> transport_contract (tls_platform mem_tls_api mem_endpoint (\<lambda>env. (0, env)))"
  by (rule example_transports_contract [OF loop_counts loopw_counts mem_tls_counts])

text \<open>C23: The socket transports give back everything they open. After any sequence of connection
  attempts, sends, receives and clock readings, with any outcome, closing the transport leaves the
  system with exactly the descriptors it had open before - and, on Windows, with Winsock started
  exactly as often as before.\<close>

theorem sockets_given_back:
  assumes "fds_ok posix opened" and "win_handles_ok winsock held"
  shows "opened (se_os (tcp_close posix (fold (tr_call (tcp_platform posix address port)) opers (sock_env0 k)))) = opened k
    \<and> opened (se_os (posix_close posix (fold (tr_call (posix_platform posix host port)) opers (sock_env0 k)))) = opened k
    \<and> held (we_os (win_close winsock (fold (tr_call (win_platform winsock address port)) opers (win_env0 w)))) = held w"
proof -
  note s = sock_owners [OF assms(1), THEN resource_owner.close_after_calls]
    and w = win_owner [OF assms(2), THEN resource_owner.close_after_calls]
  have o: "owns_fd opened (opened k) (sock_env0 k)" "owns_socket held (held w) (win_env0 w)"
    by (simp_all add: owns_fd_def sock_env0_def owns_socket_def win_env0_def)
  show ?thesis using s(1) [OF o(1), of address port opers] s(2) [OF o(1), of host port opers] w [OF o(2), of address port opers]
    by (simp add: tcp_platform_def posix_platform_def win_platform_def)
qed

theorem sockets_given_back_witness:
  "let opers = [OpConnect, OpConnect, OpConnect, OpSend [1, 2], OpRecv [0]];
       tcp = fold (tr_call (tcp_platform loop_api Ipv4_0 1883)) opers (sock_env0 loop_kernel0)
   in lk_open (se_os tcp) = [4, 3] \<and> lk_wire (se_os tcp) = [1, 2] \<and> set (lk_open (se_os (tcp_close loop_api tcp))) = {3}
    \<and> (set (lw_open (we_os (win_close loopw_api (fold (tr_call (win_platform loopw_api Ipv4_0 1883)) opers (win_env0 loop_winsock0))))),
       lw_starts (we_os (win_close loopw_api (fold (tr_call (win_platform loopw_api Ipv4_0 1883)) opers (win_env0 loop_winsock0))))) = ({0}, 1)"
proof -
  let ?opers = "[OpConnect, OpConnect, OpConnect, OpSend [1, 2], OpRecv [0]]"
  let ?tcp = "fold (tr_call (tcp_platform loop_api Ipv4_0 1883)) ?opers (sock_env0 loop_kernel0)"
  have "(lk_open (se_os ?tcp), lk_wire (se_os ?tcp)) = ([4, 3], [1, 2])" by code_simp
  then show ?thesis
    using sockets_given_back [OF loop_fds loopw_handles, of Ipv4_0 1883 ?opers loop_kernel0 "[]" loop_winsock0]
    by (simp add: loop_kernel0_def loop_winsock0_def)
qed

end
