(* ===== verification/Example_Programs.thy ===== *)
theory Example_Programs
  imports Client_Transmit Client_Runs Sockets
begin

text \<open>
  The three example programs: \<^verbatim>\<open>examples/minimal_publisher.cpp\<close>, \<^verbatim>\<open>examples/ip_publisher.cpp\<close> and
  \<^verbatim>\<open>examples/pubsub_demo.cpp\<close>. The environment of the client is the transport together with the global
  variables its handlers set. What the programs print is not modelled. The loops without a bound are
  partial: \<open>None\<close> is a program that does not end.
\<close>

section \<open>The C library\<close>

text \<open>\<open>atoi\<close>, for values that an \<open>int\<close> holds.\<close>

definition c_isspace :: "u8 \<Rightarrow> bool" where
  "c_isspace c \<longleftrightarrow> c \<in> {0x20, 0x09, 0x0A, 0x0B, 0x0C, 0x0D}"

definition atoi :: "bytes \<Rightarrow> int" where
  "atoi str =
     (let t = dropWhile c_isspace str;
          neg = (t \<noteq> [] \<and> hd t = 0x2D);
          t = (if t \<noteq> [] \<and> (hd t = 0x2D \<or> hd t = 0x2B) then tl t else t);
          n = int (decimal (takeWhile is_digit t))
      in if neg then - n else n)"

text \<open>\<open>snprintf(buf, size, "%s", str)\<close>: what the buffer holds afterwards.\<close>

definition snprintf_s :: "nat \<Rightarrow> bytes \<Rightarrow> bytes" where
  "snprintf_s n str = take (n - 1) (takeWhile (\<lambda>c. c \<noteq> 0) str)"

section \<open>Programs around a client\<close>

record globals =
  g_done :: bool
  g_running :: bool
  g_connected :: bool
  g_echoes :: nat
  g_deliveries :: nat
  g_end_reason :: Error

definition globals0 :: globals where
  "globals0 = \<lparr>g_done = False, g_running = True, g_connected = False, g_echoes = 0, g_deliveries = 0, g_end_reason = Ok\<rparr>"

definition with_globals :: "'e platform \<Rightarrow> ('e \<times> globals) platform" where
  "with_globals pl = \<lparr>
     tr_connect = (\<lambda>(env, g). case tr_connect pl env of (e, env) \<Rightarrow> (e, env, g)),
     tr_send = (\<lambda>data (env, g). case tr_send pl data env of (e, n, env) \<Rightarrow> (e, n, env, g)),
     tr_recv = (\<lambda>buf (env, g). case tr_recv pl buf env of (e, n, buf, env) \<Rightarrow> (e, n, buf, env, g)),
     tr_close = (\<lambda>(env, g). (tr_close pl env, g)),
     tr_is_connected = (\<lambda>(env, g). tr_is_connected pl env),
     now_ms = (\<lambda>(env, g). case now_ms pl env of (t, env) \<Rightarrow> (t, env, g))\<rparr>"

definition globals_of :: "('e \<times> globals) client \<Rightarrow> globals" where
  "globals_of s = snd (c_env s)"

definition set_globals :: "(globals \<Rightarrow> globals) \<Rightarrow> ('e \<times> globals) client \<Rightarrow> ('e \<times> globals) client" where
  "set_globals f s = s\<lparr>c_env := (fst (c_env s), f (snd (c_env s)))\<rparr>"

definition program :: "config \<Rightarrow> ('w, 'r) etl_ops \<Rightarrow> 'e platform \<Rightarrow> (event \<Rightarrow> globals \<Rightarrow> globals)
    \<Rightarrow> ('w, 'r, 'e \<times> globals) client_ctx" where
  "program cfg etl pl handle =
     \<lparr>cx_cfg = cfg, cx_etl = etl, cx_pl = with_globals pl, cx_app = (\<lambda>ev. set_globals (handle ev))\<rparr>"

text \<open>A new client with the four handlers that both \<open>ip_publisher\<close> and \<open>pubsub_demo\<close> bind.\<close>

definition bound_client :: "('w, 'r, 'e \<times> globals) client_ctx \<Rightarrow> 'e \<Rightarrow> ('e \<times> globals) client" where
  "bound_client cx env = on_delivery_complete (Some 3) (on_message (Some 2) (on_disconnect (Some 1) (on_connect (Some 0)
     (new_client (cx_cfg cx) (env, globals0)))))"

text \<open>\<open>transport.wait_readable(ms)\<close> between two steps.\<close>

definition wait_for :: "(int \<Rightarrow> 'e \<Rightarrow> 'e) \<Rightarrow> int \<Rightarrow> ('e \<times> globals) client \<Rightarrow> ('e \<times> globals) client" where
  "wait_for wait ms s = s\<lparr>c_env := (wait ms (fst (c_env s)), snd (c_env s))\<rparr>"

text \<open>\<open>while (client.state() != State::Idle) client.step();\<close>\<close>

partial_function (option) until_idle :: "('w, 'r, 'e) client_ctx \<Rightarrow> 'e client \<Rightarrow> 'e client option" where
  "until_idle cx s =
     (if c_state s = Idle then Some s
      else case step cx s of None \<Rightarrow> None | Some (_, s) \<Rightarrow> until_idle cx s)"

text \<open>The same with at most \<open>n\<close> steps, while \<open>cont\<close> holds, and with a wait after each.\<close>

fun steps_while :: "('w, 'r, 'e) client_ctx \<Rightarrow> ('e client \<Rightarrow> bool) \<Rightarrow> ('e client \<Rightarrow> 'e client) \<Rightarrow> nat
    \<Rightarrow> 'e client \<Rightarrow> 'e client option" where
  "steps_while cx cont after 0 s = Some s"
| "steps_while cx cont after (Suc n) s =
     (if \<not> cont s then Some s
      else case step cx s of None \<Rightarrow> None | Some (_, s) \<Rightarrow> steps_while cx cont after n (after s))"

section \<open>minimal_publisher\<close>

definition minimal_config :: config where
  "minimal_config = DefaultConfig\<lparr>rx_buffer_size := 256, tx_buffer_size := 256, max_inflight_out := 1,
     max_persisted_msg_size := 128, max_subscriptions := 1\<rparr>"

definition minimal_handle :: "event \<Rightarrow> globals \<Rightarrow> globals" where
  "minimal_handle ev g = (case ev of OnDelivery _ _ \<Rightarrow> g\<lparr>g_done := True\<rparr> | _ \<Rightarrow> g)"

text \<open>Publish once, as soon as the client is connected.\<close>

definition minimal_publish ::
  "('w, 'r, 'e) client_ctx \<Rightarrow> bool \<Rightarrow> 'e client \<Rightarrow> bool \<times> 'e client" where
  "minimal_publish cx published s =
     (if is_connected s \<and> \<not> published then
        (case publish cx (lit ''demo/minimal'') (lit ''hello'') AtLeastOnce False s of
           (e, _, s) \<Rightarrow> (if e = Ok then True else published, s))
      else (published, s))"

text \<open>\<open>while (!g_done)\<close>; the result says whether the loop ended, or the program with status 1.\<close>

partial_function (option) minimal_loop ::
  "('w, 'r, 'e \<times> globals) client_ctx \<Rightarrow> (int \<Rightarrow> 'e \<Rightarrow> 'e) \<Rightarrow> bool \<Rightarrow> ('e \<times> globals) client
     \<Rightarrow> (bool \<times> ('e \<times> globals) client) option" where
  "minimal_loop cx wait published s =
     (if g_done (globals_of s) then Some (True, s)
      else
        (case step cx s of
           None \<Rightarrow> None
         | Some (rc, s) \<Rightarrow>
             if rc \<noteq> Ok then Some (False, s)
             else
               (case minimal_publish cx published s of
                  (published, s) \<Rightarrow> minimal_loop cx wait published (wait_for wait 50 s))))"

definition minimal_options :: ConnectOptions where
  "minimal_options = default_options\<lparr>o_client_id := lit ''minimal-publisher'', o_keep_alive_s := 30\<rparr>"

definition minimal_main ::
  "('w, 'r, 'e \<times> globals) client_ctx \<Rightarrow> (int \<Rightarrow> 'e \<Rightarrow> 'e) \<Rightarrow> 'e \<Rightarrow> (int \<times> ('e \<times> globals) client) option" where
  "minimal_main cx wait env =
     (case connect cx minimal_options (on_delivery_complete (Some 0) (new_client (cx_cfg cx) (env, globals0))) of
         (e, s) \<Rightarrow>
           if e \<noteq> Ok then Some (1, s)
           else
             (case minimal_loop cx wait False s of
                None \<Rightarrow> None
              | Some (ended, s) \<Rightarrow>
                  if \<not> ended then Some (1, s)
                  else
                    (case until_idle cx (snd (disconnect cx s)) of
                       None \<Rightarrow> None
                     | Some s \<Rightarrow> Some (0, s))))"

definition minimal_program ::
  "('w, 'r) etl_ops \<Rightarrow> 'k posix_api \<Rightarrow> bytes list \<Rightarrow> 'k \<Rightarrow> (int \<times> ('k sock_env \<times> globals) client) option" where
  "minimal_program etl api argv k =
     (let host = (if length argv > 1 then argv ! 1 else lit ''127.0.0.1'');
          port = word_of_int (if length argv > 2 then atoi (argv ! 2) else 1883)
      in minimal_main (program minimal_config etl (posix_platform api host port) minimal_handle)
           (posix_wait_readable api) (sock_env0 k))"

section \<open>ip_publisher\<close>

definition node_config :: config where
  "node_config = DefaultConfig\<lparr>rx_buffer_size := 512, tx_buffer_size := 512, max_topic_len := 64, max_client_id_len := 24,
     max_inflight_out := 4, max_persisted_msg_size := 128, max_subscriptions := 4, retry_interval_ms := 10000\<rparr>"

definition ip_handle :: "event \<Rightarrow> globals \<Rightarrow> globals" where
  "ip_handle ev g = (case ev of OnDisconnect _ _ \<Rightarrow> g\<lparr>g_running := False\<rparr> | _ \<Rightarrow> g)"

text \<open>The part of a turn of the loop after the step: subscribe once, then publish once a second.\<close>

definition ip_subscribe :: "('w, 'r, 'e) client_ctx \<Rightarrow> bytes \<Rightarrow> bool \<Rightarrow> 'e client \<Rightarrow> bool \<times> 'e client" where
  "ip_subscribe cx topic subscribed s =
     (if is_connected s \<and> \<not> subscribed then
        (case subscribe_one cx topic AtLeastOnce None s of
           (e, _, s) \<Rightarrow> (if e = Ok then True else subscribed, s))
      else (subscribed, s))"

definition ip_publish ::
  "('w, 'r, 'e) client_ctx \<Rightarrow> bytes \<Rightarrow> bool \<Rightarrow> nat \<Rightarrow> u32 \<Rightarrow> 'e client \<Rightarrow> nat \<times> u32 \<times> 'e client" where
  "ip_publish cx topic subscribed sent last_pub s =
     (if \<not> subscribed then (sent, last_pub, s)
      else
        (case read_clock cx s of
           (now, s) \<Rightarrow>
             if elapsed_ms now last_pub < 1000 then (sent, last_pub, s)
             else
               (case publish cx topic (snprintf_s 48 (lit ''reading '' @ decimal_text sent)) AtLeastOnce False s of
                  (e, _, s) \<Rightarrow>
                    (case read_clock cx s of (now, s) \<Rightarrow> (if e = Ok then sent + 1 else sent, now, s)))))"

partial_function (option) ip_loop ::
  "('w, 'r, 'e \<times> globals) client_ctx \<Rightarrow> (int \<Rightarrow> 'e \<Rightarrow> 'e) \<Rightarrow> bytes \<Rightarrow> bool \<Rightarrow> nat \<Rightarrow> u32 \<Rightarrow> ('e \<times> globals) client
     \<Rightarrow> ('e \<times> globals) client option" where
  "ip_loop cx wait topic subscribed sent last_pub s =
     (if \<not> (g_running (globals_of s) \<and> sent < 3) then Some s
      else
        (case step cx s of
           None \<Rightarrow> None
         | Some (rc, s) \<Rightarrow>
             if rc \<noteq> Ok then Some s
             else
               (case ip_subscribe cx topic subscribed s of
                  (subscribed, s) \<Rightarrow>
                    (case ip_publish cx topic subscribed sent last_pub s of
                       (sent, last_pub, s) \<Rightarrow>
                         ip_loop cx wait topic subscribed sent last_pub (wait_for wait 50 s)))))"

text \<open>The end of the program: wait for the acknowledgements, disconnect, give up after ten steps.\<close>

definition ip_close ::
  "('w, 'r, 'e \<times> globals) client_ctx \<Rightarrow> (int \<Rightarrow> 'e \<Rightarrow> 'e) \<Rightarrow> ('e \<times> globals) client \<Rightarrow> ('e \<times> globals) client option" where
  "ip_close cx wait s =
     (case steps_while cx (\<lambda>s. inflight_count (cx_cfg cx) s > 0) (wait_for wait 50) 40 s of
        None \<Rightarrow> None
      | Some s \<Rightarrow> steps_while cx (\<lambda>s. c_state s \<noteq> Idle) (\<lambda>s. s) 10 (snd (disconnect cx s)))"

definition ip_options :: ConnectOptions where
  "ip_options = default_options\<lparr>o_client_id := lit ''ip-publisher'', o_keep_alive_s := 20, o_clean_session := True\<rparr>"

definition ip_main ::
  "('w, 'r, 'e \<times> globals) client_ctx \<Rightarrow> (int \<Rightarrow> 'e \<Rightarrow> 'e) \<Rightarrow> bytes \<Rightarrow> 'e \<Rightarrow> (int \<times> ('e \<times> globals) client) option" where
  "ip_main cx wait topic env =
     (case connect cx ip_options (bound_client cx env) of
         (e, s) \<Rightarrow>
           if e \<noteq> Ok then Some (1, s)
           else
             (case read_clock cx s of
                (last_pub, s) \<Rightarrow>
                  (case ip_loop cx wait topic False 0 last_pub s of
                     None \<Rightarrow> None
                   | Some s \<Rightarrow>
                       (case ip_close cx wait s of None \<Rightarrow> None | Some s \<Rightarrow> Some (0, s)))))"

definition kDefaultBroker :: Ipv4 where
  "kDefaultBroker = ipv4 (Some (lit ''127.0.0.1''))"

text \<open>The status 2 of a bad address comes before there is a client.\<close>

definition ip_program ::
  "('w, 'r) etl_ops \<Rightarrow> 'k posix_api \<Rightarrow> bytes list \<Rightarrow> 'k \<Rightarrow> (int \<times> ('k sock_env \<times> globals) client option) option" where
  "ip_program etl api argv k =
     (let parsed = (if length argv > 1 then parse_ipv4 (Some (argv ! 1)) kDefaultBroker else (True, kDefaultBroker))
      in
      if \<not> fst parsed then Some (2, None)
      else
        let port = word_of_int (if length argv > 2 then atoi (argv ! 2) else 1883);
            topic = (if length argv > 3 then snprintf_s 80 (argv ! 3) else lit ''demo/ip'')
        in map_option (map_prod id Some)
             (ip_main (program node_config etl (tcp_platform api (snd parsed) port) ip_handle)
               (tcp_wait_readable api) topic (sock_env0 k)))"

section \<open>pubsub_demo\<close>

definition demo_config :: config where
  "demo_config = DefaultConfig\<lparr>rx_buffer_size := 2048, tx_buffer_size := 2048, max_topic_len := 96, max_client_id_len := 32,
     max_inflight_out := 4, max_persisted_msg_size := 256, max_subscriptions := 4\<rparr>"

definition kSessionDeadlineMs :: u32 where "kSessionDeadlineMs = 60000"

definition demo_handle :: "event \<Rightarrow> globals \<Rightarrow> globals" where
  "demo_handle ev g =
     (case ev of
        OnConnect _ _ \<Rightarrow> g\<lparr>g_connected := True\<rparr>
      | OnDisconnect _ e \<Rightarrow> g\<lparr>g_end_reason := e, g_running := False\<rparr>
      | OnMessage _ _ \<Rightarrow> g\<lparr>g_echoes := g_echoes g + 1\<rparr>
      | OnDelivery _ _ \<Rightarrow> g\<lparr>g_deliveries := g_deliveries g + 1\<rparr>
      | _ \<Rightarrow> g)"

text \<open>The local variables of \<open>main\<close>.\<close>

record demo_vars =
  d_subscribed :: bool
  d_published :: nat
  d_deferrals :: nat
  d_last_pub :: u32
  d_timed_out :: bool

text \<open>The publishing part of a turn: at most one message a second, its quality of service from its
  number, and no more than ten refusals in a row.\<close>

definition demo_publish ::
  "('w, 'r, 'e) client_ctx \<Rightarrow> bytes \<Rightarrow> demo_vars \<Rightarrow> 'e client \<Rightarrow> demo_vars \<times> 'e client" where
  "demo_publish cx topic v s =
     (if \<not> (is_connected s \<and> d_subscribed v) then (v, s)
      else
        (case read_clock cx s of
           (now, s) \<Rightarrow>
             if elapsed_ms now (d_last_pub v) < 1000 then (v, s)
             else
               (case publish cx topic (snprintf_s 64 (lit ''hello #'' @ decimal_text (d_published v) @ lit '' from mqtt-embedded''))
                       (word_of_nat (d_published v mod 3)) False s of
                  (e, _, s) \<Rightarrow>
                    if e = Ok then
                      (case read_clock cx s of
                         (now, s) \<Rightarrow> (v\<lparr>d_published := d_published v + 1, d_deferrals := 0, d_last_pub := now\<rparr>, s))
                    else
                      let v = v\<lparr>d_deferrals := d_deferrals v + 1\<rparr> in
                      if d_deferrals v \<ge> 10 then (v\<lparr>d_timed_out := True\<rparr>, s)
                      else (case read_clock cx s of (now, s) \<Rightarrow> (v\<lparr>d_last_pub := now\<rparr>, s)))))"

partial_function (option) demo_loop ::
  "('w, 'r, 'e \<times> globals) client_ctx \<Rightarrow> (int \<Rightarrow> 'e \<Rightarrow> 'e) \<Rightarrow> bytes \<Rightarrow> u32 \<Rightarrow> demo_vars \<Rightarrow> ('e \<times> globals) client
     \<Rightarrow> (demo_vars \<times> ('e \<times> globals) client) option" where
  "demo_loop cx wait topic started_ms v s =
     (if \<not> (g_running (globals_of s) \<and> d_published v < 5) then Some (v, s)
      else
        (case read_clock cx s of
           (now, s) \<Rightarrow>
             if elapsed_ms now started_ms > kSessionDeadlineMs then Some (v\<lparr>d_timed_out := True\<rparr>, s)
             else
               (case step cx s of
                  None \<Rightarrow> None
                | Some (rc, s) \<Rightarrow>
                    if rc \<noteq> Ok then Some (v, s)
                    else
                      (case ip_subscribe cx topic (d_subscribed v) s of
                         (subscribed, s) \<Rightarrow>
                           (case demo_publish cx topic (v\<lparr>d_subscribed := subscribed\<rparr>) s of
                              (v, s) \<Rightarrow>
                                if d_timed_out v then Some (v, s)
                                else demo_loop cx wait topic started_ms v (wait_for wait 50 s))))))"

text \<open>Sit quiet for twice the keep-alive interval.\<close>

partial_function (option) demo_idle ::
  "('w, 'r, 'e \<times> globals) client_ctx \<Rightarrow> (int \<Rightarrow> 'e \<Rightarrow> 'e) \<Rightarrow> u32 \<Rightarrow> u32 \<Rightarrow> ('e \<times> globals) client
     \<Rightarrow> ('e \<times> globals) client option" where
  "demo_idle cx wait idle_started idle_ms s =
     (if \<not> g_running (globals_of s) then Some s
      else
        (case read_clock cx s of
           (now, s) \<Rightarrow>
             if \<not> elapsed_ms now idle_started < idle_ms then Some s
             else
               (case step cx s of
                  None \<Rightarrow> None
                | Some (rc, s) \<Rightarrow>
                    if rc \<noteq> Ok then Some s else demo_idle cx wait idle_started idle_ms (wait_for wait 100 s))))"

text \<open>What follows the publishing loop, up to the disconnect: drain, then idle.\<close>

definition demo_linger ::
  "('w, 'r, 'e \<times> globals) client_ctx \<Rightarrow> (int \<Rightarrow> 'e \<Rightarrow> 'e) \<Rightarrow> u16 \<Rightarrow> demo_vars \<Rightarrow> ('e \<times> globals) client
     \<Rightarrow> ('e \<times> globals) client option" where
  "demo_linger cx wait keep_alive_s v s =
     (case steps_while cx (\<lambda>s. \<not> d_timed_out v \<and> inflight_count (cx_cfg cx) s > 0) (wait_for wait 50) 40 s of
        None \<Rightarrow> None
      | Some s \<Rightarrow>
          (case read_clock cx s of
             (idle_started, s) \<Rightarrow>
               if d_timed_out v then Some s
               else demo_idle cx wait idle_started (ucast keep_alive_s * 1000 * 2) s))"

definition expect :: "bool \<Rightarrow> nat" where "expect ok = (if ok then 0 else 1)"

definition demo_failures :: "demo_vars \<Rightarrow> globals \<Rightarrow> bool \<Rightarrow> bool \<Rightarrow> nat" where
  "demo_failures v g survived_idle closed_cleanly =
     expect (\<not> d_timed_out v) + expect (g_connected g) + expect (d_subscribed v) + expect (d_published v = 5)
     + expect (g_deliveries g \<ge> 3) + expect (g_echoes g \<ge> 5) + expect survived_idle + expect closed_cleanly
     + expect (g_end_reason g = Ok)"

definition demo_options :: ConnectOptions where
  "demo_options = default_options\<lparr>o_client_id := lit ''mqtt-embedded-demo'', o_keep_alive_s := 5, o_clean_session := True\<rparr>"

definition demo_main ::
  "('w, 'r, 'e \<times> globals) client_ctx \<Rightarrow> (int \<Rightarrow> 'e \<Rightarrow> 'e) \<Rightarrow> bytes \<Rightarrow> 'e \<Rightarrow> (int \<times> ('e \<times> globals) client) option" where
  "demo_main cx wait topic env =
     (case connect cx demo_options (bound_client cx env) of
         (e, s) \<Rightarrow>
           if e \<noteq> Ok then Some (1, s)
           else
             (case read_clock cx s of
                (last_pub, s) \<Rightarrow>
                  (case read_clock cx s of
                     (started_ms, s) \<Rightarrow>
                       (case demo_loop cx wait topic started_ms \<lparr>d_subscribed = False, d_published = 0, d_deferrals = 0,
                               d_last_pub = last_pub, d_timed_out = False\<rparr> s of
                          None \<Rightarrow> None
                        | Some (v, s) \<Rightarrow>
                            (case demo_linger cx wait (o_keep_alive_s demo_options) v s of
                               None \<Rightarrow> None
                             | Some s \<Rightarrow>
                                 let survived_idle = is_connected s in
                                 (case steps_while cx (\<lambda>s. c_state s \<noteq> Idle) (wait_for wait 10) 20 (snd (disconnect cx s)) of
                                    None \<Rightarrow> None
                                  | Some s \<Rightarrow>
                                      let closed_cleanly = (c_state s = Idle) in
                                      Some (if demo_failures v (globals_of s) survived_idle closed_cleanly \<noteq> 0 then 1 else 0, s)))))))"

definition demo_program ::
  "('w, 'r) etl_ops \<Rightarrow> 'k posix_api \<Rightarrow> bytes list \<Rightarrow> 'k \<Rightarrow> (int \<times> ('k sock_env \<times> globals) client) option" where
  "demo_program etl api argv k =
     (let host = (if length argv > 1 then argv ! 1 else lit ''test.mosquitto.org'');
          port = word_of_int (if length argv > 2 then atoi (argv ! 2) else 1883);
          topic = (if length argv > 3 then snprintf_s 128 (argv ! 3) else lit ''demo/mqtt-embedded'')
      in demo_main (program demo_config etl (posix_platform api host port) demo_handle) (posix_wait_readable api) topic (sock_env0 k))"

section \<open>The world of a program\<close>

lemma program_simps [simp]:
  "cx_cfg (program cfg etl pl handle) = cfg" "cx_etl (program cfg etl pl handle) = etl"
  "cx_pl (program cfg etl pl handle) = with_globals pl"
  by (simp_all add: program_def)

lemma with_globals_contract:
  assumes "transport_contract pl"
  shows "transport_contract (with_globals pl)"
proof -
  note C = transport_contract.connect_codes [OF assms] transport_contract.send_codes [OF assms]
    transport_contract.send_written [OF assms] transport_contract.recv_codes [OF assms] transport_contract.recv_read [OF assms]
  show ?thesis
  proof (unfold_locales, goal_cases)
    case (1 env)
    show ?case using C(1) [of "fst env"] by (auto simp: with_globals_def split: prod.splits)
  qed (auto simp: with_globals_def split: prod.splits dest: C(2-5))
qed

lemma program_world:
  assumes "byte_streams etl" and "transport_contract pl" and "wf_config cfg"
  shows "client_world (program cfg etl pl handle)"
proof -
  have "handler_run (program cfg etl pl handle) s (set_globals f s)" for s :: "('c \<times> globals) client" and f
    unfolding set_globals_def by (rule handler_run.own_state) (rule handler_run.finished)
  then show ?thesis using assms
    by (intro client_world.intro client_env.intro client_world_axioms.intro)
      (simp_all add: with_globals_contract handlers_ok_def, simp add: program_def)
qed

section \<open>The programs only do what a client allows\<close>

declare until_idle.simps [code] minimal_loop.simps [code] ip_loop.simps [code] demo_loop.simps [code] demo_idle.simps [code]

lemma wait_reachable: "reachable cx s \<Longrightarrow> reachable cx (wait_for wait ms s)"
  unfolding wait_for_def by (rule reachable.world)

lemma clock_reachable: "reachable cx s \<Longrightarrow> read_clock cx s = (t, s') \<Longrightarrow> reachable cx s'"
  by (auto simp: read_clock_def split: prod.splits intro: reachable.world)

lemma bind_reachable:
  assumes "reachable cx s"
  shows "reachable cx (on_delivery_complete h s)" "reachable cx (on_message h s)"
    "reachable cx (on_disconnect h s)" "reachable cx (on_connect h s)"
  using reachable.bind_handlers [OF assms, of "c_on_message s" "c_on_connect s" "c_on_disconnect s" h "c_on_suback s"]
    reachable.bind_handlers [OF assms, of h "c_on_connect s" "c_on_disconnect s" "c_on_delivery s" "c_on_suback s"]
    reachable.bind_handlers [OF assms, of "c_on_message s" "c_on_connect s" h "c_on_delivery s" "c_on_suback s"]
    reachable.bind_handlers [OF assms, of "c_on_message s" h "c_on_disconnect s" "c_on_delivery s" "c_on_suback s"]
  by (simp_all add: on_message_def on_connect_def on_disconnect_def on_delivery_complete_def on_suback_def)

lemma bound_reachable: "reachable cx (bound_client cx env)"
  unfolding bound_client_def by (intro bind_reachable reachable.fresh)

lemma disconnect_reachable: "reachable cx s \<Longrightarrow> reachable cx (snd (disconnect cx s))"
  by (rule reachable.call_disconnect [OF _ prod.collapse [symmetric]])

lemma length_snprintf: "length (snprintf_s n str) \<le> n"
  by (simp add: snprintf_s_def)

lemma minimal_publish_reachable:
  "minimal_publish cx b s = (b', s') \<Longrightarrow> reachable cx s \<Longrightarrow> reachable cx s'"
  by (auto simp: minimal_publish_def lit_def split: if_splits prod.splits elim!: reachable.call_publish [rotated 2])

lemma ip_subscribe_reachable:
  "ip_subscribe cx topic b s = (b', s') \<Longrightarrow> reachable cx s \<Longrightarrow> reachable cx s'"
  by (auto simp: ip_subscribe_def subscribe_one_def split: if_splits prod.splits elim!: reachable.call_subscribe [rotated])

lemma publish_reachable:
  assumes "reachable cx s" and "publish cx topic (snprintf_s n str) qos False s = (e, res, s')" and "n \<le> 128"
  shows "reachable cx s'"
  using length_snprintf [of n str] assms(3) by (intro reachable.call_publish [OF assms(1) _ assms(2)]) simp

lemma ip_publish_reachable:
  assumes "ip_publish cx topic b n t s = (n', t', s')" and "reachable cx s"
  shows "reachable cx s'"
proof -
  obtain now s1 where c: "read_clock cx s = (now, s1)" by fastforce
  obtain e res s2 where p: "publish cx topic (snprintf_s 48 (lit ''reading '' @ decimal_text n)) AtLeastOnce False s1 = (e, res, s2)"
    by (metis prod_cases3)
  obtain now' s3 where c': "read_clock cx s2 = (now', s3)" by fastforce
  have r1: "reachable cx s1" by (rule clock_reachable [OF assms(2) c])
  have r2: "reachable cx s2" by (rule publish_reachable [OF r1 p]) simp
  show ?thesis using assms r1 clock_reachable [OF r2 c'] by (simp add: ip_publish_def c p c' split: if_splits)
qed

lemma demo_publish_reachable:
  assumes "demo_publish cx topic v s = (v', s')" and "reachable cx s"
  shows "reachable cx s'"
proof -
  let ?p = "snprintf_s 64 (lit ''hello #'' @ decimal_text (d_published v) @ lit '' from mqtt-embedded'')"
  obtain now s1 where c: "read_clock cx s = (now, s1)" by fastforce
  obtain e res s2 where p: "publish cx topic ?p (word_of_nat (d_published v mod 3)) False s1 = (e, res, s2)" by (metis prod_cases3)
  obtain now' s3 where c': "read_clock cx s2 = (now', s3)" by fastforce
  have r1: "reachable cx s1" by (rule clock_reachable [OF assms(2) c])
  have r2: "reachable cx s2" by (rule publish_reachable [OF r1 p]) simp
  show ?thesis using assms r1 r2 clock_reachable [OF r2 c'] by (simp add: demo_publish_def c p c' Let_def split: if_splits)
qed

lemma until_idle_reachable:
  assumes "until_idle cx s = Some t" and "reachable cx s"
  shows "reachable cx t \<and> c_state t = Idle"
proof -
  have "reachable cx s \<longrightarrow> reachable cx t \<and> c_state t = Idle"
  proof (rule until_idle.raw_induct [where P = "\<lambda>cx s t. reachable cx s \<longrightarrow> reachable cx t \<and> c_state t = Idle", OF _ assms(1)],
      goal_cases)
    case (1 f cx s t)
    show ?case
    proof (cases "c_state s = Idle")
      case False
      with 1(2) obtain e s1 where "step cx s = Some (e, s1)" "f cx s1 = Some t" by (auto split: option.splits)
      then show ?thesis using 1(1) reachable.call_step by blast
    qed (use 1(2) in simp)
  qed
  then show ?thesis using assms(2) by blast
qed

lemma minimal_loop_reachable:
  assumes "minimal_loop cx wait b s = Some r" and "reachable cx s"
  shows "reachable cx (snd r)"
proof -
  have "reachable cx s \<longrightarrow> reachable cx (snd r)"
  proof (rule minimal_loop.raw_induct [where P = "\<lambda>cx wait b s r. reachable cx s \<longrightarrow> reachable cx (snd r)", OF _ assms(1)],
      goal_cases)
    case (1 f cx wait b s r)
    show ?case
    proof (cases "g_done (globals_of s)")
      case False
      with 1(2) obtain e s1 where st: "step cx s = Some (e, s1)" by (auto split: option.splits)
      obtain b' s2 where mp: "minimal_publish cx b s1 = (b', s2)" by fastforce
      have "e \<noteq> Ok \<and> r = (False, s1) \<or> f cx wait b' (wait_for wait 50 s2) = Some r"
        using 1(2) False st mp by (auto split: if_splits)
      then show ?thesis
        using 1(1) [of cx wait b' "wait_for wait 50 s2" r] reachable.call_step [OF _ st] minimal_publish_reachable [OF mp] wait_reachable by auto
    qed (use 1(2) in auto)
  qed
  then show ?thesis using assms(2) by blast
qed

lemma ip_loop_reachable:
  assumes "ip_loop cx wait topic b n t s = Some r" and "reachable cx s"
  shows "reachable cx r"
proof -
  have "reachable cx s \<longrightarrow> reachable cx r"
  proof (rule ip_loop.raw_induct [where P = "\<lambda>cx wait topic b n t s r. reachable cx s \<longrightarrow> reachable cx r", OF _ assms(1)],
      goal_cases)
    case (1 f cx wait topic b n t s r)
    show ?case
    proof (cases "g_running (globals_of s) \<and> n < 3")
      case True
      with 1(2) obtain e s1 where st: "step cx s = Some (e, s1)" by (auto split: option.splits)
      obtain b' s2 where su: "ip_subscribe cx topic b s1 = (b', s2)" by fastforce
      obtain n' t' s3 where pu: "ip_publish cx topic b' n t s2 = (n', t', s3)" by (metis prod_cases3)
      have "r = s1 \<or> f cx wait topic b' n' t' (wait_for wait 50 s3) = Some r"
        using 1(2) True st su pu by (auto split: if_splits)
      then show ?thesis
        using 1(1) [of cx wait topic b' n' t' "wait_for wait 50 s3" r] reachable.call_step [OF _ st]
          ip_subscribe_reachable [OF su] ip_publish_reachable [OF pu] wait_reachable by auto
    qed (use 1(2) in auto)
  qed
  then show ?thesis using assms(2) by blast
qed

lemma demo_loop_reachable:
  assumes "demo_loop cx wait topic t v s = Some r" and "reachable cx s"
  shows "reachable cx (snd r)"
proof -
  have "reachable cx s \<longrightarrow> reachable cx (snd r)"
  proof (rule demo_loop.raw_induct [where P = "\<lambda>cx wait topic t v s r. reachable cx s \<longrightarrow> reachable cx (snd r)", OF _ assms(1)],
      goal_cases)
    case (1 f cx wait topic t v s r)
    obtain now s0 where cl: "read_clock cx s = (now, s0)" by fastforce
    show ?case
    proof (cases "g_running (globals_of s) \<and> d_published v < 5 \<and> \<not> elapsed_ms now t > kSessionDeadlineMs")
      case True
      with 1(2) cl obtain e s1 where st: "step cx s0 = Some (e, s1)" by (auto split: option.splits)
      obtain b' s2 where su: "ip_subscribe cx topic (d_subscribed v) s1 = (b', s2)" by fastforce
      obtain v' s3 where pu: "demo_publish cx topic (v\<lparr>d_subscribed := b'\<rparr>) s2 = (v', s3)" by fastforce
      have "snd r = s1 \<or> snd r = s3 \<or> f cx wait topic t v' (wait_for wait 50 s3) = Some r"
        using 1(2) True by (simp add: cl st su pu split: if_splits) auto
      then show ?thesis
        using 1(1) [of cx wait topic t v' "wait_for wait 50 s3" r] reachable.call_step [OF _ st] clock_reachable [OF _ cl]
          ip_subscribe_reachable [OF su] demo_publish_reachable [OF pu] wait_reachable by metis
    qed (use 1(2) cl clock_reachable [OF _ cl] in \<open>auto split: if_splits\<close>)
  qed
  then show ?thesis using assms(2) by blast
qed

lemma demo_idle_reachable:
  assumes "demo_idle cx wait t u s = Some r" and "reachable cx s"
  shows "reachable cx r"
proof -
  have "reachable cx s \<longrightarrow> reachable cx r"
  proof (rule demo_idle.raw_induct [where P = "\<lambda>cx wait t u s r. reachable cx s \<longrightarrow> reachable cx r", OF _ assms(1)],
      goal_cases)
    case (1 f cx wait t u s r)
    obtain now s0 where cl: "read_clock cx s = (now, s0)" by fastforce
    show ?case
    proof (cases "g_running (globals_of s) \<and> elapsed_ms now t < u")
      case True
      with 1(2) cl obtain e s1 where st: "step cx s0 = Some (e, s1)" by (auto split: option.splits)
      have "r = s1 \<or> f cx wait t u (wait_for wait 100 s1) = Some r" using 1(2) True cl st by (auto split: if_splits)
      then show ?thesis
        using 1(1) [of cx wait t u "wait_for wait 100 s1" r] reachable.call_step [OF _ st] clock_reachable [OF _ cl] wait_reachable by metis
    qed (use 1(2) cl clock_reachable [OF _ cl] in \<open>auto split: if_splits\<close>)
  qed
  then show ?thesis using assms(2) by blast
qed

lemma steps_while_reachable:
  assumes "\<And>s. reachable cx s \<Longrightarrow> reachable cx (after s)"
  shows "steps_while cx cont after n s = Some r \<Longrightarrow> reachable cx s \<Longrightarrow> reachable cx r"
  by (induction n arbitrary: s) (auto split: if_splits option.splits intro: assms reachable.call_step)

lemma steps_while_returns:
  assumes "client_world cx" and "\<And>s. reachable cx s \<Longrightarrow> reachable cx (after s)"
  shows "reachable cx s \<Longrightarrow> \<exists>r. steps_while cx cont after n s = Some r"
proof (induction n arbitrary: s)
  case (Suc n)
  obtain e s1 where st: "step cx s = Some (e, s1)"
    using client_world.step_returns [OF assms(1)] client_world.reachable_keeps [OF assms(1) Suc.prems] by blast
  have "reachable cx (after s1)" by (intro assms(2) reachable.call_step [OF Suc.prems st])
  then show ?case using Suc.IH by (simp add: st)
qed simp

lemma ip_close_reachable:
  assumes "ip_close cx wait s = Some r" and "reachable cx s"
  shows "reachable cx r"
proof -
  obtain s1 where a: "steps_while cx (\<lambda>s. inflight_count (cx_cfg cx) s > 0) (wait_for wait 50) 40 s = Some s1"
    and b: "steps_while cx (\<lambda>s. c_state s \<noteq> Idle) (\<lambda>s. s) 10 (snd (disconnect cx s1)) = Some r"
    using assms(1) by (auto simp: ip_close_def split: option.splits)
  show ?thesis
    by (intro steps_while_reachable [OF _ b] disconnect_reachable steps_while_reachable [OF wait_reachable a assms(2)])
qed

lemma ip_close_total:
  assumes "client_world cx" and "reachable cx s"
  shows "\<exists>r. ip_close cx wait s = Some r"
proof -
  obtain s1 where a: "steps_while cx (\<lambda>s. inflight_count (cx_cfg cx) s > 0) (wait_for wait 50) 40 s = Some s1"
    using steps_while_returns [where after = "wait_for wait 50", OF assms(1) wait_reachable assms(2)] by blast
  have "reachable cx s1" by (rule steps_while_reachable [OF wait_reachable a assms(2)])
  from steps_while_returns [OF assms(1) _ disconnect_reachable [OF this], of "\<lambda>s. s"]
  show ?thesis by (simp add: ip_close_def a)
qed

lemma connect_reachable: "reachable cx s \<Longrightarrow> connect cx opts s = (e, s') \<Longrightarrow> reachable cx s'"
  by (rule reachable.call_connect)

lemma minimal_main_reachable:
  assumes "minimal_main cx wait env = Some (status, s)"
  shows "reachable cx s" "status = 0 \<Longrightarrow> c_state s = Idle"
proof -
  let ?s0 = "on_delivery_complete (Some 0) (new_client (cx_cfg cx) (env, globals0))"
  obtain e s1 where c: "connect cx minimal_options ?s0 = (e, s1)" by fastforce
  have r1: "reachable cx s1" by (rule connect_reachable [OF _ c]) (intro bind_reachable reachable.fresh)
  have "reachable cx s \<and> (status = 0 \<longrightarrow> c_state s = Idle)"
  proof (cases "e = Ok")
    case True
    with assms obtain b s2 where l: "minimal_loop cx wait False s1 = Some (b, s2)"
      by (auto simp: minimal_main_def c Let_def split: option.splits)
    note r2 = minimal_loop_reachable [OF l r1, simplified]
    show ?thesis
    proof (cases b)
      case True
      then have "until_idle cx (snd (disconnect cx s2)) = Some s"
        using assms \<open>e = Ok\<close> by (simp add: minimal_main_def c l Let_def split: option.splits)
      then show ?thesis using until_idle_reachable disconnect_reachable [OF r2] by blast
    qed (use assms \<open>e = Ok\<close> r2 in \<open>simp add: minimal_main_def c l Let_def\<close>)
  qed (use assms r1 in \<open>simp add: minimal_main_def c Let_def\<close>)
  then show "reachable cx s" "status = 0 \<Longrightarrow> c_state s = Idle" by auto
qed

lemma ip_main_reachable:
  assumes "ip_main cx wait topic env = Some (status, s)"
  shows "reachable cx s"
proof -
  obtain e s1 where c: "connect cx ip_options (bound_client cx env) = (e, s1)" by fastforce
  have r1: "reachable cx s1" by (rule connect_reachable [OF bound_reachable c])
  obtain t s2 where k: "read_clock cx s1 = (t, s2)" by fastforce
  show ?thesis
  proof (cases "e = Ok")
    case True
    with assms obtain s3 where "ip_loop cx wait topic False 0 t s2 = Some s3" "ip_close cx wait s3 = Some s"
      by (auto simp: ip_main_def c k Let_def split: option.splits)
    then show ?thesis using ip_loop_reachable ip_close_reachable clock_reachable [OF r1 k] by blast
  qed (use assms r1 in \<open>simp add: ip_main_def c Let_def\<close>)
qed

lemma demo_linger_reachable:
  assumes "demo_linger cx wait ka v s = Some r" and "reachable cx s"
  shows "reachable cx r"
proof -
  obtain s1 where a: "steps_while cx (\<lambda>s. \<not> d_timed_out v \<and> inflight_count (cx_cfg cx) s > 0) (wait_for wait 50) 40 s = Some s1"
    using assms(1) by (auto simp: demo_linger_def split: option.splits)
  obtain t s2 where k: "read_clock cx s1 = (t, s2)" by fastforce
  have "reachable cx s2" by (rule clock_reachable [OF steps_while_reachable [OF wait_reachable a assms(2)] k])
  then show ?thesis using assms(1) demo_idle_reachable by (auto simp: demo_linger_def a k split: if_splits)
qed

lemma demo_main_reachable:
  assumes "demo_main cx wait topic env = Some (status, s)"
  shows "reachable cx s" "status = 0 \<Longrightarrow> c_state s = Idle"
proof -
  obtain e s1 where c: "connect cx demo_options (bound_client cx env) = (e, s1)" by fastforce
  have r1: "reachable cx s1" by (rule connect_reachable [OF bound_reachable c])
  obtain t s2 where k: "read_clock cx s1 = (t, s2)" by fastforce
  obtain u s3 where k': "read_clock cx s2 = (u, s3)" by fastforce
  note r3 = clock_reachable [OF clock_reachable [OF r1 k] k']
  let ?v = "\<lparr>d_subscribed = False, d_published = 0, d_deferrals = 0, d_last_pub = t, d_timed_out = False\<rparr>"
  have "reachable cx s \<and> (status = 0 \<longrightarrow> c_state s = Idle)"
  proof (cases "e = Ok")
    case True
    with assms obtain v s4 s5 where l: "demo_loop cx wait topic u ?v s3 = Some (v, s4)"
        "demo_linger cx wait (o_keep_alive_s demo_options) v s4 = Some s5"
        "steps_while cx (\<lambda>s. c_state s \<noteq> Idle) (wait_for wait 10) 20 (snd (disconnect cx s5)) = Some s"
        "status = (if demo_failures v (globals_of s) (is_connected s5) (c_state s = Idle) \<noteq> 0 then 1 else 0)"
      by (auto simp: demo_main_def c k k' Let_def split: option.splits)
    have "reachable cx s5" using demo_linger_reachable [OF l(2)] demo_loop_reachable [OF l(1) r3] by simp
    then have "reachable cx s" using steps_while_reachable [OF wait_reachable l(3)] disconnect_reachable by blast
    moreover have "status = 0 \<longrightarrow> c_state s = Idle" using l(4) by (auto simp: demo_failures_def expect_def split: if_splits)
    ultimately show ?thesis by blast
  qed (use assms r1 in \<open>simp add: demo_main_def c Let_def\<close>)
  then show "reachable cx s" "status = 0 \<Longrightarrow> c_state s = Idle" by auto
qed

section \<open>Leaving\<close>

text \<open>A transport that takes nothing and has nothing, and stays so.\<close>

definition stalled :: "'e platform \<Rightarrow> 'e \<Rightarrow> bool" where
  "stalled pl env \<longleftrightarrow> (\<forall>data. tr_send pl data env = (WouldBlock, 0, env)) \<and> (\<forall>buf. tr_recv pl buf env = (WouldBlock, 0, buf, env))"

lemma stalled_step:
  assumes "stalled (cx_pl cx) (c_env s)" and "c_state s = Disconnecting" and "\<not> tx_empty (c_tx s)" and "c_rx_len s = 0"
    and "\<not> c_in_step s" and "0 < rx_buffer_size (cx_cfg cx)"
  shows "step cx s = Some (Ok, s)"
proof -
  let ?s = "s\<lparr>c_in_step := True\<rparr>"
  have tx: "pump_tx cx ?s = Some (Ok, ?s)" using assms(1,3) by (subst pump_tx.simps) (simp add: stalled_def)
  have dr: "drain_rx cx ?s = Some (Ok, ?s)" using assms(4) by (subst drain_rx.simps) simp
  have "s\<lparr>c_in_step := True, c_rx := c_rx s, c_env := c_env s\<rparr> = ?s" by simp
  then have "recv_rounds cx (Suc n) ?s = Some (Ok, ?s)" for n
    using assms(1,4,6) dr by (simp add: stalled_def)
  then have rx: "pump_rx cx ?s = Some (Ok, ?s)" by (simp add: pump_rx_def kMaxRecvRoundsPerStep_def numeral_eq_Suc)
  have "step_once cx ?s = Some (Ok, ?s)" using assms(2,3)
    by (simp add: step_once_def step_io_def step_timers_def tx rx Let_def)
  then show ?thesis using assms(5) by (simp add: step_def)
qed

lemma until_idle_stalled:
  assumes "step cx s = Some (Ok, s)" and "c_state s \<noteq> Idle"
  shows "until_idle cx s = None"
proof (rule ccontr)
  assume "until_idle cx s \<noteq> None"
  then obtain t where t: "until_idle cx s = Some t" by blast
  have "\<not> (step cx s = Some (Ok, s) \<and> c_state s \<noteq> Idle)"
  proof (rule until_idle.raw_induct [where P = "\<lambda>cx s t. \<not> (step cx s = Some (Ok, s) \<and> c_state s \<noteq> Idle)", OF _ t], goal_cases)
    case (1 f cx s t)
    then show ?case by (cases "c_state s = Idle") auto
  qed
  then show False using assms by blast
qed

section \<open>Runs on the test bench\<close>

text \<open>A configuration with small buffers, a broker that acknowledges while the program waits, and a
  client that has queued its DISCONNECT on a transport that takes nothing.\<close>

definition run_config :: config where
  "run_config = bench_config\<lparr>max_topic_len := 16, max_persisted_msg_size := 32\<rparr>"

definition run_ctx :: "(list_writer, list_reader, fake_env \<times> globals) client_ctx" where
  "run_ctx = program run_config list_streams fake_platform minimal_handle"

definition run_wait :: "int \<Rightarrow> fake_env \<Rightarrow> fake_env" where
  "run_wait ms env = push_ack Puback 1 env"

definition run_up :: "(fake_env \<times> globals) client" where
  "run_up = (case step run_ctx (snd (connect run_ctx minimal_options
       (new_client run_config (push_connack False Accepted fake_env0, globals0)))) of
     Some (_, s) \<Rightarrow> s | None \<Rightarrow> new_client run_config (fake_env0, globals0))"

definition block :: "(fake_env \<times> globals) client \<Rightarrow> (fake_env \<times> globals) client" where
  "block s = s\<lparr>c_env := ((fst (c_env s))\<lparr>f_send_blocked := True\<rparr>, snd (c_env s))\<rparr>"

definition run_stuck :: "(fake_env \<times> globals) client" where
  "run_stuck = snd (disconnect run_ctx (block run_up))"

definition stuck_on :: "(fake_env \<times> globals) client \<Rightarrow> bytes \<Rightarrow> bool" where
  "stuck_on s bs \<longleftrightarrow> f_connected (fst (c_env s)) \<and> f_send_blocked (fst (c_env s))
     \<and> length (f_inbound (fst (c_env s))) \<le> f_inbound_pos (fst (c_env s)) \<and> \<not> f_close_when_drained (fst (c_env s))
     \<and> c_state s = Disconnecting \<and> peek (c_tx s) = bs \<and> c_rx_len s = 0"

lemma run_world: "client_world run_ctx"
  unfolding run_ctx_def
  by (intro program_world lists.byte_streams_axioms fake.transport_contract_axioms)
    (simp add: wf_config_def config_check_def run_config_def bench_config_def DefaultConfig_def)

lemma run_stuck_reachable: "reachable run_ctx run_stuck"
proof -
  let ?s0 = "new_client run_config (push_connack False Accepted fake_env0, globals0)"
  have f: "reachable run_ctx (new_client run_config env)" for env using reachable.fresh [of run_ctx env] by (simp add: run_ctx_def)
  have "reachable run_ctx (snd (connect run_ctx minimal_options ?s0))"
    by (rule connect_reachable [OF f prod.collapse [symmetric]])
  then have "reachable run_ctx run_up"
    using f by (auto simp: run_up_def split: option.split intro: reachable.call_step)
  then show ?thesis unfolding run_stuck_def block_def by (intro disconnect_reachable reachable.world)
qed

lemma fake_stalled:
  "f_connected env \<Longrightarrow> f_send_blocked env \<Longrightarrow> length (f_inbound env) \<le> f_inbound_pos env \<Longrightarrow> \<not> f_close_when_drained env \<Longrightarrow>
     stalled (with_globals fake_platform) (env, g)"
  by (simp add: stalled_def with_globals_def fake_platform_def fake_send_def fake_recv_def)

section \<open>Properties\<close>



text \<open>C25: How the programs leave. The end of \<open>ip_publisher\<close>, with its bounded loops, returns from every
  reachable state. The loop \<open>while (client.state() != Idle) client.step()\<close> at the end of
  \<open>minimal_publisher\<close> does not: over a transport that stays open but takes nothing, the client stays
  in \<open>Disconnecting\<close> for ever, since no timer runs there.\<close>

theorem programs_leave:
  assumes "client_world cx" and "reachable cx s"
  shows "(\<exists>r. ip_close cx wait s = Some r)
    \<and> (stalled (cx_pl cx) (c_env s) \<and> c_state s = Disconnecting \<and> peek (c_tx s) \<noteq> [] \<and> c_rx_len s = 0 \<longrightarrow> until_idle cx s = None)"
proof (intro conjI impI)
  show "\<exists>r. ip_close cx wait s = Some r" by (rule ip_close_total [OF assms])
next
  assume a: "stalled (cx_pl cx) (c_env s) \<and> c_state s = Disconnecting \<and> peek (c_tx s) \<noteq> [] \<and> c_rx_len s = 0"
  have k: "client_invar (cx_cfg cx) s" "\<not> c_in_step s" using client_world.reachable_keeps [OF assms] by blast+
  have "\<not> tx_empty (c_tx s)" using a client_invar_txD [OF k(1)] by (simp add: tx_ok_def tx_empty_iff)
  moreover have "wf_config (cx_cfg cx)" using assms(1) client_env.config client_world.axioms(1) by blast
  then have "0 < rx_buffer_size (cx_cfg cx)" by (simp add: wf_config_def config_check_def)
  ultimately show "until_idle cx s = None" using a k(2) by (intro until_idle_stalled stalled_step) auto
qed

theorem programs_leave_witness:
  "(\<exists>r. ip_close run_ctx run_wait run_stuck = Some r) \<and> until_idle run_ctx run_stuck = None"
proof -
  have "stuck_on run_stuck [0xE0, 0]" by code_simp
  then have "stalled (with_globals fake_platform) (c_env run_stuck)" "c_state run_stuck = Disconnecting"
      "peek (c_tx run_stuck) = [0xE0, 0]" "c_rx_len run_stuck = 0"
    using fake_stalled [of "fst (c_env run_stuck)" "snd (c_env run_stuck)"] by (simp_all add: stuck_on_def)
  then show ?thesis using programs_leave [OF run_world run_stuck_reachable, of run_wait] by (simp add: run_ctx_def)
qed

end
